(* ===== verification/Prelude.thy ===== *)
theory Prelude
  imports Main "HOL-Library.Word" "HOL-Library.List_Lexorder"
begin

unbundle bit_operations_syntax

text \<open>
  What every other theory shares: bytes as 8-bit words and byte strings as lists of them (compared
  lexicographically, as Rust compares slices, by \<^theory_text>\<open>List_Lexorder\<close>), the outcome type of fallible
  code, splitting and joining at a separator byte (the slice methods \<open>split\<close> and \<open>join\<close> of the
  standard library), integer-to-byte conversion in the machine's byte order, lower-case hex, the
  search functions of the \<open>twoway\<close> package as a parameter with its documented behaviour, and the
  lemmas about all of these.
\<close>

named_theorems scan \<comment> \<open>facts that evaluate scans over byte lists\<close>

type_synonym u8 = "8 word"
type_synonym u32 = "32 word"
type_synonym u64 = "64 word"
type_synonym bytes = "8 word list"

text \<open>The error type of the crate (\<open>src/skk/error.rs\<close>); payloads of foreign errors are dropped.\<close>

datatype skk_error =
    Io | Parse | Reqwest | FromUtf8 | Json | Bincode
  | JisyoRead | BrokenCache | CacheOpen | BrokenDictionary | CommandLine | EncodingError | Request

text \<open>
  A Rust call ends with \<open>Ok\<close>, with \<open>Err\<close>, or by a panic (an index out of range, a failed
  \<open>unwrap\<close> or \<open>assert!\<close>). \<open>Undefined\<close> is an unchecked read past the end of a slice in \<open>unsafe\<close> code;
  \<open>Diverge\<close> is a loop that repeats a turn without a change of the state its exit depends on.
\<close>

datatype 'a res = Ok (the_ok: 'a) | Err skk_error | Panic | Undefined | Diverge

fun and_then :: "'a res \<Rightarrow> ('a \<Rightarrow> 'b res) \<Rightarrow> 'b res" where
  "and_then (Ok x) f = f x"
| "and_then (Err e) f = Err e"
| "and_then Panic f = Panic"
| "and_then Undefined f = Undefined"
| "and_then Diverge f = Diverge"

lemma and_then_eq_Ok: "and_then m f = Ok y \<longleftrightarrow> (\<exists>x. m = Ok x \<and> f x = Ok y)"
  by (cases m) auto

lemma and_then_assoc: "and_then (and_then m f) g = and_then m (\<lambda>x. and_then (f x) g)"
  by (cases m) auto

lemma and_then_cong [fundef_cong]:
  "m = m' \<Longrightarrow> (\<And>x. m' = Ok x \<Longrightarrow> f x = f' x) \<Longrightarrow> and_then m f = and_then m' f'"
  by (cases m') auto

text \<open>Checked indexing and slicing: Rust panics where HOL would be silent.\<close>

definition index_res :: "'a list \<Rightarrow> nat \<Rightarrow> 'a res" where
  "index_res xs i = (if i < length xs then Ok (xs ! i) else Panic)"

definition slice :: "'a list \<Rightarrow> nat \<Rightarrow> nat \<Rightarrow> 'a list" where
  "slice xs i j = take (j - i) (drop i xs)"

definition slice_res :: "'a list \<Rightarrow> nat \<Rightarrow> nat \<Rightarrow> 'a list res" where
  "slice_res xs i j = (if i \<le> j \<and> j \<le> length xs then Ok (slice xs i j) else Panic)"

lemma index_res_Ok [simp]: "i < length xs \<Longrightarrow> index_res xs i = Ok (xs ! i)"
  by (simp add: index_res_def)

lemma slice_res_Ok [simp]: "i \<le> j \<Longrightarrow> j \<le> length xs \<Longrightarrow> slice_res xs i j = Ok (slice xs i j)"
  by (simp add: slice_res_def)

lemma length_slice [simp]: "j \<le> length xs \<Longrightarrow> length (slice xs i j) = j - i"
  by (simp add: slice_def)

lemma slice_append: "i \<le> j \<Longrightarrow> j \<le> k \<Longrightarrow> slice xs i j @ slice xs j k = slice xs i k"
proof -
  assume "i \<le> j" and "j \<le> k"
  then have "k - i = (j - i) + (k - j)" and "drop j xs = drop (j - i) (drop i xs)"
    by simp_all
  then show ?thesis by (simp only: slice_def take_add)
qed

lemma slice_full [simp]: "slice xs 0 (length xs) = xs"
  by (simp add: slice_def)

lemma slice_same [simp]: "slice xs i i = []"
  by (simp add: slice_def)

lemma nth_slice: "i + k < j \<Longrightarrow> j \<le> length xs \<Longrightarrow> slice xs i j ! k = xs ! (i + k)"
  by (simp add: slice_def)

lemma slice_append_mid: "slice (xs @ ys @ zs) (length xs) (length xs + length ys) = ys"
  by (simp add: slice_def)

lemma slice_eq_middle:
  "n = length xs \<Longrightarrow> m = length xs + length ys \<Longrightarrow> slice (xs @ ys @ zs) n m = ys"
  by (simp add: slice_append_mid)

section \<open>Bytes and ASCII\<close>

definition ascii :: "string \<Rightarrow> bytes" where
  "ascii s = map of_char s"

abbreviation space :: u8 where "space \<equiv> 0x20"
abbreviation slash :: u8 where "slash \<equiv> 0x2f"
abbreviation semicolon :: u8 where "semicolon \<equiv> 0x3b"
abbreviation lf :: u8 where "lf \<equiv> 0x0a"
abbreviation cr :: u8 where "cr \<equiv> 0x0d"

definition in_range :: "u8 \<Rightarrow> u8 \<Rightarrow> u8 \<Rightarrow> bool" where
  "in_range lo hi b \<longleftrightarrow> lo \<le> b \<and> b \<le> hi"

definition hex_digit :: "u8 \<Rightarrow> u8" where
  "hex_digit n = (if n < 10 then 0x30 + n else 0x57 + n)"

text \<open>The format \<open>{:>02x}\<close> of one byte.\<close>

definition hex2 :: "u8 \<Rightarrow> bytes" where
  "hex2 b = [hex_digit (drop_bit 4 b), hex_digit (b AND 0x0f)]"

section \<open>Splitting and joining at a separator\<close>

fun split_on :: "'a \<Rightarrow> 'a list \<Rightarrow> 'a list list" where
  "split_on s [] = [[]]"
| "split_on s (x # xs) =
     (if x = s then [] # split_on s xs
      else (case split_on s xs of [] \<Rightarrow> [[x]] | p # ps \<Rightarrow> (x # p) # ps))"

fun join_with :: "'a \<Rightarrow> 'a list list \<Rightarrow> 'a list" where
  "join_with s [] = []"
| "join_with s [p] = p"
| "join_with s (p # q # ps) = p @ s # join_with s (q # ps)"

lemma split_on_not_Nil [simp]: "split_on s xs \<noteq> []"
  by (induction xs) (auto split: list.splits)

lemma join_split_on [simp]: "join_with s (split_on s xs) = xs"
proof (induction xs)
  case (Cons x xs)
  then show ?case
    by (cases "split_on s xs"; cases "tl (split_on s xs)") (auto split: list.splits)
qed simp

lemma split_on_no_sep: "s \<notin> set p \<Longrightarrow> split_on s p = [p]"
  by (induction p) auto

lemma split_on_append_sep: "s \<notin> set p \<Longrightarrow> split_on s (p @ s # xs) = p # split_on s xs"
  by (induction p) auto

lemma split_on_pieces: "p \<in> set (split_on s xs) \<Longrightarrow> s \<notin> set p"
  by (induction xs arbitrary: p) (auto split: if_splits list.splits)

lemma split_on_subset: "p \<in> set (split_on s xs) \<Longrightarrow> set p \<subseteq> set xs"
proof (induction xs arbitrary: p)
  case (Cons x xs)
  obtain q qs where q: "split_on s xs = q # qs" by (cases "split_on s xs") auto
  then show ?case using Cons.IH [of p] Cons.IH [of q] Cons.prems by (auto split: if_splits)
qed simp

lemma split_join: "ps \<noteq> [] \<Longrightarrow> \<forall>p \<in> set ps. s \<notin> set p \<Longrightarrow> split_on s (join_with s ps) = ps"
  by (induction s ps rule: join_with.induct) (auto simp: split_on_append_sep split_on_no_sep)

lemma length_split_on: "length (split_on s xs) = Suc (count_list xs s)"
  by (induction xs) (auto split: list.splits)

lemma join_with_snoc: "ps \<noteq> [] \<Longrightarrow> join_with s (ps @ [p]) = join_with s ps @ s # p"
  by (induction s ps rule: join_with.induct) auto

text \<open>Each piece followed by the separator: the shape \<open>push(piece); push('/')\<close> in a loop builds.\<close>

lemma concat_terminated:
  "ps \<noteq> [] \<Longrightarrow> concat (map (\<lambda>p. p @ [s]) ps) = join_with s ps @ [s]"
  by (induction s ps rule: join_with.induct) auto

section \<open>Substring search\<close>

definition occurs_at :: "'a list \<Rightarrow> 'a list \<Rightarrow> nat \<Rightarrow> bool" where
  "occurs_at h n i \<longleftrightarrow> i + length n \<le> length h \<and> take (length n) (drop i h) = n"

text \<open>
  The functions \<open>find_bytes\<close> and \<open>rfind_bytes\<close> of the \<open>twoway\<close> package are a parameter. Their
  documentation: the first, and the last, position at which the pattern occurs.
\<close>

record twoway =
  find_bytes :: "bytes \<Rightarrow> bytes \<Rightarrow> nat option"
  rfind_bytes :: "bytes \<Rightarrow> bytes \<Rightarrow> nat option"

definition twoway_documented :: "twoway \<Rightarrow> bool" where
  "twoway_documented tw \<longleftrightarrow>
     (\<forall>h n. (case find_bytes tw h n of
               None \<Rightarrow> \<forall>i. \<not> occurs_at h n i
             | Some i \<Rightarrow> occurs_at h n i \<and> (\<forall>j < i. \<not> occurs_at h n j))) \<and>
     (\<forall>h n. (case rfind_bytes tw h n of
               None \<Rightarrow> \<forall>i. \<not> occurs_at h n i
             | Some i \<Rightarrow> occurs_at h n i \<and> (\<forall>j > i. \<not> occurs_at h n j)))"

text \<open>A naive search satisfies the documentation; the witnesses run on it.\<close>

fun naive_find :: "bytes \<Rightarrow> bytes \<Rightarrow> nat option" where
  "naive_find [] n = (if n = [] then Some 0 else None)"
| "naive_find (x # xs) n =
     (if take (length n) (x # xs) = n then Some 0 else map_option Suc (naive_find xs n))"

fun naive_rfind :: "bytes \<Rightarrow> bytes \<Rightarrow> nat option" where
  "naive_rfind [] n = (if n = [] then Some 0 else None)"
| "naive_rfind (x # xs) n =
     (case naive_rfind xs n of
        Some i \<Rightarrow> Some (Suc i)
      | None \<Rightarrow> if take (length n) (x # xs) = n then Some 0 else None)"

definition naive_twoway :: twoway where
  "naive_twoway = \<lparr>find_bytes = naive_find, rfind_bytes = naive_rfind\<rparr>"

lemma occurs_at_Nil: "occurs_at [] n i \<longleftrightarrow> n = [] \<and> i = 0"
  by (auto simp: occurs_at_def)

lemma occurs_at_0: "occurs_at h n 0 \<longleftrightarrow> take (length n) h = n"
  by (auto simp: occurs_at_def) (metis length_take min.bounded_iff order_refl)

lemma occurs_at_Suc: "occurs_at (x # xs) n (Suc i) \<longleftrightarrow> occurs_at xs n i"
  by (auto simp: occurs_at_def)

lemma occurs_at_Cons:
  "occurs_at (x # xs) n i \<longleftrightarrow>
     (case i of 0 \<Rightarrow> take (length n) (x # xs) = n | Suc k \<Rightarrow> occurs_at xs n k)"
  by (cases i) (simp_all only: occurs_at_0 occurs_at_Suc nat.case)

lemma occurs_at_length: "occurs_at h n i \<Longrightarrow> i + length n \<le> length h"
  by (simp add: occurs_at_def)

lemma naive_find_correct:
  "(case naive_find h n of
      None \<Rightarrow> \<forall>i. \<not> occurs_at h n i
    | Some i \<Rightarrow> occurs_at h n i \<and> (\<forall>j < i. \<not> occurs_at h n j))"
proof (induction h)
  case Nil
  then show ?case by (simp add: occurs_at_Nil)
next
  case (Cons x xs)
  then show ?case
    by (auto simp: occurs_at_Cons split: option.splits nat.splits)
qed

lemma naive_rfind_correct:
  "(case naive_rfind h n of
      None \<Rightarrow> \<forall>i. \<not> occurs_at h n i
    | Some i \<Rightarrow> occurs_at h n i \<and> (\<forall>j > i. \<not> occurs_at h n j))"
proof (induction h)
  case Nil
  then show ?case by (simp add: occurs_at_Nil)
next
  case (Cons x xs)
  then show ?case
    by (auto simp: occurs_at_Cons split: option.splits nat.splits)
qed

lemma naive_twoway_documented: "twoway_documented naive_twoway"
  unfolding twoway_documented_def naive_twoway_def
  using naive_find_correct naive_rfind_correct by simp


text \<open>One-byte patterns.\<close>

lemma occurs_at_single: "occurs_at h [x] i \<longleftrightarrow> i < length h \<and> h ! i = x"
proof -
  have "take 1 (drop i h) = [h ! i]" if "i < length h"
    using that Cons_nth_drop_Suc [of i h] by (metis One_nat_def take_Suc_Cons take0)
  then show ?thesis by (auto simp: occurs_at_def)
qed

lemma find_byte_first:
  assumes "twoway_documented tw" "x \<notin> set ys" 
  shows "find_bytes tw (ys @ x # zs) [x] = Some (length ys)"
proof -
  have o: "occurs_at (ys @ x # zs) [x] (length ys)" by (simp add: occurs_at_single)
  have n: "\<not> occurs_at (ys @ x # zs) [x] j" if "j < length ys" for j
    using that assms(2) by (auto simp: occurs_at_single nth_append)
  have "case find_bytes tw (ys @ x # zs) [x] of None \<Rightarrow> \<forall>i. \<not> occurs_at (ys @ x # zs) [x] i
      | Some i \<Rightarrow> occurs_at (ys @ x # zs) [x] i \<and> (\<forall>j < i. \<not> occurs_at (ys @ x # zs) [x] j)"
    using assms(1) by (simp add: twoway_documented_def)
  then show ?thesis
    using o n by (cases "find_bytes tw (ys @ x # zs) [x]") (auto, meson linorder_neqE_nat)
qed

lemma find_byte_none: "twoway_documented tw \<Longrightarrow> x \<notin> set ys \<Longrightarrow> find_bytes tw ys [x] = None"
proof -
  assume tw: "twoway_documented tw" and x: "x \<notin> set ys"
  have "case find_bytes tw ys [x] of None \<Rightarrow> \<forall>i. \<not> occurs_at ys [x] i
      | Some i \<Rightarrow> occurs_at ys [x] i \<and> (\<forall>j < i. \<not> occurs_at ys [x] j)"
    using tw by (simp add: twoway_documented_def)
  then show ?thesis
    using x by (cases "find_bytes tw ys [x]") (auto simp: occurs_at_single)
qed

lemma rfind_byte_last:
  assumes "twoway_documented tw" "x \<notin> set zs" 
  shows "rfind_bytes tw (ys @ x # zs) [x] = Some (length ys)"
proof -
  have o: "occurs_at (ys @ x # zs) [x] (length ys)" by (simp add: occurs_at_single)
  have n: "\<not> occurs_at (ys @ x # zs) [x] j" if "j > length ys" for j
  proof
    assume "occurs_at (ys @ x # zs) [x] j"
    then have "j < length ys + Suc (length zs)" "(x # zs) ! (j - length ys) = x"
      using that by (auto simp: occurs_at_single nth_append)
    then show False using that assms(2) by (cases "j - length ys") auto
  qed
  have "case rfind_bytes tw (ys @ x # zs) [x] of None \<Rightarrow> \<forall>i. \<not> occurs_at (ys @ x # zs) [x] i
      | Some i \<Rightarrow> occurs_at (ys @ x # zs) [x] i \<and> (\<forall>j > i. \<not> occurs_at (ys @ x # zs) [x] j)"
    using assms(1) by (simp add: twoway_documented_def)
  then show ?thesis
    using o n by (cases "rfind_bytes tw (ys @ x # zs) [x]") (auto, meson linorder_neqE_nat)
qed

lemma rfind_byte_some:
  assumes "twoway_documented tw" "i < length h" "h ! i = x"
  obtains r where "rfind_bytes tw h [x] = Some r" "i \<le> r" "r < length h" "h ! r = x"
    "\<And>j. r < j \<Longrightarrow> j < length h \<Longrightarrow> h ! j \<noteq> x"
proof -
  have c: "case rfind_bytes tw h [x] of None \<Rightarrow> \<forall>i. \<not> occurs_at h [x] i
      | Some i \<Rightarrow> occurs_at h [x] i \<and> (\<forall>j > i. \<not> occurs_at h [x] j)"
    using assms(1) by (simp add: twoway_documented_def)
  have o: "occurs_at h [x] i" using assms(2,3) by (simp add: occurs_at_single)
  show ?thesis
  proof (cases "rfind_bytes tw h [x]")
    case None
    then show ?thesis using c o by simp
  next
    case (Some r)
    then have r: "occurs_at h [x] r" "\<And>j. r < j \<Longrightarrow> \<not> occurs_at h [x] j" using c by auto
    have "i \<le> r" using r(2) o by (meson not_less)
    then show ?thesis using that [OF Some] r by (auto simp: occurs_at_single)
  qed
qed

section \<open>Signed 32-bit integers\<close>

text \<open>\<open>i32\<close> arithmetic wraps in a release build.\<close>

definition as_i32 :: "int \<Rightarrow> int" where
  "as_i32 x = signed_take_bit 31 x"

lemma as_i32_small [simp]: "- (2 ^ 31) \<le> x \<Longrightarrow> x < 2 ^ 31 \<Longrightarrow> as_i32 x = x"
  by (simp add: as_i32_def signed_take_bit_int_eq_self)

end
