(* ===== verification/Skk_Types.thy ===== *)
theory Skk_Types
  imports Prelude
begin

text \<open>
  The data model of \<open>src/skk.rs\<close>: the crate's constants, the encodings and the Google timing, the
  \<open>Config\<close> record, the fixed-layout structures of the dictionary file with the \<open>ToFromNeBytes\<close>
  trait that stores them, and the index kept in memory (\<open>OnMemory\<close>). The trait is the locale
  \<open>byte_codec\<close>; each structure interprets it. Byte order is a parameter, as \<open>to_ne_bytes\<close> is native.
\<close>

section \<open>Constants\<close>

definition dictionary_fixed_header_area_length :: u32 where
  "dictionary_fixed_header_area_length = 256"

definition dictionary_version_number :: u32 where
  "dictionary_version_number = 1"

definition default_port :: int where "default_port = 1178"
definition default_max_connections :: int where "default_max_connections = 16"
definition default_google_timeout_milliseconds :: u64 where
  "default_google_timeout_milliseconds = 1000"
definition default_google_cache_entries :: nat where "default_google_cache_entries = 1024"
definition default_google_cache_expire_seconds :: u64 where
  "default_google_cache_expire_seconds = 30 * 24 * 60 * 60"
definition default_google_max_candidates_length :: nat where
  "default_google_max_candidates_length = 5 * 5"
definition default_max_server_completions :: u32 where "default_max_server_completions = 64"

definition jisyo_maximum_line_length :: nat where "jisyo_maximum_line_length = 128 * 1024"
definition jisyo_minimum_line_length :: nat where "jisyo_minimum_line_length = 5"
definition jisyo_minimum_candidates_length :: nat where "jisyo_minimum_candidates_length = 3"

definition protocol_result_error :: bytes where
  "protocol_result_error = [0x30, lf]"

definition sha1sum_length :: nat where "sha1sum_length = 20"
definition sha1sum_zero :: bytes where "sha1sum_zero = replicate sha1sum_length 0"
definition index_ascii_hiragana_vec_length :: nat where
  "index_ascii_hiragana_vec_length = 256"

section \<open>Encodings, Google timing and the configuration\<close>

datatype encoding = Euc | Utf8

datatype encoding_options = NoOptions | Bom

definition encoding_from_u32 :: "u32 \<Rightarrow> encoding res" where
  "encoding_from_u32 v = (if v = 0 then Ok Euc else if v = 1 then Ok Utf8 else Panic)"

text \<open>The cast \<open>encoding as u32\<close> of the enum gives the declaration order.\<close>

fun encoding_as_u32 :: "encoding \<Rightarrow> u32" where
  "encoding_as_u32 Euc = 0"
| "encoding_as_u32 Utf8 = 1"

lemma encoding_from_as [simp]: "encoding_from_u32 (encoding_as_u32 e) = Ok e"
  by (cases e) (simp_all add: encoding_from_u32_def)

datatype google_timing = NotFound | Disable | Last | First

record config =
  port :: string
  max_connections :: int
  listen_address :: string
  hostname_and_ip_address_for_protocol_3 :: string
  dictionary_full_path :: string
  full_path :: string
  google_timeout_milliseconds :: u64
  google_timing :: google_timing
  google_cache_full_path :: string
  google_cache_entries :: nat
  google_cache_expire_seconds :: u64
  google_max_candidates_length :: nat
  max_server_completions :: u32
  google_insert_hiragana_only_candidate :: bool
  google_insert_katakana_only_candidate :: bool
  google_insert_hankaku_katakana_only_candidate :: bool
  is_http_enabled :: bool
  is_google_cache_enabled :: bool
  is_google_suggest_enabled :: bool
  is_midashi_utf8 :: bool
  config_encoding :: encoding
  is_no_daemonize :: bool
  is_verbose :: bool

definition config_new :: config where
  "config_new = \<lparr>
     port = ''1178'',
     max_connections = default_max_connections,
     listen_address = ''0.0.0.0'',
     hostname_and_ip_address_for_protocol_3 = ''localhost:127.0.0.1'',
     dictionary_full_path = '''',
     full_path = ''/etc/yaskkserv2.conf'',
     google_timeout_milliseconds = default_google_timeout_milliseconds,
     google_timing = NotFound,
     google_cache_full_path = ''/tmp/yaskkserv2.google_cache'',
     google_cache_entries = default_google_cache_entries,
     google_cache_expire_seconds = default_google_cache_expire_seconds,
     google_max_candidates_length = default_google_max_candidates_length,
     max_server_completions = default_max_server_completions,
     google_insert_hiragana_only_candidate = False,
     google_insert_katakana_only_candidate = False,
     google_insert_hankaku_katakana_only_candidate = False,
     is_http_enabled = False,
     is_google_cache_enabled = False,
     is_google_suggest_enabled = False,
     is_midashi_utf8 = False,
     config_encoding = Euc,
     is_no_daemonize = False,
     is_verbose = False\<rparr>"

section \<open>Integers as bytes in native order\<close>

datatype endianness = Little | Big

definition u32_to_le :: "u32 \<Rightarrow> bytes" where
  "u32_to_le w = [ucast w, ucast (drop_bit 8 w), ucast (drop_bit 16 w), ucast (drop_bit 24 w)]"

definition u32_from_le :: "bytes \<Rightarrow> u32" where
  "u32_from_le bs = ucast (bs ! 0) OR push_bit 8 (ucast (bs ! 1))
     OR push_bit 16 (ucast (bs ! 2)) OR push_bit 24 (ucast (bs ! 3))"

fun u32_to_ne :: "endianness \<Rightarrow> u32 \<Rightarrow> bytes" where
  "u32_to_ne Little w = u32_to_le w"
| "u32_to_ne Big w = rev (u32_to_le w)"

fun u32_from_ne :: "endianness \<Rightarrow> bytes \<Rightarrow> u32" where
  "u32_from_ne Little bs = u32_from_le bs"
| "u32_from_ne Big bs = u32_from_le (rev bs)"

lemma length_u32_to_le [simp]: "length (u32_to_le w) = 4"
  by (simp add: u32_to_le_def)

lemma length_u32_to_ne [simp]: "length (u32_to_ne e w) = 4"
  by (cases e) simp_all

lemma u32_from_to_le [simp]: "u32_from_le (u32_to_le w) = w"
proof (rule bit_word_eqI)
  fix n
  assume "n < LENGTH(32)"
  then consider "n < 8" | "8 \<le> n" "n < 16" | "16 \<le> n" "n < 24" | "24 \<le> n" "n < 32"
    by force
  then show "bit (u32_from_le (u32_to_le w)) n = bit w n"
    by cases (auto simp: u32_from_le_def u32_to_le_def bit_simps less_diff_conv2)
qed

lemma u32_from_to_ne [simp]: "u32_from_ne e (u32_to_ne e w) = w"
  by (cases e) simp_all

definition u32_at :: "endianness \<Rightarrow> bytes \<Rightarrow> nat \<Rightarrow> u32" where
  "u32_at e bs i = u32_from_ne e (slice bs i (i + 4))"

lemma u32_at_0 [simp]: "u32_at e (u32_to_ne e w @ bs) 0 = w"
  by (simp add: u32_at_def slice_def)

lemma u32_at_skip [simp]: "u32_at e (u32_to_ne e w @ bs) (4 + i) = u32_at e bs i"
  by (simp add: u32_at_def slice_def)

section \<open>The trait ToFromNeBytes\<close>

text \<open>
  A structure of fixed size, stored as its fields in order. \<open>from_ne_bytes\<close> reads \<open>size_of::<Self>()\<close>
  bytes from the pointer to the slice, whatever the slice's length.
\<close>

locale byte_codec =
  fixes size_of :: nat
    and to_bytes :: "'a \<Rightarrow> bytes"
    and from_bytes :: "bytes \<Rightarrow> 'a res"
    and wf :: "'a \<Rightarrow> bool"
  assumes length_to_bytes: "wf x \<Longrightarrow> length (to_bytes x) = size_of"
    and from_to_bytes: "wf x \<Longrightarrow> from_bytes (to_bytes x @ rest) = Ok x"
    and from_bytes_short: "length bs < size_of \<Longrightarrow> from_bytes bs = Undefined"
begin

lemma length_array: "\<forall>x \<in> set xs. wf x \<Longrightarrow> length (concat (map to_bytes xs)) = length xs * size_of"
  by (induction xs) (auto simp: length_to_bytes)

lemma read_array:
  assumes "\<forall>x \<in> set xs. wf x" and "i < length xs"
  shows "from_bytes (drop (i * size_of) (concat (map to_bytes xs) @ rest)) = Ok (xs ! i)"
  using assms
proof (induction xs arbitrary: i)
  case (Cons x xs)
  show ?case
  proof (cases i)
    case 0
    then show ?thesis using Cons.prems by (simp add: from_to_bytes)
  next
    case (Suc k)
    then have "drop (i * size_of) (to_bytes x @ concat (map to_bytes xs) @ rest) =
        drop (k * size_of) (concat (map to_bytes xs) @ rest)"
      using Cons.prems by (simp add: length_to_bytes)
    then show ?thesis using Cons Suc by simp
  qed
qed simp

lemma to_bytes_inj: "wf x \<Longrightarrow> wf y \<Longrightarrow> to_bytes x = to_bytes y \<Longrightarrow> x = y"
  by (metis from_to_bytes res.inject(1) append_Nil2)

end

type_synonym dictionary_midashi_key = bytes

record block_heads =
  information_length :: u32
  information_midashi_length :: u32
  heads_midashi_key :: dictionary_midashi_key

record offset_length =
  ol_offset :: u32
  ol_length :: u32

record index_data_header =
  block_buffer_length :: u32
  block_header_length :: u32

record block_header =
  bh_offset :: u32
  bh_length :: u32
  bh_unit_length :: u32

record fixed_header =
  dictionary_version :: u32
  encoding_table_offset :: u32
  encoding_table_length :: u32
  index_data_header_offset :: u32
  index_data_header_length :: u32
  index_data_offset :: u32
  index_data_length :: u32
  blocks_offset :: u32
  blocks_length :: u32
  dictionary_length :: u32
  header_encoding :: u32
  sha1sum :: bytes

definition fixed_header_new :: fixed_header where
  "fixed_header_new = \<lparr>dictionary_version = dictionary_version_number,
     encoding_table_offset = 0, encoding_table_length = 0,
     index_data_header_offset = 0, index_data_header_length = 0,
     index_data_offset = 0, index_data_length = 0, blocks_offset = 0, blocks_length = 0,
     dictionary_length = 0, header_encoding = 0, sha1sum = sha1sum_zero\<rparr>"

subsection \<open>The five structures\<close>

definition block_heads_to_bytes :: "endianness \<Rightarrow> block_heads \<Rightarrow> bytes" where
  "block_heads_to_bytes e h = u32_to_ne e (information_length h)
     @ u32_to_ne e (information_midashi_length h) @ heads_midashi_key h"

definition block_heads_from_bytes :: "endianness \<Rightarrow> bytes \<Rightarrow> block_heads res" where
  "block_heads_from_bytes e bs = (if length bs < 12 then Undefined else
     Ok \<lparr>information_length = u32_at e bs 0, information_midashi_length = u32_at e bs 4,
         heads_midashi_key = slice bs 8 12\<rparr>)"

definition block_heads_wf :: "block_heads \<Rightarrow> bool" where
  "block_heads_wf h \<longleftrightarrow> length (heads_midashi_key h) = 4"

definition offset_length_to_bytes :: "endianness \<Rightarrow> offset_length \<Rightarrow> bytes" where
  "offset_length_to_bytes e x = u32_to_ne e (ol_offset x) @ u32_to_ne e (ol_length x)"

definition offset_length_from_bytes :: "endianness \<Rightarrow> bytes \<Rightarrow> offset_length res" where
  "offset_length_from_bytes e bs = (if length bs < 8 then Undefined else
     Ok \<lparr>ol_offset = u32_at e bs 0, ol_length = u32_at e bs 4\<rparr>)"

definition index_data_header_to_bytes :: "endianness \<Rightarrow> index_data_header \<Rightarrow> bytes" where
  "index_data_header_to_bytes e x =
     u32_to_ne e (block_buffer_length x) @ u32_to_ne e (block_header_length x)"

definition index_data_header_from_bytes :: "endianness \<Rightarrow> bytes \<Rightarrow> index_data_header res" where
  "index_data_header_from_bytes e bs = (if length bs < 8 then Undefined else
     Ok \<lparr>block_buffer_length = u32_at e bs 0, block_header_length = u32_at e bs 4\<rparr>)"

definition block_header_to_bytes :: "endianness \<Rightarrow> block_header \<Rightarrow> bytes" where
  "block_header_to_bytes e x =
     u32_to_ne e (bh_offset x) @ u32_to_ne e (bh_length x) @ u32_to_ne e (bh_unit_length x)"

definition block_header_from_bytes :: "endianness \<Rightarrow> bytes \<Rightarrow> block_header res" where
  "block_header_from_bytes e bs = (if length bs < 12 then Undefined else
     Ok \<lparr>bh_offset = u32_at e bs 0, bh_length = u32_at e bs 4, bh_unit_length = u32_at e bs 8\<rparr>)"

definition fixed_header_words :: "fixed_header \<Rightarrow> u32 list" where
  "fixed_header_words h = [dictionary_version h, encoding_table_offset h, encoding_table_length h,
     index_data_header_offset h, index_data_header_length h, index_data_offset h,
     index_data_length h, blocks_offset h, blocks_length h, dictionary_length h,
     header_encoding h]"

definition fixed_header_to_bytes :: "endianness \<Rightarrow> fixed_header \<Rightarrow> bytes" where
  "fixed_header_to_bytes e h = concat (map (u32_to_ne e) (fixed_header_words h)) @ sha1sum h"

definition fixed_header_from_bytes :: "endianness \<Rightarrow> bytes \<Rightarrow> fixed_header res" where
  "fixed_header_from_bytes e bs = (if length bs < 64 then Undefined else
     Ok \<lparr>dictionary_version = u32_at e bs 0,
         encoding_table_offset = u32_at e bs 4, encoding_table_length = u32_at e bs 8,
         index_data_header_offset = u32_at e bs 12, index_data_header_length = u32_at e bs 16,
         index_data_offset = u32_at e bs 20, index_data_length = u32_at e bs 24,
         blocks_offset = u32_at e bs 28, blocks_length = u32_at e bs 32,
         dictionary_length = u32_at e bs 36, header_encoding = u32_at e bs 40,
         sha1sum = slice bs 44 64\<rparr>)"

definition fixed_header_wf :: "fixed_header \<Rightarrow> bool" where
  "fixed_header_wf h \<longleftrightarrow> length (sha1sum h) = sha1sum_length"

lemma u32_at_numerals [simp]:
  "u32_at e (u32_to_ne e w @ bs) 4 = u32_at e bs 0"
  "u32_at e (u32_to_ne e w @ bs) 8 = u32_at e bs 4"
  "u32_at e (u32_to_ne e w @ bs) 12 = u32_at e bs 8"
  "u32_at e (u32_to_ne e w @ bs) 16 = u32_at e bs 12"
  "u32_at e (u32_to_ne e w @ bs) 20 = u32_at e bs 16"
  "u32_at e (u32_to_ne e w @ bs) 24 = u32_at e bs 20"
  "u32_at e (u32_to_ne e w @ bs) 28 = u32_at e bs 24"
  "u32_at e (u32_to_ne e w @ bs) 32 = u32_at e bs 28"
  "u32_at e (u32_to_ne e w @ bs) 36 = u32_at e bs 32"
  "u32_at e (u32_to_ne e w @ bs) 40 = u32_at e bs 36"
  by (simp_all add: u32_at_def slice_def)

interpretation heads_codec: byte_codec 12 "block_heads_to_bytes e" "block_heads_from_bytes e"
  block_heads_wf for e
  by unfold_locales
    (auto simp: block_heads_to_bytes_def block_heads_from_bytes_def block_heads_wf_def slice_def)

interpretation offset_codec: byte_codec 8 "offset_length_to_bytes e" "offset_length_from_bytes e"
  "\<lambda>_. True" for e
  by unfold_locales (auto simp: offset_length_to_bytes_def offset_length_from_bytes_def)

interpretation index_codec: byte_codec 8 "index_data_header_to_bytes e"
  "index_data_header_from_bytes e" "\<lambda>_. True" for e
  by unfold_locales (auto simp: index_data_header_to_bytes_def index_data_header_from_bytes_def)

interpretation block_codec: byte_codec 12 "block_header_to_bytes e" "block_header_from_bytes e"
  "\<lambda>_. True" for e
  by unfold_locales (auto simp: block_header_to_bytes_def block_header_from_bytes_def)

interpretation fixed_codec: byte_codec 64 "fixed_header_to_bytes e" "fixed_header_from_bytes e"
  fixed_header_wf for e
  by unfold_locales
    (auto simp: fixed_header_to_bytes_def fixed_header_from_bytes_def fixed_header_wf_def
      fixed_header_words_def sha1sum_length_def slice_def)

section \<open>The index in memory\<close>

record block_information =
  info_midashi :: bytes
  info_offset :: u32
  info_length :: u32

record on_memory =
  dictionary_fixed_header :: fixed_header
  index_map :: "dictionary_midashi_key \<rightharpoonup> block_information list"
  index_ascii_hiragana_vec :: "block_information list list"

definition on_memory_new :: on_memory where
  "on_memory_new = \<lparr>dictionary_fixed_header = fixed_header_new, index_map = Map.empty,
     index_ascii_hiragana_vec = []\<rparr>"

text \<open>A key is an array of four bytes, so the two reads are in range.\<close>

definition get_ascii_hiragana_vec_index :: "dictionary_midashi_key \<Rightarrow> nat option" where
  "get_ascii_hiragana_vec_index key =
     (if in_range 0x00 0x7f (key ! 0) then Some (unat (key ! 0))
      else if key ! 0 = 0xa4 then Some (unat (key ! 1))
      else None)"

lemma get_ascii_hiragana_vec_index_less:
  "get_ascii_hiragana_vec_index key = Some i \<Longrightarrow> i < index_ascii_hiragana_vec_length"
  using unsigned_less [where ?'a = nat and w = "key ! 0"] unsigned_less [where ?'a = nat and w = "key ! 1"]
  by (auto simp: get_ascii_hiragana_vec_index_def index_ascii_hiragana_vec_length_def
      split: if_splits)

end
