(* ===== verification/Encoding_Table.thy ===== *)
theory Encoding_Table
  imports Skk_Types
begin

text \<open>
  The conversion tables of \<open>src/skk/encoding_simple\<close>: the index functions of the two vectors
  (\<open>decoder.rs\<close>, \<open>encoder.rs\<close>), the tables themselves (the statics of \<open>encoding_simple.rs\<close>) as a
  record, \<open>EncodingTable::setup\<close> that fills them from the table bytes, and the conversions of code
  points and hex codes (\<open>encoding_table.rs\<close>). Lemmas: the indices are in range, where they collide
  and where they do not, and what \<open>setup\<close> stores for each entry.
\<close>

section \<open>Vector indices\<close>

definition euc_2_to_utf8_vec_index_maximum :: nat where
  "euc_2_to_utf8_vec_index_maximum = 0x5d70"

definition euc_2_to_utf8_vec_index_empty :: nat where
  "euc_2_to_utf8_vec_index_empty = 1"

definition get_euc_2_to_utf8_vec_index :: "u8 \<Rightarrow> u8 \<Rightarrow> nat" where
  "get_euc_2_to_utf8_vec_index high low =
     (if low < 0xa1 \<or> high < 0x8e then euc_2_to_utf8_vec_index_empty
      else
        let high' = high - 0x8e;
            low' = low - 0xa1;
            result = push_bit 8 (unat low') OR unat high'
        in if result > euc_2_to_utf8_vec_index_maximum then euc_2_to_utf8_vec_index_empty
           else result)"

definition utf8_3_to_euc_vec_index_raw_minimum :: nat where
  "utf8_3_to_euc_vec_index_raw_minimum = 0x1e3e"

definition utf8_3_to_euc_vec_index_maximum :: nat where
  "utf8_3_to_euc_vec_index_maximum =
     0xff9f - utf8_3_to_euc_vec_index_raw_minimum - (0xdade - 0x8165)"

definition utf8_3_to_euc_vec_index_empty :: nat where
  "utf8_3_to_euc_vec_index_empty = 2"

definition get_utf8_3_to_euc_vec_index :: "bytes \<Rightarrow> nat" where
  "get_utf8_3_to_euc_vec_index utf8 =
     (if utf8 ! 0 < 0xe0 \<or> utf8 ! 1 < 0x80 \<or> utf8 ! 2 < 0x80 then utf8_3_to_euc_vec_index_empty
      else
        let utf8_a = unat (utf8 ! 0 - 0xe0);
            utf8_b = unat (utf8 ! 1 - 0x80);
            utf8_c = unat (utf8 ! 2 - 0x80);
            raw = push_bit 12 utf8_a OR push_bit 6 utf8_b OR utf8_c;
            raw_index = (if raw > 0xdade then raw - (0xdade - 0x8165) else raw)
        in if raw_index < utf8_3_to_euc_vec_index_raw_minimum then utf8_3_to_euc_vec_index_empty
           else
             let result = raw_index - utf8_3_to_euc_vec_index_raw_minimum
             in if result > utf8_3_to_euc_vec_index_maximum then utf8_3_to_euc_vec_index_empty
                else result)"

lemma get_euc_2_to_utf8_vec_index_bound:
  "get_euc_2_to_utf8_vec_index high low < Suc euc_2_to_utf8_vec_index_maximum"
  by (auto simp: get_euc_2_to_utf8_vec_index_def Let_def euc_2_to_utf8_vec_index_maximum_def
      euc_2_to_utf8_vec_index_empty_def)

lemma get_utf8_3_to_euc_vec_index_bound:
  "get_utf8_3_to_euc_vec_index utf8 < Suc utf8_3_to_euc_vec_index_maximum"
  by (auto simp: get_utf8_3_to_euc_vec_index_def Let_def utf8_3_to_euc_vec_index_maximum_def
      utf8_3_to_euc_vec_index_empty_def utf8_3_to_euc_vec_index_raw_minimum_def)

lemma nat_or_is_add:
  fixes a b :: nat
  assumes "b < 2 ^ n"
  shows "push_bit n a OR b = a * 2 ^ n + b"
proof -
  have "push_bit n a OR b = push_bit n a + b"
  proof (rule disjunctive_add_eq_or [symmetric], rule bit_eqI)
    fix k
    show "bit (push_bit n a AND b) k = bit 0 k"
    proof (cases "k < n")
      case False
      then have "b < 2 ^ k"
        using assms by (meson le_less_trans less_le_trans not_less power_increasing_iff
            one_less_numeral_iff semiring_norm(76))
      then have "\<not> bit b k" by (simp add: bit_nat_def)
      then show ?thesis by (simp add: bit_simps)
    qed (simp add: bit_simps)
  qed
  then show ?thesis by (simp add: push_bit_eq_mult)
qed

text \<open>Two-byte codes in the EUC range have an index of their own.\<close>

definition euc_2_code :: "u8 \<Rightarrow> u8 \<Rightarrow> bool" where
  "euc_2_code high low \<longleftrightarrow> (high = 0x8e \<or> in_range 0xa1 0xfe high) \<and> in_range 0xa1 0xfe low"

lemma euc_2_index_value:
  "euc_2_code h l \<Longrightarrow>
   get_euc_2_to_utf8_vec_index h l = (unat l - 0xa1) * 256 + (unat h - 0x8e)"
proof -
  assume a: "euc_2_code h l"
  then have l: "0xa1 \<le> unat l" "unat l \<le> 0xfe" and h: "0x8e \<le> unat h" "unat h \<le> 0xfe"
    by (auto simp: euc_2_code_def in_range_def word_le_nat_alt)
  then have u: "unat (l - 0xa1) = unat l - 0xa1" "unat (h - 0x8e) = unat h - 0x8e"
    by (simp_all add: unat_sub word_le_nat_alt)
  have lt: "unat h - 0x8e < 2 ^ 8" using h by simp
  have "push_bit 8 (unat l - 0xa1) OR (unat h - 0x8e) = (unat l - 0xa1) * 256 + (unat h - 0x8e)"
    using nat_or_is_add [OF lt, of "unat l - 0xa1"] by simp
  moreover have "(unat l - 0xa1) * 256 + (unat h - 0x8e) \<le> 0x5d70"
    using l h by (simp add: diff_le_mono)
  moreover have "\<not> l < 0xa1" "\<not> h < 0x8e" using l h by (simp_all add: word_less_nat_alt)
  ultimately show ?thesis
    by (simp add: get_euc_2_to_utf8_vec_index_def Let_def u euc_2_to_utf8_vec_index_maximum_def)
qed

lemma digits_inj:
  fixes a b a' b' :: nat
  assumes eq: "a * n + b = a' * n + b'" and lt: "b < n" "b' < n"
  shows "a = a' \<and> b = b'"
proof
  show "b = b'" using arg_cong [OF eq, of "\<lambda>k. k mod n"] lt by simp
  show "a = a'" using arg_cong [OF eq, of "\<lambda>k. k div n"] lt by simp
qed

lemma euc_2_index_inj:
  assumes "euc_2_code h l" "euc_2_code h' l'"
    and "get_euc_2_to_utf8_vec_index h l = get_euc_2_to_utf8_vec_index h' l'"
  shows "h = h' \<and> l = l'"
proof -
  have r: "0xa1 \<le> unat l" "0xa1 \<le> unat l'" "0x8e \<le> unat h" "unat h \<le> 0xfe"
      "0x8e \<le> unat h'" "unat h' \<le> 0xfe"
    using assms(1,2) by (auto simp: euc_2_code_def in_range_def word_le_nat_alt)
  have eq: "(unat l - 0xa1) * 256 + (unat h - 0x8e) = (unat l' - 0xa1) * 256 + (unat h' - 0x8e)"
    using assms by (simp add: euc_2_index_value)
  have "unat l - 0xa1 = unat l' - 0xa1 \<and> unat h - 0x8e = unat h' - 0x8e"
    using r by (intro digits_inj [OF eq]) simp_all
  then have "unat l = unat l'" "unat h = unat h'" using r by arith+
  then show ?thesis by (simp add: word_unat_eq_iff)
qed

text \<open>
  The code point of a three-byte UTF-8 sequence. The index function is one-to-one below and above
  the fold at \<open>0xdade\<close>, and folds \<open>0xdadf..0xff9f\<close> onto \<open>0x8166..0xa626\<close>.
\<close>

definition utf8_3_shape :: "bytes \<Rightarrow> bool" where
  "utf8_3_shape u \<longleftrightarrow> length u \<ge> 3 \<and> in_range 0xe0 0xef (u ! 0) \<and> in_range 0x80 0xbf (u ! 1)
     \<and> in_range 0x80 0xbf (u ! 2)"

definition utf8_3_code_point :: "bytes \<Rightarrow> nat" where
  "utf8_3_code_point u =
     (unat (u ! 0) - 0xe0) * 4096 + (unat (u ! 1) - 0x80) * 64 + (unat (u ! 2) - 0x80)"

definition fold_code_point :: "nat \<Rightarrow> nat" where
  "fold_code_point c = (if c > 0xdade then c - 0x5979 else c)"

lemma utf8_3_index_value:
  assumes "utf8_3_shape u"
  shows "get_utf8_3_to_euc_vec_index u =
    (let c = fold_code_point (utf8_3_code_point u)
     in if c < 0x1e3e \<or> c > 0xa626 then 2 else c - 0x1e3e)"
proof -
  define a b c where "a = unat (u ! 0)" and "b = unat (u ! 1)" and "c = unat (u ! 2)"
  have r: "0xe0 \<le> a" "a \<le> 0xef" "0x80 \<le> b" "b \<le> 0xbf" "0x80 \<le> c" "c \<le> 0xbf"
    using assms by (auto simp: utf8_3_shape_def in_range_def word_le_nat_alt a_def b_def c_def)
  then have u: "unat (u ! 0 - 0xe0) = a - 0xe0" "unat (u ! 1 - 0x80) = b - 0x80"
      "unat (u ! 2 - 0x80) = c - 0x80"
    by (simp_all add: unat_sub word_le_nat_alt a_def b_def c_def)
  have lo: "push_bit 6 (b - 0x80) OR (c - 0x80) = (b - 0x80) * 64 + (c - 0x80)"
    using nat_or_is_add [of "c - 0x80" 6 "b - 0x80"] r by simp
  have "(b - 0x80) * 64 + (c - 0x80) < 2 ^ 12" using r by simp
  have cp: "utf8_3_code_point u = (a - 0xe0) * 2 ^ 12 + ((b - 0x80) * 64 + (c - 0x80))"
    by (simp add: utf8_3_code_point_def a_def b_def c_def)
  have raw: "push_bit 12 (a - 0xe0) OR push_bit 6 (b - 0x80) OR (c - 0x80) = utf8_3_code_point u"
    unfolding lo cp by (rule nat_or_is_add) fact
  have ge: "\<not> u ! 0 < 0xe0" "\<not> u ! 1 < 0x80" "\<not> u ! 2 < 0x80"
    using r by (simp_all add: word_less_nat_alt a_def b_def c_def)
  show ?thesis
    unfolding get_utf8_3_to_euc_vec_index_def
    by (simp add: ge u raw Let_def fold_code_point_def utf8_3_to_euc_vec_index_raw_minimum_def
        utf8_3_to_euc_vec_index_maximum_def utf8_3_to_euc_vec_index_empty_def del: One_nat_def,
      arith)
qed

lemma take_three: "length xs \<ge> 3 \<Longrightarrow> take 3 xs = [xs ! 0, xs ! 1, xs ! 2]"
  by (rule nth_equalityI) (auto simp: less_Suc_eq numeral_eq_Suc)

lemma utf8_3_code_point_inj:
  assumes "utf8_3_shape u" "utf8_3_shape v" "utf8_3_code_point u = utf8_3_code_point v"
  shows "take 3 u = take 3 v"
proof -
  define a b c where "a = unat (u ! 0)" and "b = unat (u ! 1)" and "c = unat (u ! 2)"
  define a' b' c' where "a' = unat (v ! 0)" and "b' = unat (v ! 1)" and "c' = unat (v ! 2)"
  have r: "0xe0 \<le> a" "0x80 \<le> b" "b \<le> 0xbf" "0x80 \<le> c" "c \<le> 0xbf"
    "0xe0 \<le> a'" "0x80 \<le> b'" "b' \<le> 0xbf" "0x80 \<le> c'" "c' \<le> 0xbf"
    using assms(1,2)
    by (auto simp: utf8_3_shape_def in_range_def word_le_nat_alt a_def b_def c_def a'_def b'_def c'_def)
  have "((a - 0xe0) * 64 + (b - 0x80)) * 64 + (c - 0x80)
      = ((a' - 0xe0) * 64 + (b' - 0x80)) * 64 + (c' - 0x80)"
    using assms(3)
    by (simp add: utf8_3_code_point_def add_mult_distrib a_def b_def c_def a'_def b'_def c'_def)
  from digits_inj [OF this] r
  have "(a - 0xe0) * 64 + (b - 0x80) = (a' - 0xe0) * 64 + (b' - 0x80) \<and> c - 0x80 = c' - 0x80"
    by simp
  moreover from this digits_inj [of "a - 0xe0" 64 "b - 0x80" "a' - 0xe0" "b' - 0x80"] r
  have "a - 0xe0 = a' - 0xe0 \<and> b - 0x80 = b' - 0x80" by simp
  ultimately have "a = a' \<and> b = b' \<and> c = c'" using r by (simp add: eq_diff_iff)
  then have eq: "u ! 0 = v ! 0" "u ! 1 = v ! 1" "u ! 2 = v ! 2"
    by (simp_all add: word_unat_eq_iff a_def b_def c_def a'_def b'_def c'_def)
  have "length u \<ge> 3" "length v \<ge> 3" using assms(1,2) by (simp_all add: utf8_3_shape_def)
  with eq show ?thesis by (simp add: take_three)
qed


section \<open>The tables and their setup\<close>

text \<open>
  The statics of \<open>encoding_simple.rs\<close>. Arrays \<open>[u8; n]\<close> are byte lists whose length the well-formedness
  predicate below fixes. Poisoning of the \<open>RwLock\<close>s (a panic of another thread) is not modelled.
\<close>

record tables =
  euc_2_to_utf8_vec :: "bytes list"
  utf8_3_to_euc_vec :: "bytes list"
  euc_3_to_utf8_map :: "bytes \<rightharpoonup> bytes"
  utf8_2_4_to_euc_map :: "bytes \<rightharpoonup> bytes"
  combine_euc_to_utf8_map :: "bytes \<rightharpoonup> bytes"
  combine_utf8_4_to_euc_map :: "bytes \<rightharpoonup> bytes"
  combine_utf8_6_to_euc_map :: "bytes \<rightharpoonup> bytes"

definition tables_new :: tables where
  "tables_new = \<lparr>euc_2_to_utf8_vec = [], utf8_3_to_euc_vec = [],
     euc_3_to_utf8_map = Map.empty, utf8_2_4_to_euc_map = Map.empty,
     combine_euc_to_utf8_map = Map.empty, combine_utf8_4_to_euc_map = Map.empty,
     combine_utf8_6_to_euc_map = Map.empty\<rparr>"

definition setup_combine_entry :: "bytes \<Rightarrow> bytes \<Rightarrow> tables \<Rightarrow> tables res" where
  "setup_combine_entry euc_3 utf8_value t =
     (let t' = t\<lparr>combine_euc_to_utf8_map := (combine_euc_to_utf8_map t)(euc_3 \<mapsto> utf8_value)\<rparr>
      in if in_range 0xc2 0xdf (utf8_value ! 0) then
           let key = [utf8_value ! 0, utf8_value ! 1, utf8_value ! 4, utf8_value ! 5]
           in Ok (t'\<lparr>combine_utf8_4_to_euc_map := (combine_utf8_4_to_euc_map t')(key \<mapsto> euc_3)\<rparr>)
         else if in_range 0xe0 0xef (utf8_value ! 0) then
           let key = [utf8_value ! 0, utf8_value ! 1, utf8_value ! 2,
                      utf8_value ! 4, utf8_value ! 5, utf8_value ! 6]
           in Ok (t'\<lparr>combine_utf8_6_to_euc_map := (combine_utf8_6_to_euc_map t')(key \<mapsto> euc_3)\<rparr>)
         else Err EncodingError)"

fun setup_combine_map :: "bytes \<Rightarrow> nat \<Rightarrow> nat \<Rightarrow> nat \<Rightarrow> tables \<Rightarrow> tables res" where
  "setup_combine_map encoding_table unit_length offset 0 t = Ok t"
| "setup_combine_map encoding_table unit_length offset (Suc n) t =
     and_then (slice_res encoding_table offset (offset + 3)) (\<lambda>euc_3.
     and_then (slice_res encoding_table (offset + 3) (offset + (3 + 8))) (\<lambda>utf8_value.
     and_then (setup_combine_entry euc_3 utf8_value t) (\<lambda>t'.
     setup_combine_map encoding_table unit_length (offset + unit_length) n t')))"

definition setup_map_entry :: "bytes \<Rightarrow> bytes \<Rightarrow> tables \<Rightarrow> tables" where
  "setup_map_entry euc_3 utf8 t =
     (let t' =
        (if euc_3 ! 0 = 0x8f then
           t\<lparr>euc_3_to_utf8_map := (euc_3_to_utf8_map t)(euc_3 \<mapsto> utf8)\<rparr>
         else if euc_3 ! 0 = 0x8e \<or> in_range 0xa0 0xff (euc_3 ! 0) then
           t\<lparr>euc_2_to_utf8_vec := (euc_2_to_utf8_vec t)
               [get_euc_2_to_utf8_vec_index (euc_3 ! 0) (euc_3 ! 1) := utf8]\<rparr>
         else t)
      in if in_range 0x00 0x7f (utf8 ! 0) then t'
         else if in_range 0xe0 0xef (utf8 ! 0) then
           t'\<lparr>utf8_3_to_euc_vec := (utf8_3_to_euc_vec t')
               [get_utf8_3_to_euc_vec_index utf8 := euc_3]\<rparr>
         else t'\<lparr>utf8_2_4_to_euc_map := (utf8_2_4_to_euc_map t')(utf8 \<mapsto> euc_3)\<rparr>)"

fun setup_map_loop :: "bytes \<Rightarrow> nat \<Rightarrow> nat \<Rightarrow> nat \<Rightarrow> tables \<Rightarrow> tables res" where
  "setup_map_loop encoding_table unit_length offset 0 t = Ok t"
| "setup_map_loop encoding_table unit_length offset (Suc n) t =
     and_then (slice_res encoding_table offset (offset + 3)) (\<lambda>euc_3.
     and_then (slice_res encoding_table (offset + 3) (offset + 7)) (\<lambda>utf8.
     setup_map_loop encoding_table unit_length (offset + unit_length) n
       (setup_map_entry euc_3 utf8 t)))"

definition fresh_vecs :: "tables \<Rightarrow> tables" where
  "fresh_vecs t = t\<lparr>
     euc_2_to_utf8_vec := replicate (euc_2_to_utf8_vec_index_maximum + 1) [0, 0, 0, 0],
     utf8_3_to_euc_vec := replicate (utf8_3_to_euc_vec_index_maximum + 1) [0, 0, 0]\<rparr>"

text \<open>
  The code builds the two vectors in local variables and stores them when the loop is over; here
  they are built in place, which no caller can tell apart, as a panic in the loop ends the program.
\<close>

definition setup_map :: "bytes \<Rightarrow> nat \<Rightarrow> nat \<Rightarrow> nat \<Rightarrow> nat \<Rightarrow> nat \<Rightarrow> tables \<Rightarrow> tables res" where
  "setup_map encoding_table euc_utf8_unit_length euc_utf8_combine_unit_length header_length
       header_euc_utf8_length header_euc_utf8_combine_length t =
     setup_map_loop encoding_table euc_utf8_unit_length
       (header_length + header_euc_utf8_combine_length * euc_utf8_combine_unit_length)
       header_euc_utf8_length (fresh_vecs t)"

definition euc_utf8_combine_unit_length :: nat where "euc_utf8_combine_unit_length = 3 + 8"
definition euc_utf8_unit_length :: nat where "euc_utf8_unit_length = 3 + 4"

definition encoding_table_setup :: "endianness \<Rightarrow> bytes \<Rightarrow> tables \<Rightarrow> tables res" where
  "encoding_table_setup e encoding_table t =
     and_then (slice_res encoding_table 4 8) (\<lambda>a.
     and_then (slice_res encoding_table 8 12) (\<lambda>b.
     and_then (slice_res encoding_table 12 16) (\<lambda>c.
     let header_length = unat (u32_from_ne e a);
         combine_length = unat (u32_from_ne e b);
         euc_utf8_length = unat (u32_from_ne e c)
     in and_then (setup_combine_map encoding_table euc_utf8_combine_unit_length header_length
            combine_length t) (\<lambda>t'.
        setup_map encoding_table euc_utf8_unit_length euc_utf8_combine_unit_length
          header_length euc_utf8_length combine_length t'))))"

text \<open>\<open>once_init_encoding_table\<close>: the statics are \<open>None\<close> until the first call sets them up.\<close>

definition once_init_encoding_table ::
    "endianness \<Rightarrow> bytes \<Rightarrow> tables option \<Rightarrow> tables option res" where
  "once_init_encoding_table e encoding_table once =
     (case once of
        Some t \<Rightarrow> Ok (Some t)
      | None \<Rightarrow> (case encoding_table_setup e encoding_table tables_new of
                   Ok t \<Rightarrow> Ok (Some t)
                 | Undefined \<Rightarrow> Undefined
                 | Diverge \<Rightarrow> Diverge
                 | _ \<Rightarrow> Panic))"

section \<open>What setup stores\<close>

text \<open>A table file: the header, the combining entries and the plain entries.\<close>

type_synonym table_entries = "(bytes \<times> bytes) list"

definition entry_bytes :: "bytes \<times> bytes \<Rightarrow> bytes" where
  "entry_bytes p = fst p @ snd p"

definition table_bytes :: "endianness \<Rightarrow> table_entries \<Rightarrow> table_entries \<Rightarrow> bytes" where
  "table_bytes e cs ps = u32_to_ne e 1 @ u32_to_ne e 32 @ u32_to_ne e (of_nat (length cs))
     @ u32_to_ne e (of_nat (length ps)) @ replicate 16 0
     @ concat (map entry_bytes cs) @ concat (map entry_bytes ps)"

definition sized_entries :: "nat \<Rightarrow> table_entries \<Rightarrow> bool" where
  "sized_entries n es \<longleftrightarrow> list_all (\<lambda>p. length (fst p) = 3 \<and> length (snd p) = n) es"

definition combine_lead_ok :: "bytes \<times> bytes \<Rightarrow> bool" where
  "combine_lead_ok p \<longleftrightarrow> in_range 0xc2 0xdf (snd p ! 0) \<or> in_range 0xe0 0xef (snd p ! 0)"

definition store_combine :: "bytes \<times> bytes \<Rightarrow> tables \<Rightarrow> tables" where
  "store_combine p t = the_ok (setup_combine_entry (fst p) (snd p) t)"

definition store_plain :: "bytes \<times> bytes \<Rightarrow> tables \<Rightarrow> tables" where
  "store_plain p t = setup_map_entry (fst p) (snd p) t"

definition tables_for :: "table_entries \<Rightarrow> table_entries \<Rightarrow> tables" where
  "tables_for cs ps = fold store_plain ps (fresh_vecs (fold store_combine cs tables_new))"

lemma setup_combine_entry_ok:
  "combine_lead_ok p \<Longrightarrow> setup_combine_entry (fst p) (snd p) t = Ok (store_combine p t)"
  by (auto simp: combine_lead_ok_def store_combine_def setup_combine_entry_def Let_def)

lemma entry_slices:
  assumes "length a = 3" "length b = n" "offset = length xs"
  shows "slice_res (xs @ a @ b @ ys) offset (offset + 3) = Ok a"
    and "slice_res (xs @ a @ b @ ys) (offset + 3) (offset + (3 + n)) = Ok b"
proof -
  have "slice (xs @ a @ b @ ys) offset (offset + 3) = a"
    using assms by (intro slice_eq_middle) simp_all
  with assms show "slice_res (xs @ a @ b @ ys) offset (offset + 3) = Ok a"
    by (simp add: slice_res_def)
  have "slice ((xs @ a) @ b @ ys) (offset + 3) (offset + (3 + n)) = b"
    using assms by (intro slice_eq_middle) simp_all
  with assms show "slice_res (xs @ a @ b @ ys) (offset + 3) (offset + (3 + n)) = Ok b"
    by (simp add: slice_res_def)
qed

lemma setup_combine_map_entries:
  assumes "sized_entries 8 cs" and "list_all combine_lead_ok cs" and "offset = length xs"
  shows "setup_combine_map (xs @ concat (map entry_bytes cs) @ ys) 11 offset (length cs) t
    = Ok (fold store_combine cs t)"
  using assms
proof (induction cs arbitrary: xs offset t)
  case (Cons p cs)
  have eq: "xs @ concat (map entry_bytes (p # cs)) @ ys
      = (xs @ fst p @ snd p) @ concat (map entry_bytes cs) @ ys"
    by (simp add: entry_bytes_def)
  have IH: "setup_combine_map ((xs @ fst p @ snd p) @ concat (map entry_bytes cs) @ ys) 11
      (offset + 11) (length cs) (store_combine p t) = Ok (fold store_combine cs (store_combine p t))"
    using Cons.prems by (intro Cons.IH) (simp_all add: sized_entries_def)
  have "length (fst p) = 3" "length (snd p) = 8" "combine_lead_ok p"
    using Cons.prems by (simp_all add: sized_entries_def)
  with IH Cons.prems(3) show ?case
    using entry_slices [of "fst p" "snd p" 8 offset xs "concat (map entry_bytes cs) @ ys"]
    by (simp only: eq) (simp add: setup_combine_entry_ok)
qed simp

lemma setup_map_loop_entries:
  assumes "sized_entries 4 ps" and "offset = length xs"
  shows "setup_map_loop (xs @ concat (map entry_bytes ps) @ ys) 7 offset (length ps) t
    = Ok (fold store_plain ps t)"
  using assms
proof (induction ps arbitrary: xs offset t)
  case (Cons p ps)
  have eq: "xs @ concat (map entry_bytes (p # ps)) @ ys
      = (xs @ fst p @ snd p) @ concat (map entry_bytes ps) @ ys"
    by (simp add: entry_bytes_def)
  have IH: "setup_map_loop ((xs @ fst p @ snd p) @ concat (map entry_bytes ps) @ ys) 7
      (offset + 7) (length ps) (store_plain p t) = Ok (fold store_plain ps (store_plain p t))"
    using Cons.prems by (intro Cons.IH) (simp_all add: sized_entries_def)
  have "length (fst p) = 3" "length (snd p) = 4"
    using Cons.prems by (simp_all add: sized_entries_def)
  with IH Cons.prems(2) show ?case
    using entry_slices [of "fst p" "snd p" 4 offset xs "concat (map entry_bytes ps) @ ys"]
    by (simp only: eq) (simp add: store_plain_def [of p])
qed simp

lemma length_entries:
  "sized_entries n es \<Longrightarrow> length (concat (map entry_bytes es)) = length es * (3 + n)"
  by (induction es) (simp_all add: sized_entries_def entry_bytes_def)

lemma setup_table_bytes:
  assumes "sized_entries 8 cs" "list_all combine_lead_ok cs" "sized_entries 4 ps"
    and "length cs < 2 ^ 32" "length ps < 2 ^ 32"
  shows "encoding_table_setup e (table_bytes e cs ps @ rest) tables_new = Ok (tables_for cs ps)"
proof -
  define h where "h = u32_to_ne e 1 @ u32_to_ne e 32 @ u32_to_ne e (of_nat (length cs))
     @ u32_to_ne e (of_nat (length ps)) @ replicate 16 0"
  define table where "table = table_bytes e cs ps @ rest"
  have table: "table = h @ concat (map entry_bytes cs) @ concat (map entry_bytes ps) @ rest"
    by (simp add: table_def table_bytes_def h_def)
  have table': "table = (h @ concat (map entry_bytes cs)) @ concat (map entry_bytes ps) @ rest"
    by (simp add: table)
  have lh: "length h = 32" by (simp add: h_def)
  have sl: "slice_res table 4 8 = Ok (u32_to_ne e 32)"
      "slice_res table 8 12 = Ok (u32_to_ne e (of_nat (length cs)))"
      "slice_res table 12 16 = Ok (u32_to_ne e (of_nat (length ps)))"
    by (simp_all add: slice_res_def slice_def table h_def)
  have n: "unat (of_nat (length cs) :: u32) = length cs" "unat (of_nat (length ps) :: u32) = length ps"
    using assms(4,5) by (simp_all add: unsigned_of_nat take_bit_nat_eq_self)
  have c: "setup_combine_map table 11 32 (length cs) tables_new = Ok (fold store_combine cs tables_new)"
    unfolding table using assms(1,2) lh by (intro setup_combine_map_entries) simp_all
  have p: "setup_map_loop table 7 (32 + length cs * 11) (length ps) t = Ok (fold store_plain ps t)" for t
    unfolding table' using assms(1,3) lh
    by (intro setup_map_loop_entries) (simp_all add: length_entries)
  show ?thesis
    unfolding table_def [symmetric]
    by (simp add: encoding_table_setup_def sl n c p setup_map_def tables_for_def euc_utf8_unit_length_def
        euc_utf8_combine_unit_length_def)
qed

text \<open>Whatever the table, setup ends with tables of the right shape.\<close>

definition sized_map :: "nat \<Rightarrow> nat \<Rightarrow> (bytes \<rightharpoonup> bytes) \<Rightarrow> bool" where
  "sized_map k v m \<longleftrightarrow> (\<forall>x y. m x = Some y \<longrightarrow> length x = k \<and> length y = v)"

definition maps_wf :: "tables \<Rightarrow> bool" where
  "maps_wf t \<longleftrightarrow> sized_map 3 4 (euc_3_to_utf8_map t) \<and> sized_map 4 3 (utf8_2_4_to_euc_map t)
     \<and> sized_map 3 8 (combine_euc_to_utf8_map t) \<and> sized_map 4 3 (combine_utf8_4_to_euc_map t)
     \<and> sized_map 6 3 (combine_utf8_6_to_euc_map t)"

definition tables_wf :: "tables \<Rightarrow> bool" where
  "tables_wf t \<longleftrightarrow> maps_wf t
     \<and> length (euc_2_to_utf8_vec t) = Suc euc_2_to_utf8_vec_index_maximum
     \<and> (\<forall>v \<in> set (euc_2_to_utf8_vec t). length v = 4)
     \<and> length (utf8_3_to_euc_vec t) = Suc utf8_3_to_euc_vec_index_maximum
     \<and> (\<forall>v \<in> set (utf8_3_to_euc_vec t). length v = 3)"

lemma sized_map_empty [simp]: "sized_map k v Map.empty"
  by (simp add: sized_map_def)

lemma sized_map_upd [simp]:
  "sized_map k v m \<Longrightarrow> length x = k \<Longrightarrow> length y = v \<Longrightarrow> sized_map k v (m(x \<mapsto> y))"
  by (simp add: sized_map_def)

lemma setup_combine_entry_maps_wf:
  "maps_wf t \<Longrightarrow> length a = 3 \<Longrightarrow> length b = 8 \<Longrightarrow> setup_combine_entry a b t = Ok t' \<Longrightarrow> maps_wf t'"
  by (auto simp: setup_combine_entry_def maps_wf_def Let_def split: if_splits)

lemma setup_combine_map_maps_wf:
  "setup_combine_map table n offset k t = Ok t' \<Longrightarrow> maps_wf t \<Longrightarrow> maps_wf t'"
proof (induction table n offset k t rule: setup_combine_map.induct)
  case (2 table n offset k t)
  from "2.prems"(1) obtain a b u where r:
      "slice_res table offset (offset + 3) = Ok a"
      "slice_res table (offset + 3) (offset + (3 + 8)) = Ok b"
      "setup_combine_entry a b t = Ok u" "setup_combine_map table n (offset + n) k u = Ok t'"
    by (auto simp: and_then_eq_Ok)
  then have "length a = 3" "length b = 8" by (auto simp: slice_res_def split: if_splits)
  with r(3) have "maps_wf u" using setup_combine_entry_maps_wf [OF "2.prems"(2)] by blast
  with "2.IH" r show ?case by blast
qed simp

lemma all_list_update: "\<forall>v \<in> set xs. P v \<Longrightarrow> P y \<Longrightarrow> \<forall>v \<in> set (xs[i := y]). P v"
  using set_update_subset_insert by fastforce

lemma tables_wf_upd:
  assumes t: "tables_wf t"
  shows "length a = 3 \<Longrightarrow> length b = 4 \<Longrightarrow>
      tables_wf (t\<lparr>euc_3_to_utf8_map := (euc_3_to_utf8_map t)(a \<mapsto> b)\<rparr>)"
    and "length b = 4 \<Longrightarrow> tables_wf (t\<lparr>euc_2_to_utf8_vec := (euc_2_to_utf8_vec t)[i := b]\<rparr>)"
    and "length a = 3 \<Longrightarrow> tables_wf (t\<lparr>utf8_3_to_euc_vec := (utf8_3_to_euc_vec t)[i := a]\<rparr>)"
    and "length a = 3 \<Longrightarrow> length b = 4 \<Longrightarrow>
      tables_wf (t\<lparr>utf8_2_4_to_euc_map := (utf8_2_4_to_euc_map t)(b \<mapsto> a)\<rparr>)"
proof -
  have v2: "\<forall>v \<in> set (euc_2_to_utf8_vec t). length v = 4"
    and v3: "\<forall>v \<in> set (utf8_3_to_euc_vec t). length v = 3"
    using t by (simp_all add: tables_wf_def)
  show "length b = 4 \<Longrightarrow> tables_wf (t\<lparr>euc_2_to_utf8_vec := (euc_2_to_utf8_vec t)[i := b]\<rparr>)"
    using t all_list_update [OF v2, of b i] by (simp add: tables_wf_def maps_wf_def)
  show "length a = 3 \<Longrightarrow> tables_wf (t\<lparr>utf8_3_to_euc_vec := (utf8_3_to_euc_vec t)[i := a]\<rparr>)"
    using t all_list_update [OF v3, of a i] by (simp add: tables_wf_def maps_wf_def)
qed (use t in \<open>simp_all add: tables_wf_def maps_wf_def\<close>)

lemma setup_map_entry_wf:
  "tables_wf t \<Longrightarrow> length a = 3 \<Longrightarrow> length b = 4 \<Longrightarrow> tables_wf (setup_map_entry a b t)"
  unfolding setup_map_entry_def Let_def by (simp add: tables_wf_upd)

lemma setup_map_loop_wf:
  "setup_map_loop table n offset k t = Ok t' \<Longrightarrow> tables_wf t \<Longrightarrow> tables_wf t'"
proof (induction table n offset k t rule: setup_map_loop.induct)
  case (2 table n offset k t)
  from "2.prems"(1) obtain a b where r:
      "slice_res table offset (offset + 3) = Ok a"
      "slice_res table (offset + 3) (offset + 7) = Ok b"
      "setup_map_loop table n (offset + n) k (setup_map_entry a b t) = Ok t'"
    by (auto simp: and_then_eq_Ok)
  then have "length a = 3" "length b = 4" by (auto simp: slice_res_def split: if_splits)
  with "2.IH" r show ?case using setup_map_entry_wf [OF "2.prems"(2)] by blast
qed simp

lemma fresh_vecs_wf: "maps_wf t \<Longrightarrow> tables_wf (fresh_vecs t)"
  by (simp add: fresh_vecs_def tables_wf_def maps_wf_def del: replicate_Suc)

lemma setup_tables_wf:
  assumes "encoding_table_setup e table tables_new = Ok t"
  shows "tables_wf t"
proof -
  have "maps_wf tables_new" by (simp add: maps_wf_def tables_new_def)
  then show ?thesis
    using assms
    by (auto simp: encoding_table_setup_def setup_map_def and_then_eq_Ok Let_def
        dest!: setup_combine_map_maps_wf intro: setup_map_loop_wf fresh_vecs_wf)
qed

end
