(* ===== verification/Std_Text.thy ===== *)
theory Std_Text
  imports Prelude
begin

text \<open>
  What the code uses of the standard library's strings: UTF-8 validity (\<open>String::from_utf8\<close>,
  \<open>read_line\<close>), slices of a \<open>str\<close> with their boundary check, integers read from text in a radix,
  integers written in decimal, trimming of ASCII space and lines kept with their newline. Strings
  are the byte lists that encode them.
\<close>

section \<open>UTF-8\<close>

abbreviation cont :: "u8 \<Rightarrow> bool" where "cont \<equiv> in_range 0x80 0xbf"

text \<open>Length of the well-formed character at the front; \<open>0\<close> when there is none.\<close>

definition utf8_char_len :: "bytes \<Rightarrow> nat" where
  "utf8_char_len bs =
     (let b = (\<lambda>i. bs ! i) in
      if bs = [] then 0
      else if b 0 \<le> 0x7f then 1
      else if in_range 0xc2 0xdf (b 0) then (if 2 \<le> length bs \<and> cont (b 1) then 2 else 0)
      else if in_range 0xe0 0xef (b 0) then
        (if 3 \<le> length bs \<and> cont (b 1) \<and> cont (b 2) \<and> (b 0 = 0xe0 \<longrightarrow> 0xa0 \<le> b 1)
            \<and> (b 0 = 0xed \<longrightarrow> b 1 \<le> 0x9f) then 3 else 0)
      else if in_range 0xf0 0xf4 (b 0) then
        (if 4 \<le> length bs \<and> cont (b 1) \<and> cont (b 2) \<and> cont (b 3)
            \<and> (b 0 = 0xf0 \<longrightarrow> 0x90 \<le> b 1) \<and> (b 0 = 0xf4 \<longrightarrow> b 1 \<le> 0x8f) then 4 else 0)
      else 0)"

function utf8_valid :: "bytes \<Rightarrow> bool" where
  "utf8_valid bs = (if bs = [] then True
     else if utf8_char_len bs = 0 then False
     else utf8_valid (drop (utf8_char_len bs) bs))"
  by pat_completeness auto
termination by (relation "measure length") auto

declare utf8_valid.simps [simp del]

lemma utf8_valid_Nil [simp]: "utf8_valid []"
  by (simp add: utf8_valid.simps)

lemma utf8_valid_ascii: "b \<le> 0x7f \<Longrightarrow> utf8_valid (b # bs) = utf8_valid bs"
  by (subst utf8_valid.simps) (simp add: utf8_char_len_def Let_def)

definition string_from_utf8 :: "bytes \<Rightarrow> bytes res" where
  "string_from_utf8 bs = (if utf8_valid bs then Ok bs else Err FromUtf8)"

definition is_char_boundary :: "bytes \<Rightarrow> nat \<Rightarrow> bool" where
  "is_char_boundary s i \<longleftrightarrow> i = 0 \<or> i = length s \<or> (i < length s \<and> \<not> cont (s ! i))"

definition str_slice :: "bytes \<Rightarrow> nat \<Rightarrow> nat \<Rightarrow> bytes res" where
  "str_slice s i j = (if i \<le> j \<and> is_char_boundary s i \<and> is_char_boundary s j
     then slice_res s i j else Panic)"

section \<open>Integers in text\<close>

definition digit_of :: "nat \<Rightarrow> u8 \<Rightarrow> nat option" where
  "digit_of radix b =
     (let d = (if in_range 0x30 0x39 b then unat b - 0x30
               else if in_range 0x61 0x7a b then unat b - 0x61 + 10
               else if in_range 0x41 0x5a b then unat b - 0x41 + 10
               else radix)
      in if d < radix then Some d else None)"

fun parse_digits :: "nat \<Rightarrow> nat \<Rightarrow> nat \<Rightarrow> bytes \<Rightarrow> nat option" where
  "parse_digits radix maximum acc [] = Some acc"
| "parse_digits radix maximum acc (b # bs) =
     (case digit_of radix b of
        None \<Rightarrow> None
      | Some d \<Rightarrow> (if acc * radix + d > maximum then None
                   else parse_digits radix maximum (acc * radix + d) bs))"

text \<open>\<open>from_str_radix\<close> of an unsigned type: one leading plus sign is allowed.\<close>

definition from_str_radix :: "nat \<Rightarrow> nat \<Rightarrow> bytes \<Rightarrow> nat option" where
  "from_str_radix radix maximum s =
     (case s of
        [] \<Rightarrow> None
      | b # bs \<Rightarrow> (if b = 0x2b then (if bs = [] then None else parse_digits radix maximum 0 bs)
                   else parse_digits radix maximum 0 s))"

text \<open>\<open>i32::from_str\<close>.\<close>

definition i32_from_str :: "bytes \<Rightarrow> int option" where
  "i32_from_str s =
     (case s of
        [] \<Rightarrow> None
      | b # bs \<Rightarrow>
          (if b = 0x2d then
             (if bs = [] then None else map_option (\<lambda>n. - int n) (parse_digits 10 (2 ^ 31) 0 bs))
           else map_option int (from_str_radix 10 (2 ^ 31 - 1) s)))"

fun to_decimal :: "nat \<Rightarrow> bytes" where
  "to_decimal n = (if n < 10 then [0x30 + of_nat n]
     else to_decimal (n div 10) @ [0x30 + of_nat (n mod 10)])"

declare to_decimal.simps [simp del]

lemma parse_digits_bound:
  "acc \<le> maximum \<Longrightarrow> parse_digits radix maximum acc s = Some n \<Longrightarrow> n \<le> maximum"
  by (induction s arbitrary: acc) (fastforce simp: not_less split: option.splits if_splits)+

lemma from_str_radix_bound: "from_str_radix radix maximum s = Some n \<Longrightarrow> n \<le> maximum"
  by (auto simp: from_str_radix_def simp del: parse_digits.simps split: list.splits if_splits
      dest: parse_digits_bound [OF le0])

lemma digit_of_decimal: "d < 10 \<Longrightarrow> digit_of 10 (0x30 + of_nat d) = Some d"
proof -
  assume "d < 10"
  then have "d \<in> {0, 1, 2, 3, 4, 5, 6, 7, 8, 9}" by auto
  then show ?thesis by (auto simp: digit_of_def in_range_def)
qed

lemma parse_digits_append:
  "parse_digits r m acc (xs @ ys) = Option.bind (parse_digits r m acc xs) (\<lambda>a. parse_digits r m a ys)"
  by (induction xs arbitrary: acc) (auto split: option.splits)

lemma parse_to_decimal: "n \<le> m \<Longrightarrow> parse_digits 10 m 0 (to_decimal n) = Some n"
proof (induction n rule: to_decimal.induct)
  case (1 n)
  show ?case
  proof (cases "n < 10")
    case True
    then show ?thesis using 1(2) by (subst to_decimal.simps) (simp add: digit_of_decimal)
  next
    case False
    then have "parse_digits 10 m 0 (to_decimal (n div 10)) = Some (n div 10)"
      using 1 by (meson div_le_dividend le_trans)
    then show ?thesis
      using False 1(2)
      by (subst to_decimal.simps) (simp add: parse_digits_append digit_of_decimal del: of_nat_mod)
  qed
qed

lemma to_decimal_not_Nil [simp]: "to_decimal n \<noteq> []"
  by (subst to_decimal.simps) simp

lemma to_decimal_digits: "b \<in> set (to_decimal n) \<Longrightarrow> in_range 0x30 0x39 b"
proof (induction n rule: to_decimal.induct)
  case (1 n)
  have "in_range 0x30 0x39 (0x30 + of_nat d)" if "d < 10" for d :: nat
  proof -
    from that have "d \<in> {0, 1, 2, 3, 4, 5, 6, 7, 8, 9}" by auto
    then show ?thesis by (auto simp: in_range_def)
  qed
  then show ?case
    using 1 by (subst (asm) to_decimal.simps) (auto split: if_splits simp del: of_nat_mod)
qed

lemma from_str_radix_to_decimal: "n \<le> m \<Longrightarrow> from_str_radix 10 m (to_decimal n) = Some n"
proof -
  assume "n \<le> m"
  obtain b bs where eq: "to_decimal n = b # bs" by (cases "to_decimal n") auto
  then have "in_range 0x30 0x39 b" using to_decimal_digits [of b n] by simp
  then have "b \<noteq> 0x2b" by (auto simp: in_range_def word_le_nat_alt)
  then show ?thesis
    using parse_to_decimal [OF \<open>n \<le> m\<close>] by (simp add: from_str_radix_def eq del: parse_digits.simps)
qed

section \<open>Lines\<close>

text \<open>
  What \<open>read_until(b'\n')\<close> and \<open>read_line\<close> return in turn: the pieces up to and with each newline,
  and a last piece without one when the input does not end in a newline.
\<close>

fun lines_of :: "bytes \<Rightarrow> bytes list" where
  "lines_of [] = []"
| "lines_of (b # bs) =
     (if b = lf then [lf] # lines_of bs
      else (case lines_of bs of [] \<Rightarrow> [[b]] | l # ls \<Rightarrow> (b # l) # ls))"

lemma concat_lines_of [simp]: "concat (lines_of bs) = bs"
  by (induction bs) (auto split: list.splits)

lemma lines_of_not_Nil: "l \<in> set (lines_of bs) \<Longrightarrow> l \<noteq> []"
  by (induction bs arbitrary: l) (auto split: if_splits list.splits)

lemma lines_of_line: "lf \<notin> set l \<Longrightarrow> lines_of (l @ lf # bs) = (l @ [lf]) # lines_of bs"
  by (induction l) auto

lemma lines_of_lines:
  "\<forall>l \<in> set ls. lf \<notin> set l \<Longrightarrow> lines_of (concat (map (\<lambda>l. l @ [lf]) ls)) = map (\<lambda>l. l @ [lf]) ls"
  by (induction ls) (simp_all add: lines_of_line)

text \<open>\<open>str::trim\<close> on the ASCII white space and \<open>trim_start_matches\<close> on a set of bytes.\<close>

definition ascii_white :: "u8 \<Rightarrow> bool" where
  "ascii_white b \<longleftrightarrow> b = space \<or> in_range 0x09 0x0d b"

definition trim_both :: "(u8 \<Rightarrow> bool) \<Rightarrow> bytes \<Rightarrow> bytes" where
  "trim_both P s = rev (dropWhile P (rev (dropWhile P s)))"

end
