(* ===== verification/Euc_Codec.thy ===== *)
theory Euc_Codec
  imports Encoding_Table Std_Text
begin

text \<open>
  \<open>Euc::decode\<close> and \<open>Euc::encode\<close> (\<open>src/skk/encoding_simple/euc.rs\<close>) with the helpers of
  \<open>decoder.rs\<close>, \<open>encoder.rs\<close> and \<open>Utility\<close>, and \<open>Utility::detect_encoding\<close>. The index loops of the
  code are refined to functions on the rest of the input, one character at a time; on well-formed
  tables they never fail, and text over the characters of a table survives encoding and decoding.
\<close>

section \<open>Helpers\<close>

definition contains_euc_2 :: "bytes list \<Rightarrow> nat \<Rightarrow> bool res" where
  "contains_euc_2 euc_2_vec i = and_then (index_res euc_2_vec i) (\<lambda>v. Ok (v \<noteq> [0, 0, 0, 0]))"

definition contains_utf8_3 :: "bytes list \<Rightarrow> nat \<Rightarrow> bool res" where
  "contains_utf8_3 utf8_3_vec i = and_then (index_res utf8_3_vec i) (\<lambda>v. Ok (v \<noteq> [0, 0, 0]))"

definition is_enough :: "nat \<Rightarrow> nat \<Rightarrow> nat \<Rightarrow> bool" where
  "is_enough n buffer_length i \<longleftrightarrow> i + n \<le> buffer_length"

definition push_to_buffer_utf8 :: "bytes \<Rightarrow> bytes \<Rightarrow> bytes" where
  "push_to_buffer_utf8 utf8 write_buffer =
     write_buffer @
       (if utf8 ! 0 \<ge> 0xf0 then take 4 utf8
        else if utf8 ! 0 \<ge> 0xe0 then take 3 utf8
        else if utf8 ! 0 \<ge> 0xc2 then take 2 utf8
        else [utf8 ! 0])"

definition push_to_buffer_euc :: "bytes \<Rightarrow> bytes \<Rightarrow> bytes" where
  "push_to_buffer_euc euc write_buffer =
     write_buffer @
       (if euc ! 0 = 0x8f then take 3 euc
        else if euc ! 0 \<ge> 0x80 then take 2 euc
        else [euc ! 0])"

definition is_utf8_2_bytes :: "bytes \<Rightarrow> nat \<Rightarrow> bool" where
  "is_utf8_2_bytes buf i \<longleftrightarrow> is_enough 2 (length buf) i \<and> cont (buf ! (i + 1))"

definition is_utf8_3_bytes :: "bytes \<Rightarrow> nat \<Rightarrow> bool" where
  "is_utf8_3_bytes buf i \<longleftrightarrow>
     is_enough 3 (length buf) i \<and> cont (buf ! (i + 1)) \<and> cont (buf ! (i + 2))"

definition is_utf8_4_bytes :: "bytes \<Rightarrow> nat \<Rightarrow> bool" where
  "is_utf8_4_bytes buf i \<longleftrightarrow> is_enough 4 (length buf) i
     \<and> cont (buf ! (i + 1)) \<and> cont (buf ! (i + 2)) \<and> cont (buf ! (i + 3))"

definition is_candidate_combine_utf8_4 :: "bytes \<Rightarrow> nat \<Rightarrow> bool" where
  "is_candidate_combine_utf8_4 buf i \<longleftrightarrow> buf ! (i + 2) = 0xcc \<or> buf ! (i + 2) = 0xcb"

definition is_candidate_combine_utf8_6 :: "bytes \<Rightarrow> nat \<Rightarrow> bool" where
  "is_candidate_combine_utf8_6 buf i \<longleftrightarrow> buf ! (i + 4) = 0x82 \<and> buf ! (i + 5) = 0x9a"

text \<open>The text \<open>&#x\<close> and two hex digits per byte, for what the tables do not hold.\<close>

definition escape :: "bytes \<Rightarrow> bytes" where
  "escape bs = ascii ''&#x'' @ concat (map hex2 bs)"

datatype euc_result = Nop | Break | ErrorExit

text \<open>The outcome of a step: the result code, the output buffer and the input position.\<close>

type_synonym euc_step = "(euc_result \<times> bytes \<times> nat) res"

definition escaped :: "bool \<Rightarrow> bytes \<Rightarrow> bytes \<Rightarrow> nat \<Rightarrow> nat \<Rightarrow> euc_step" where
  "escaped is_error_exit bs result i n =
     Ok (if is_error_exit then (ErrorExit, result @ escape bs, i)
         else (Nop, result @ escape bs, i + n))"

section \<open>Decoding\<close>

definition decode_a1_fe_8e :: "bool \<Rightarrow> tables \<Rightarrow> bytes \<Rightarrow> bytes \<Rightarrow> nat \<Rightarrow> euc_step" where
  "decode_a1_fe_8e is_error_exit t buf result i =
     (if \<not> is_enough 2 (length buf) i then
        Ok (if is_error_exit then ErrorExit else Break, result @ escape [buf ! i], i)
      else
        let euc_2_index = get_euc_2_to_utf8_vec_index (buf ! i) (buf ! (i + 1))
        in and_then (contains_euc_2 (euc_2_to_utf8_vec t) euc_2_index) (\<lambda>contained.
           if contained then
             Ok (Nop, push_to_buffer_utf8 (euc_2_to_utf8_vec t ! euc_2_index) result, i + 2)
           else
             (case combine_euc_to_utf8_map t [buf ! i, buf ! (i + 1), 0] of
                Some v \<Rightarrow>
                  Ok (Nop, push_to_buffer_utf8 (drop 4 v) (push_to_buffer_utf8 (take 4 v) result),
                      i + 2)
              | None \<Rightarrow> escaped is_error_exit [buf ! i, buf ! (i + 1)] result i 2)))"

definition decode_8f :: "bool \<Rightarrow> tables \<Rightarrow> bytes \<Rightarrow> bytes \<Rightarrow> nat \<Rightarrow> euc_step" where
  "decode_8f is_error_exit t buf result i =
     (if \<not> is_enough 3 (length buf) i then
        Ok (if is_error_exit then ErrorExit else Break,
            result @ (if i + 1 \<ge> length buf then escape [buf ! i]
                      else escape [buf ! i, buf ! (i + 1)]),
            i)
      else
        let key_3 = slice buf i (i + 3)
        in case euc_3_to_utf8_map t key_3 of
             Some v \<Rightarrow> Ok (Nop, push_to_buffer_utf8 v result, i + 3)
           | None \<Rightarrow> escaped is_error_exit key_3 result i 3)"

text \<open>One turn of the loop in \<open>decode\<close>, where \<open>is_error_exit\<close> is \<open>False\<close>.\<close>

definition decode_step :: "tables \<Rightarrow> bytes \<Rightarrow> bytes \<Rightarrow> nat \<Rightarrow> euc_step" where
  "decode_step t buf result i =
     and_then (index_res buf i) (\<lambda>b.
     if in_range 0xa1 0xfe b \<or> b = 0x8e then decode_a1_fe_8e False t buf result i
     else if in_range 0x00 0x7f b then Ok (Nop, result @ [b], i + 1)
     else if b = 0x8f then decode_8f False t buf result i
     else Ok (Nop, result @ escape [b], i + 1))"

lemma decode_step_advances: "decode_step t buf r i = Ok (Nop, r', i') \<Longrightarrow> i < i'"
  by (auto simp: decode_step_def decode_a1_fe_8e_def decode_8f_def escaped_def and_then_eq_Ok
      Let_def split: if_splits option.splits)

function decode_loop :: "tables \<Rightarrow> bytes \<Rightarrow> bytes \<Rightarrow> nat \<Rightarrow> bytes res" where
  "decode_loop t buf result i =
     and_then (decode_step t buf result i) (\<lambda>(r, result', i').
     case r of
       ErrorExit \<Rightarrow> Err EncodingError
     | Break \<Rightarrow> Ok result'
     | Nop \<Rightarrow> if i' \<ge> length buf then Ok result' else decode_loop t buf result' i')"
  by pat_completeness auto
termination
proof (relation "measure (\<lambda>(t, buf, r, i). length buf - i)", goal_cases)
  case (2 t buf r i x res y r' i')
  then show ?case using decode_step_advances [of t buf r i r' i'] by auto
qed simp

declare decode_loop.simps [simp del]

definition decode :: "tables \<Rightarrow> bytes \<Rightarrow> bytes res" where
  "decode t euc_buffer = (if euc_buffer = [] then Ok [] else decode_loop t euc_buffer [] 0)"

section \<open>Encoding\<close>

definition encode_e0_ef_encode_3 :: "bool \<Rightarrow> tables \<Rightarrow> bytes \<Rightarrow> bytes \<Rightarrow> nat \<Rightarrow> euc_step" where
  "encode_e0_ef_encode_3 is_error_exit t buf result i =
     (let utf8_3_index = get_utf8_3_to_euc_vec_index (slice buf i (i + 3))
      in and_then (contains_utf8_3 (utf8_3_to_euc_vec t) utf8_3_index) (\<lambda>contained.
         if contained then
           Ok (Nop, push_to_buffer_euc (utf8_3_to_euc_vec t ! utf8_3_index) result, i + 3)
         else escaped is_error_exit [buf ! i, buf ! (i + 1), buf ! (i + 2)] result i 3))"

definition encode_e0_ef :: "bool \<Rightarrow> tables \<Rightarrow> bytes \<Rightarrow> bytes \<Rightarrow> nat \<Rightarrow> euc_step" where
  "encode_e0_ef is_error_exit t buf result i =
     (if is_enough 6 (length buf) i \<and> is_candidate_combine_utf8_6 buf i then
        (case combine_utf8_6_to_euc_map t (slice buf i (i + 6)) of
           Some v \<Rightarrow> Ok (Nop, push_to_buffer_euc v result, i + (3 + 3))
         | None \<Rightarrow> encode_e0_ef_encode_3 is_error_exit t buf result i)
      else encode_e0_ef_encode_3 is_error_exit t buf result i)"

definition encode_c2_df :: "bool \<Rightarrow> tables \<Rightarrow> bytes \<Rightarrow> bytes \<Rightarrow> nat \<Rightarrow> euc_step" where
  "encode_c2_df is_error_exit t buf result i =
     (if is_enough 4 (length buf) i \<and> is_candidate_combine_utf8_4 buf i
         \<and> combine_utf8_4_to_euc_map t (slice buf i (i + 4)) \<noteq> None then
        Ok (Nop, push_to_buffer_euc (the (combine_utf8_4_to_euc_map t (slice buf i (i + 4)))) result,
            i + (2 + 2))
      else
        (case utf8_2_4_to_euc_map t [buf ! i, buf ! (i + 1), 0, 0] of
           Some v \<Rightarrow> Ok (Nop, push_to_buffer_euc v result, i + 2)
         | None \<Rightarrow> escaped is_error_exit [buf ! i, buf ! (i + 1)] result i 2))"

definition encode_f0_f7 :: "bool \<Rightarrow> tables \<Rightarrow> bytes \<Rightarrow> bytes \<Rightarrow> nat \<Rightarrow> euc_step" where
  "encode_f0_f7 is_error_exit t buf result i =
     (let key = slice buf i (i + 4)
      in case utf8_2_4_to_euc_map t key of
           Some v \<Rightarrow> Ok (Nop, push_to_buffer_euc v result, i + 4)
         | None \<Rightarrow> escaped is_error_exit key result i 4)"

definition encode_step :: "tables \<Rightarrow> bytes \<Rightarrow> bytes \<Rightarrow> nat \<Rightarrow> euc_step" where
  "encode_step t buf result i =
     and_then (index_res buf i) (\<lambda>b.
     if in_range 0xe0 0xef b \<and> is_utf8_3_bytes buf i then encode_e0_ef False t buf result i
     else if in_range 0 0x7f b then Ok (Nop, result @ [b], i + 1)
     else if in_range 0xc2 0xdf b \<and> is_utf8_2_bytes buf i then encode_c2_df False t buf result i
     else if in_range 0xf0 0xf7 b \<and> is_utf8_4_bytes buf i then encode_f0_f7 False t buf result i
     else escaped False [b] result i 1)"

lemma encode_step_advances: "encode_step t buf r i = Ok (c, r', i') \<Longrightarrow> i < i'"
  by (auto simp: encode_step_def encode_e0_ef_def encode_e0_ef_encode_3_def encode_c2_df_def
      encode_f0_f7_def escaped_def and_then_eq_Ok Let_def split: if_splits option.splits)

text \<open>\<open>assert!(utf8_i <= utf8_buffer_length)\<close> ends each turn.\<close>

function encode_loop :: "tables \<Rightarrow> bytes \<Rightarrow> bytes \<Rightarrow> nat \<Rightarrow> bytes res" where
  "encode_loop t buf result i =
     and_then (encode_step t buf result i) (\<lambda>(r, result', i').
     if r = ErrorExit then Err EncodingError
     else if \<not> i' \<le> length buf then Panic
     else if i' \<ge> length buf then Ok result'
     else encode_loop t buf result' i')"
  by pat_completeness auto
termination
proof (relation "measure (\<lambda>(t, buf, r, i). length buf - i)", goal_cases)
  case (2 t buf r i x res y r' i')
  then show ?case using encode_step_advances [of t buf r i res r' i'] by auto
qed simp

declare encode_loop.simps [simp del]

definition encode :: "tables \<Rightarrow> bytes \<Rightarrow> bytes res" where
  "encode t utf8_buffer = (if utf8_buffer = [] then Ok [] else encode_loop t utf8_buffer [] 0)"

section \<open>Specification: one character at a time\<close>

definition utf8_part :: "bytes \<Rightarrow> bytes" where
  "utf8_part v = push_to_buffer_utf8 v []"

definition euc_part :: "bytes \<Rightarrow> bytes" where
  "euc_part v = push_to_buffer_euc v []"

text \<open>What the tables say of a code, and of a character.\<close>

definition euc_2_meaning :: "tables \<Rightarrow> u8 \<Rightarrow> u8 \<Rightarrow> bytes option" where
  "euc_2_meaning t h l =
     (let v = euc_2_to_utf8_vec t ! get_euc_2_to_utf8_vec_index h l
      in if v \<noteq> [0, 0, 0, 0] then Some (utf8_part v)
         else map_option (\<lambda>v. utf8_part (take 4 v) @ utf8_part (drop 4 v))
                (combine_euc_to_utf8_map t [h, l, 0]))"

definition or_escape :: "bytes \<Rightarrow> bytes option \<Rightarrow> bytes" where
  "or_escape bs m = (case m of None \<Rightarrow> escape bs | Some u \<Rightarrow> u)"

text \<open>The output for the code at the front, and the length of that code.\<close>

definition decode_unit :: "tables \<Rightarrow> bytes \<Rightarrow> bytes \<times> nat" where
  "decode_unit t bs =
     (let b = bs ! 0 in
      if in_range 0xa1 0xfe b \<or> b = 0x8e then
        (if length bs < 2 then (escape [b], 1)
         else (or_escape [b, bs ! 1] (euc_2_meaning t b (bs ! 1)), 2))
      else if b \<le> 0x7f then ([b], 1)
      else if b = 0x8f then
        (if length bs < 3 then (escape bs, length bs)
         else (or_escape (take 3 bs) (map_option utf8_part (euc_3_to_utf8_map t (take 3 bs))), 3))
      else (escape [b], 1))"

definition utf8_3_meaning :: "tables \<Rightarrow> bytes \<Rightarrow> bytes option" where
  "utf8_3_meaning t u =
     (let v = utf8_3_to_euc_vec t ! get_utf8_3_to_euc_vec_index u
      in if v \<noteq> [0, 0, 0] then Some (euc_part v) else None)"

definition encode_unit :: "tables \<Rightarrow> bytes \<Rightarrow> bytes \<times> nat" where
  "encode_unit t bs =
     (let b = bs ! 0 in
      if in_range 0xe0 0xef b \<and> is_utf8_3_bytes bs 0 then
        (if 6 \<le> length bs \<and> is_candidate_combine_utf8_6 bs 0
            \<and> combine_utf8_6_to_euc_map t (take 6 bs) \<noteq> None
         then (euc_part (the (combine_utf8_6_to_euc_map t (take 6 bs))), 6)
         else (or_escape (take 3 bs) (utf8_3_meaning t (take 3 bs)), 3))
      else if b \<le> 0x7f then ([b], 1)
      else if in_range 0xc2 0xdf b \<and> is_utf8_2_bytes bs 0 then
        (if 4 \<le> length bs \<and> is_candidate_combine_utf8_4 bs 0
            \<and> combine_utf8_4_to_euc_map t (take 4 bs) \<noteq> None
         then (euc_part (the (combine_utf8_4_to_euc_map t (take 4 bs))), 4)
         else (or_escape (take 2 bs) (map_option euc_part (utf8_2_4_to_euc_map t (take 2 bs @ [0, 0]))), 2))
      else if in_range 0xf0 0xf7 b \<and> is_utf8_4_bytes bs 0 then
        (or_escape (take 4 bs) (map_option euc_part (utf8_2_4_to_euc_map t (take 4 bs))), 4)
      else (escape [b], 1))"


function scan :: "(bytes \<Rightarrow> bytes \<times> nat) \<Rightarrow> bytes \<Rightarrow> bytes" where
  "scan char bs = (if bs = [] then []
     else fst (char bs) @ scan char (drop (max 1 (snd (char bs))) bs))"
  by pat_completeness auto
termination by (relation "measure (\<lambda>(char, bs). length bs)") auto

declare scan.simps [simp del]

lemma scan_Nil [simp]: "scan char [] = []"
  by (simp add: scan.simps)

text \<open>
  The contract of a loop that converts a buffer character by character: a turn consumes at least one
  byte and at most the rest, appends what \<open>char\<close> says of the rest and goes on behind it.
\<close>

locale char_loop =
  fixes wf :: "'t \<Rightarrow> bool"
    and char :: "'t \<Rightarrow> bytes \<Rightarrow> bytes \<times> nat"
    and loop :: "'t \<Rightarrow> bytes \<Rightarrow> bytes \<Rightarrow> nat \<Rightarrow> bytes res"
  assumes char_bounds: "bs \<noteq> [] \<Longrightarrow> 0 < snd (char t bs) \<and> snd (char t bs) \<le> length bs"
    and loop_turn: "wf t \<Longrightarrow> i < length buf \<Longrightarrow> char t (drop i buf) = (out, n) \<Longrightarrow>
      loop t buf result i = (if i + n \<ge> length buf then Ok (result @ out)
                             else loop t buf (result @ out) (i + n))"
begin

lemma scan_char: "bs \<noteq> [] \<Longrightarrow>
    scan (char t) bs = fst (char t bs) @ scan (char t) (drop (snd (char t bs)) bs)"
  using char_bounds [of bs t] by (subst scan.simps) (simp add: max_def)

lemma loop_eq_scan:
  assumes "wf t" and "i < length buf"
  shows "loop t buf result i = Ok (result @ scan (char t) (drop i buf))"
  using assms(2)
proof (induction "length buf - i" arbitrary: i result rule: less_induct)
  case less
  obtain out n where c: "char t (drop i buf) = (out, n)" by force
  have n: "0 < n" "i + n \<le> length buf"
    using char_bounds [of "drop i buf" t] less.prems c by auto
  have s: "scan (char t) (drop i buf) = out @ scan (char t) (drop (i + n) buf)"
    using scan_char [of "drop i buf" t] less.prems c by (simp add: add.commute)
  show ?case
  proof (cases "i + n = length buf")
    case True
    then show ?thesis using loop_turn [OF assms(1) less.prems c] s by simp
  next
    case False
    then show ?thesis
      using loop_turn [OF assms(1) less.prems c] s n less.hyps [of "i + n" "result @ out"] by simp
  qed
qed

lemma scan_pieces:
  assumes "\<And>x rest. x \<in> set xs \<Longrightarrow> char t (x @ rest) = (f x, length x)"
    and "[] \<notin> set xs"
  shows "scan (char t) (concat xs @ rest) = concat (map f xs) @ scan (char t) rest"
  using assms by (induction xs) (auto simp: scan_char)

end

section \<open>Refinement\<close>

lemma take_two: "2 \<le> length xs \<Longrightarrow> take 2 xs = [xs ! 0, xs ! 1]"
  by (rule nth_equalityI) (auto simp: less_Suc_eq numeral_eq_Suc)

lemma drop_eq_last: "i < length xs \<Longrightarrow> length xs \<le> Suc i \<Longrightarrow> drop i xs = [xs ! i]"
  using Cons_nth_drop_Suc [of i xs] by simp

lemma drop_eq_last_two:
  "Suc i < length xs \<Longrightarrow> length xs < i + 3 \<Longrightarrow> drop i xs = [xs ! i, xs ! Suc i]"
  using Cons_nth_drop_Suc [of i xs] drop_eq_last [of "Suc i" xs] by simp

lemma index_vec_ok:
  assumes "tables_wf t"
  shows "contains_euc_2 (euc_2_to_utf8_vec t) (get_euc_2_to_utf8_vec_index h l)
      = Ok (euc_2_to_utf8_vec t ! get_euc_2_to_utf8_vec_index h l \<noteq> [0, 0, 0, 0])"
    and "contains_utf8_3 (utf8_3_to_euc_vec t) (get_utf8_3_to_euc_vec_index u)
      = Ok (utf8_3_to_euc_vec t ! get_utf8_3_to_euc_vec_index u \<noteq> [0, 0, 0])"
  using assms get_euc_2_to_utf8_vec_index_bound [of h l] get_utf8_3_to_euc_vec_index_bound [of u]
  by (simp_all add: contains_euc_2_def contains_utf8_3_def tables_wf_def)

lemma push_parts: "push_to_buffer_utf8 v r = r @ utf8_part v" "push_to_buffer_euc v r = r @ euc_part v"
  by (simp_all add: push_to_buffer_utf8_def push_to_buffer_euc_def utf8_part_def euc_part_def)

lemma in_range_zero [simp]: "in_range 0 k b \<longleftrightarrow> b \<le> k"
  by (simp add: in_range_def)

lemma lead_classes:
  "in_range 0xe0 0xef b \<Longrightarrow> \<not> b \<le> 0x7f \<and> \<not> in_range 0xc2 0xdf b \<and> \<not> in_range 0xf0 0xf7 b"
  "in_range 0xc2 0xdf b \<Longrightarrow> \<not> b \<le> 0x7f \<and> \<not> in_range 0xe0 0xef b \<and> \<not> in_range 0xf0 0xf7 b"
  "in_range 0xf0 0xf7 b \<Longrightarrow> \<not> b \<le> 0x7f \<and> \<not> in_range 0xe0 0xef b \<and> \<not> in_range 0xc2 0xdf b"
  by (auto simp: in_range_def word_le_nat_alt)

lemma decode_turn:
  assumes wf: "tables_wf t" and i: "i < length buf" and u: "decode_unit t (drop i buf) = (out, n)"
  shows "decode_loop t buf result i = (if i + n \<ge> length buf then Ok (result @ out)
     else decode_loop t buf (result @ out) (i + n))"
proof -
  define b where "b = buf ! i"
  note defs = decode_step_def decode_unit_def is_enough_def escaped_def or_escape_def
    euc_2_meaning_def push_parts slice_def Let_def
  have u0: "index_res buf i = Ok b" "drop i buf ! 0 = b" using i by (simp_all add: b_def)
  consider "in_range 0xa1 0xfe b \<or> b = 0x8e" | "\<not> (in_range 0xa1 0xfe b \<or> b = 0x8e)" "b \<le> 0x7f"
    | "\<not> (in_range 0xa1 0xfe b \<or> b = 0x8e)" "\<not> b \<le> 0x7f" "b = 0x8f"
    | "\<not> (in_range 0xa1 0xfe b \<or> b = 0x8e)" "\<not> b \<le> 0x7f" "b \<noteq> 0x8f" by blast
  then have "decode_step t buf result i = Ok (Nop, result @ out, i + n)
      \<or> decode_step t buf result i = Ok (Break, result @ out, i) \<and> i + n = length buf"
  proof cases
    case 1
    then show ?thesis
      using u i index_vec_ok(1) [OF wf]
      by (auto simp: defs decode_a1_fe_8e_def u0 b_def [symmetric] split: if_splits option.splits)
  next
    case 2
    then show ?thesis using u by (simp add: defs u0)
  next
    case 3
    then show ?thesis
      using u i drop_eq_last [of i buf] drop_eq_last_two [of i buf]
      by (auto simp: defs decode_8f_def u0 b_def [symmetric] split: if_splits option.splits)
  next
    case 4
    then show ?thesis using u by (simp add: defs u0)
  qed
  then show ?thesis by (subst decode_loop.simps) auto
qed

lemma encode_turn:
  assumes wf: "tables_wf t" and i: "i < length buf" and u: "encode_unit t (drop i buf) = (out, n)"
  shows "encode_loop t buf result i = (if i + n \<ge> length buf then Ok (result @ out)
     else encode_loop t buf (result @ out) (i + n))"
proof -
  define b where "b = buf ! i"
  note defs = encode_step_def encode_unit_def is_enough_def escaped_def or_escape_def
    push_parts slice_def Let_def is_utf8_2_bytes_def is_utf8_3_bytes_def is_utf8_4_bytes_def
    is_candidate_combine_utf8_4_def is_candidate_combine_utf8_6_def
  have u0: "index_res buf i = Ok b" "drop i buf ! 0 = b" using i by (simp_all add: b_def)
  consider "in_range 0xe0 0xef b" | "in_range 0xc2 0xdf b" | "in_range 0xf0 0xf7 b"
    | "\<not> in_range 0xe0 0xef b" "\<not> in_range 0xc2 0xdf b" "\<not> in_range 0xf0 0xf7 b" by blast
  then have "encode_step t buf result i = Ok (Nop, result @ out, i + n) \<and> i + n \<le> length buf"
  proof cases
    case 1
    note c = 1 lead_classes(1) [OF 1]
    show ?thesis
    proof (cases "is_utf8_3_bytes buf i")
      case True
      then have "is_utf8_3_bytes (drop i buf) 0" "i + 3 \<le> length buf"
        by (auto simp: is_utf8_3_bytes_def is_enough_def add.commute)
      with True c u i index_vec_ok(2) [OF wf] take_three [of "drop i buf"] show ?thesis
        by (auto simp: encode_step_def encode_unit_def u0 b_def [symmetric] encode_e0_ef_def encode_e0_ef_encode_3_def
            utf8_3_meaning_def is_enough_def slice_def push_parts is_candidate_combine_utf8_6_def
            Let_def escaped_def or_escape_def add.commute split: if_splits option.splits)
    next
      case False
      then have "\<not> is_utf8_3_bytes (drop i buf) 0" using i
        by (auto simp: is_utf8_3_bytes_def is_enough_def add.commute)
      with False c u i show ?thesis
        by (auto simp: encode_step_def encode_unit_def u0 b_def [symmetric] Let_def escaped_def)
    qed
  next
    case 2
    note c = 2 lead_classes(2) [OF 2]
    show ?thesis
    proof (cases "is_utf8_2_bytes buf i")
      case True
      then have "is_utf8_2_bytes (drop i buf) 0" "i + 2 \<le> length buf"
        by (auto simp: is_utf8_2_bytes_def is_enough_def add.commute)
      with True c u i take_two [of "drop i buf"] show ?thesis
        by (auto simp: encode_step_def encode_unit_def u0 b_def [symmetric] encode_c2_df_def
            is_enough_def slice_def push_parts is_candidate_combine_utf8_4_def
            Let_def escaped_def or_escape_def add.commute split: if_splits option.splits)
    next
      case False
      then have "\<not> is_utf8_2_bytes (drop i buf) 0" using i
        by (auto simp: is_utf8_2_bytes_def is_enough_def add.commute)
      with False c u i show ?thesis
        by (auto simp: encode_step_def encode_unit_def u0 b_def [symmetric] Let_def escaped_def)
    qed
  next
    case 3
    note c = 3 lead_classes(3) [OF 3]
    show ?thesis
    proof (cases "is_utf8_4_bytes buf i")
      case True
      then have "is_utf8_4_bytes (drop i buf) 0" "i + 4 \<le> length buf"
        by (auto simp: is_utf8_4_bytes_def is_enough_def add.commute)
      with True c u i show ?thesis
        by (auto simp: encode_step_def encode_unit_def u0 b_def [symmetric] encode_f0_f7_def slice_def push_parts
            Let_def escaped_def or_escape_def split: if_splits option.splits)
    next
      case False
      then have "\<not> is_utf8_4_bytes (drop i buf) 0" using i
        by (auto simp: is_utf8_4_bytes_def is_enough_def add.commute)
      with False c u i show ?thesis
        by (auto simp: encode_step_def encode_unit_def u0 b_def [symmetric] Let_def escaped_def)
    qed
  next
    case 4
    then show ?thesis
      using u i by (auto simp: encode_step_def encode_unit_def u0 b_def [symmetric] Let_def escaped_def split: if_splits)
  qed
  then show ?thesis by (subst encode_loop.simps) auto
qed


lemma decode_unit_bounds: "bs \<noteq> [] \<Longrightarrow> 0 < snd (decode_unit t bs) \<and> snd (decode_unit t bs) \<le> length bs"
  by (cases bs) (auto simp: decode_unit_def Let_def Suc_le_eq)

lemma encode_unit_bounds: "bs \<noteq> [] \<Longrightarrow> 0 < snd (encode_unit t bs) \<and> snd (encode_unit t bs) \<le> length bs"
  by (cases bs) (auto simp: encode_unit_def Let_def is_utf8_2_bytes_def is_utf8_3_bytes_def
      is_utf8_4_bytes_def is_enough_def)

interpretation dec: char_loop tables_wf decode_unit decode_loop
  by unfold_locales (rule decode_unit_bounds, assumption, rule decode_turn)

interpretation enc: char_loop tables_wf encode_unit encode_loop
  by unfold_locales (rule encode_unit_bounds, assumption, rule encode_turn)

lemma decode_eq_scan: "tables_wf t \<Longrightarrow> decode t buf = Ok (scan (decode_unit t) buf)"
  using dec.loop_eq_scan [of t 0 buf "[]"] by (simp add: decode_def)

lemma encode_eq_scan: "tables_wf t \<Longrightarrow> encode t buf = Ok (scan (encode_unit t) buf)"
  using enc.loop_eq_scan [of t 0 buf "[]"] by (simp add: encode_def)

definition is_ascii_text :: "bytes \<Rightarrow> bool" where
  "is_ascii_text bs \<longleftrightarrow> list_all (\<lambda>b. b \<le> 0x7f) bs"

lemma ascii_not_lead:
  "b \<le> 0x7f \<Longrightarrow> \<not> in_range 0xa1 0xfe b \<and> b \<noteq> 0x8e \<and> b \<noteq> 0x8f"
  "b \<le> 0x7f \<Longrightarrow> \<not> in_range 0xe0 0xef b \<and> \<not> in_range 0xc2 0xdf b \<and> \<not> in_range 0xf0 0xf7 b"
  by (auto simp: in_range_def word_le_nat_alt)

lemma decode_unit_ascii: "b \<le> 0x7f \<Longrightarrow> decode_unit t (b # rest) = ([b], 1)"
  using ascii_not_lead(1) [of b] by (simp add: decode_unit_def Let_def)

lemma encode_unit_ascii: "b \<le> 0x7f \<Longrightarrow> encode_unit t (b # rest) = ([b], 1)"
  using ascii_not_lead(2) [of b] by (simp add: encode_unit_def Let_def)

lemma scan_ascii:
  assumes "is_ascii_text s"
  shows "scan (decode_unit t) (s @ rest) = s @ scan (decode_unit t) rest"
    and "scan (encode_unit t) (s @ rest) = s @ scan (encode_unit t) rest"
  using assms
  by (induction s) (simp_all add: is_ascii_text_def dec.scan_char enc.scan_char
      decode_unit_ascii encode_unit_ascii)

section \<open>detect\_encoding\<close>

definition i32_quot :: "int \<Rightarrow> int \<Rightarrow> int" where
  "i32_quot a b = sgn a * (\<bar>a\<bar> div b)"

function detect_loop :: "bytes \<Rightarrow> nat \<Rightarrow> int \<Rightarrow> int \<Rightarrow> int \<times> int" where
  "detect_loop buf i valid invalid =
     (if i < length buf - 3 then
        let b0 = buf ! i; b1 = buf ! (i + 1); b2 = buf ! (i + 2); b3 = buf ! (i + 3)
        in if in_range 0xc2 0xdf b0 \<and> cont b1 then
             detect_loop buf (i + 2) (as_i32 (valid + 1)) invalid
           else if in_range 0xe0 0xef b0 \<and> cont b1 \<and> cont b2 then
             detect_loop buf (i + 3) (as_i32 (valid + 1)) invalid
           else if in_range 0xf0 0xf7 b0 \<and> cont b1 \<and> cont b2 \<and> cont b3 then
             detect_loop buf (i + 4) (as_i32 (valid + 1)) invalid
           else if in_range 0x01 0x7f b0 then detect_loop buf (i + 1) valid invalid
           else detect_loop buf (i + 1) valid (as_i32 (invalid + 1))
      else (valid, invalid))"
  by pat_completeness auto
termination by (relation "measure (\<lambda>(buf, i, v, n). length buf - i)") auto

declare detect_loop.simps [simp del]

text \<open>
  A buffer shorter than three bytes panics: \<open>buffer.len() - 3\<close> overflows, or in a release build
  wraps and the loop reads past the end.
\<close>

definition detect_encoding :: "twoway \<Rightarrow> bytes \<Rightarrow> (encoding \<times> encoding_options) res" where
  "detect_encoding tw buf =
     (if length buf > 3 \<and> buf ! 0 = 0xef \<and> buf ! 1 = 0xbb \<and> buf ! 2 = 0xbf then Ok (Utf8, Bom)
      else if length buf < 3 then Panic
      else
        let (valid, invalid) = detect_loop buf 0 0 0;
            ambiguous_threshold = i32_quot (as_i32 (int (length buf))) 100
        in if as_i32 \<bar>as_i32 (valid - invalid)\<bar> < ambiguous_threshold then
             if find_bytes tw buf (ascii ''coding: euc-'') \<noteq> None then Ok (Euc, NoOptions)
             else if find_bytes tw buf (ascii ''coding: utf-8'') \<noteq> None then Ok (Utf8, NoOptions)
             else
               let near_zero_threshold = min 1000 (i32_quot (as_i32 (int (length buf))) 1000)
               in if valid \<le> near_zero_threshold \<and> invalid \<le> near_zero_threshold
                  then Ok (Euc, NoOptions) else Err EncodingError
           else if valid > invalid then Ok (Utf8, NoOptions) else Ok (Euc, NoOptions))"

lemma detect_encoding_total:
  "detect_encoding tw buf = Panic \<longleftrightarrow> length buf < 3"
  "detect_encoding tw buf \<noteq> Undefined"
  by (cases "detect_loop buf 0 0 0"; simp add: detect_encoding_def Let_def)+

lemma detect_loop_ascii:
  assumes "list_all (in_range 0x01 0x7f) buf"
  shows "detect_loop buf i 0 0 = (0, 0)"
proof (induction "length buf - i" arbitrary: i rule: less_induct)
  case less
  show ?case
  proof (cases "i < length buf - 3")
    case True
    then have b: "in_range 0x01 0x7f (buf ! i)" using assms by (auto simp: list_all_length)
    then have "buf ! i \<le> 0x7f" by (simp add: in_range_def)
    then show ?thesis
      using True b less.hyps [of "i + 1"] ascii_not_lead(2) [of "buf ! i"]
      by (subst detect_loop.simps) (simp add: Let_def)
  qed (subst detect_loop.simps, simp)
qed

end
