(* ===== verification/Euc_Roundtrip.thy ===== *)
theory Euc_Roundtrip
  imports Euc_Codec
begin

text \<open>
  The round trip: for a table whose codes, characters and vector indices are distinct
  (\<open>entries_ok\<close>), a text over the characters of the table is what decoding its encoding gives, also
  where \<open>encode\<close> joins two characters into the code of a combining entry.
\<close>

section \<open>Admissible tables\<close>

definition ascii_entry :: "bytes \<times> bytes \<Rightarrow> bool" where
  "ascii_entry p \<longleftrightarrow> fst p ! 0 \<le> 0x7f \<and> snd p ! 0 \<le> 0x7f"

definition code_shape :: "bytes \<Rightarrow> bool" where
  "code_shape c \<longleftrightarrow> length c = 3 \<and> (c ! 0 = 0x8f \<or> (euc_2_code (c ! 0) (c ! 1) \<and> c ! 2 = 0))"

text \<open>A character of two, three or four bytes, padded to four.\<close>

definition char_shape :: "bytes \<Rightarrow> bool" where
  "char_shape u \<longleftrightarrow> length u = 4 \<and> cont (u ! 1) \<and>
     (in_range 0xc2 0xdf (u ! 0) \<and> u ! 2 = 0 \<and> u ! 3 = 0
      \<or> in_range 0xe0 0xef (u ! 0) \<and> cont (u ! 2) \<and> u ! 3 = 0
      \<or> in_range 0xf0 0xf7 (u ! 0) \<and> cont (u ! 2) \<and> cont (u ! 3))"

definition is_utf8_3_char :: "bytes \<Rightarrow> bool" where
  "is_utf8_3_char u \<longleftrightarrow> in_range 0xe0 0xef (u ! 0)"

text \<open>A combining entry joins two characters of two bytes, or two of three bytes.\<close>

definition combine_shape :: "bytes \<times> bytes \<Rightarrow> bool" where
  "combine_shape p \<longleftrightarrow> length (fst p) = 3 \<and> euc_2_code (fst p ! 0) (fst p ! 1) \<and> fst p ! 2 = 0 \<and>
     length (snd p) = 8 \<and> char_shape (take 4 (snd p)) \<and> char_shape (drop 4 (snd p)) \<and>
     (in_range 0xc2 0xdf (snd p ! 0) \<and> in_range 0xc2 0xdf (snd p ! 4)
      \<or> is_utf8_3_char (snd p) \<and> is_utf8_3_char (drop 4 (snd p)))"

definition proper_entries :: "table_entries \<Rightarrow> table_entries" where
  "proper_entries ps = filter (\<lambda>p. \<not> ascii_entry p) ps"

definition entries_ok :: "table_entries \<Rightarrow> table_entries \<Rightarrow> bool" where
  "entries_ok cs ps \<longleftrightarrow>
     list_all combine_shape cs \<and>
     list_all (\<lambda>p. length (fst p) = 3 \<and> length (snd p) = 4) ps \<and>
     list_all (\<lambda>p. code_shape (fst p) \<and> char_shape (snd p)) (proper_entries ps) \<and>
     distinct (map fst (cs @ proper_entries ps)) \<and>
     distinct (map snd (proper_entries ps)) \<and>
     distinct (map (\<lambda>p. get_utf8_3_to_euc_vec_index (snd p))
       (filter (\<lambda>p. is_utf8_3_char (snd p)) (proper_entries ps)))"

definition repertoire :: "table_entries \<Rightarrow> bytes set" where
  "repertoire ps = {[b] |b. b \<le> 0x7f} \<union> (\<lambda>p. utf8_part (snd p)) ` set (proper_entries ps)"

section \<open>What the tables hold\<close>

lemma fold_keep: "(\<And>y s. y \<in> set xs \<Longrightarrow> Q s \<Longrightarrow> Q (f y s)) \<Longrightarrow> Q s \<Longrightarrow> Q (fold f xs s)"
  by (induction xs arbitrary: s) auto

lemma fold_lookup:
  assumes "x \<in> set xs" and "Inv s"
    and "\<And>y s. y \<in> set xs \<Longrightarrow> Inv s \<Longrightarrow> Inv (f y s)"
    and "\<And>s. Inv s \<Longrightarrow> Q (f x s)"
    and "\<And>y s. y \<in> set xs \<Longrightarrow> y \<noteq> x \<Longrightarrow> Q s \<Longrightarrow> Q (f y s)"
  shows "Q (fold f xs s)"
  using assms
proof (induction xs arbitrary: s)
  case (Cons y ys)
  show ?case
  proof (cases "x \<in> set ys")
    case True
    have "Q (fold f ys (f y s))"
      by (rule Cons.IH) (use True Cons.prems in auto)
    then show ?thesis by simp
  next
    case False
    then have y: "y = x" using Cons.prems(1) by simp
    have "Q (fold f ys (f x s))"
    proof (rule fold_keep)
      fix z s'
      assume "z \<in> set ys" "Q s'"
      moreover from this False have "z \<noteq> x" by blast
      ultimately show "Q (f z s')" using Cons.prems(5) [of z s'] by simp
    qed (use Cons.prems in simp)
    then show ?thesis using y by simp
  qed
qed simp

lemma distinct_key: "distinct (map key xs) \<Longrightarrow> x \<in> set xs \<Longrightarrow> y \<in> set xs \<Longrightarrow> key x = key y \<Longrightarrow> x = y"
  by (auto simp: distinct_map dest: inj_onD)

lemma store_plain_ascii: "ascii_entry p \<Longrightarrow> store_plain p t = t"
  using ascii_not_lead [of "fst p ! 0"]
  by (auto simp: ascii_entry_def store_plain_def setup_map_entry_def in_range_def Let_def word_le_nat_alt)

lemma fold_store_plain: "fold store_plain ps t = fold store_plain (proper_entries ps) t"
  by (induction ps arbitrary: t) (simp_all add: proper_entries_def store_plain_ascii)

lemma euc_2_lead:
  assumes "euc_2_code h l"
  shows "h \<noteq> 0x8f" "h = 0x8e \<or> in_range 0xa0 0xff h" "in_range 0xa1 0xfe h \<or> h = 0x8e"
    "\<not> h \<le> 0x7f"
  using assms by (auto simp: euc_2_code_def in_range_def word_le_nat_alt)

lemma char_shape_lead:
  assumes "char_shape u"
  shows "\<not> u ! 0 \<le> 0x7f" "u \<noteq> [0, 0, 0, 0]"
  using assms ascii_not_lead(2) [of "u ! 0"] by (auto simp: char_shape_def in_range_def)

text \<open>The effect of one proper entry on each table.\<close>

lemma store_plain_effect:
  assumes c: "code_shape (fst p)" and u: "char_shape (snd p)"
  shows "euc_3_to_utf8_map (store_plain p t) =
      (if fst p ! 0 = 0x8f then (euc_3_to_utf8_map t)(fst p \<mapsto> snd p) else euc_3_to_utf8_map t)"
    and "euc_2_to_utf8_vec (store_plain p t) =
      (if fst p ! 0 = 0x8f then euc_2_to_utf8_vec t else (euc_2_to_utf8_vec t)
         [get_euc_2_to_utf8_vec_index (fst p ! 0) (fst p ! 1) := snd p])"
    and "utf8_3_to_euc_vec (store_plain p t) =
      (if is_utf8_3_char (snd p) then (utf8_3_to_euc_vec t)
         [get_utf8_3_to_euc_vec_index (snd p) := fst p] else utf8_3_to_euc_vec t)"
    and "utf8_2_4_to_euc_map (store_plain p t) =
      (if is_utf8_3_char (snd p) then utf8_2_4_to_euc_map t
       else (utf8_2_4_to_euc_map t)(snd p \<mapsto> fst p))"
    and "combine_euc_to_utf8_map (store_plain p t) = combine_euc_to_utf8_map t"
    and "combine_utf8_4_to_euc_map (store_plain p t) = combine_utf8_4_to_euc_map t"
    and "combine_utf8_6_to_euc_map (store_plain p t) = combine_utf8_6_to_euc_map t"
  using c euc_2_lead [of "fst p ! 0" "fst p ! 1"] char_shape_lead(1) [OF u]
  by (auto simp: store_plain_def setup_map_entry_def code_shape_def is_utf8_3_char_def Let_def)


section \<open>Lookups after setup\<close>

definition vec_lengths :: "tables \<Rightarrow> bool" where
  "vec_lengths t \<longleftrightarrow> length (euc_2_to_utf8_vec t) = Suc euc_2_to_utf8_vec_index_maximum
     \<and> length (utf8_3_to_euc_vec t) = Suc utf8_3_to_euc_vec_index_maximum"

lemma entries_ok_D:
  assumes "entries_ok cs ps" and p: "p \<in> set (proper_entries ps)"
  shows "code_shape (fst p)" "char_shape (snd p)" "length (fst p) = 3"
  using assms by (auto simp: entries_ok_def list_all_iff code_shape_def)

lemma store_plain_lengths:
  "code_shape (fst p) \<Longrightarrow> char_shape (snd p) \<Longrightarrow> vec_lengths t \<Longrightarrow> vec_lengths (store_plain p t)"
  by (simp add: vec_lengths_def store_plain_effect)

lemma code_3_eq: "length a = 3 \<Longrightarrow> length b = 3 \<Longrightarrow> a ! 0 = b ! 0 \<Longrightarrow> a ! 1 = b ! 1 \<Longrightarrow> a ! 2 = b ! 2 \<Longrightarrow> a = b"
  by (rule nth_equalityI) (auto simp: less_Suc_eq numeral_eq_Suc)

text \<open>Different two-byte codes have different indices.\<close>

lemma code_index_inj:
  assumes "code_shape a" "code_shape b" "a ! 0 \<noteq> 0x8f" "b ! 0 \<noteq> 0x8f"
    and "get_euc_2_to_utf8_vec_index (a ! 0) (a ! 1) = get_euc_2_to_utf8_vec_index (b ! 0) (b ! 1)"
  shows "a = b"
  using assms euc_2_index_inj [of "a ! 0" "a ! 1" "b ! 0" "b ! 1"]
  by (auto simp: code_shape_def intro: code_3_eq)

lemma plain_lookups:
  assumes ok: "entries_ok cs ps" and p: "p \<in> set (proper_entries ps)" and inv: "vec_lengths t"
  defines "T \<equiv> fold store_plain ps t"
  shows "fst p ! 0 = 0x8f \<Longrightarrow> euc_3_to_utf8_map T (fst p) = Some (snd p)"
    and "fst p ! 0 \<noteq> 0x8f \<Longrightarrow>
      euc_2_to_utf8_vec T ! get_euc_2_to_utf8_vec_index (fst p ! 0) (fst p ! 1) = snd p"
    and "is_utf8_3_char (snd p) \<Longrightarrow>
      utf8_3_to_euc_vec T ! get_utf8_3_to_euc_vec_index (snd p) = fst p"
    and "\<not> is_utf8_3_char (snd p) \<Longrightarrow> utf8_2_4_to_euc_map T (snd p) = Some (fst p)"
proof -
  define qs where "qs = proper_entries ps"
  have T: "T = fold store_plain qs t"
    by (simp add: T_def qs_def flip: fold_store_plain)
  have shape: "code_shape (fst y)" "char_shape (snd y)" if "y \<in> set qs" for y
    using entries_ok_D [OF ok] that by (simp_all add: qs_def)
  have d: "distinct (map fst qs)" "distinct (map snd qs)"
      "distinct (map (\<lambda>p. get_utf8_3_to_euc_vec_index (snd p)) (filter (\<lambda>p. is_utf8_3_char (snd p)) qs))"
    using ok by (simp_all add: entries_ok_def qs_def)
  have p: "p \<in> set qs" using p by (simp add: qs_def)
  have keep: "vec_lengths (store_plain y s)" if "y \<in> set qs" "vec_lengths s" for y s
    using store_plain_lengths shape that by blast
  have fst_neq: "fst y \<noteq> fst p" if "y \<in> set qs" "y \<noteq> p" for y
    using distinct_key [OF d(1) that(1) p] that(2) by blast
  have snd_neq: "snd y \<noteq> snd p" if "y \<in> set qs" "y \<noteq> p" for y
    using distinct_key [OF d(2) that(1) p] that(2) by blast
  have ix_neq: "get_utf8_3_to_euc_vec_index (snd y) \<noteq> get_utf8_3_to_euc_vec_index (snd p)"
    if "y \<in> set qs" "y \<noteq> p" "is_utf8_3_char (snd y)" "is_utf8_3_char (snd p)" for y
    using distinct_key [OF d(3), of y p] that p by auto
  show "euc_3_to_utf8_map T (fst p) = Some (snd p)" if "fst p ! 0 = 0x8f"
    unfolding T
    by (rule fold_lookup [where Inv = "\<lambda>_. True" and x = p])
      (use that p in \<open>auto simp: store_plain_effect shape dest: fst_neq\<close>)
  show "utf8_2_4_to_euc_map T (snd p) = Some (fst p)" if "\<not> is_utf8_3_char (snd p)"
    unfolding T
    by (rule fold_lookup [where Inv = "\<lambda>_. True" and x = p])
      (use that p in \<open>auto simp: store_plain_effect shape dest: snd_neq\<close>)
  show "euc_2_to_utf8_vec T ! get_euc_2_to_utf8_vec_index (fst p ! 0) (fst p ! 1) = snd p"
    if n: "fst p ! 0 \<noteq> 0x8f"
    unfolding T
  proof (rule fold_lookup [where Inv = vec_lengths and x = p, OF p inv])
    fix s
    assume "vec_lengths s"
    then show "euc_2_to_utf8_vec (store_plain p s) ! get_euc_2_to_utf8_vec_index (fst p ! 0) (fst p ! 1)
        = snd p"
      using n shape [OF p] get_euc_2_to_utf8_vec_index_bound [of "fst p ! 0" "fst p ! 1"]
      by (simp add: store_plain_effect vec_lengths_def)
  next
    fix y and s :: tables
    assume "y \<in> set qs" "y \<noteq> p"
      "euc_2_to_utf8_vec s ! get_euc_2_to_utf8_vec_index (fst p ! 0) (fst p ! 1) = snd p"
    then show "euc_2_to_utf8_vec (store_plain y s) ! get_euc_2_to_utf8_vec_index (fst p ! 0) (fst p ! 1)
        = snd p"
      using n shape [of y] shape(1) [OF p] fst_neq [of y] code_index_inj [of "fst y" "fst p"]
      by (cases "fst y ! 0 = 0x8f") (fastforce simp: store_plain_effect simp del: One_nat_def)+
  qed (rule keep)
  show "utf8_3_to_euc_vec T ! get_utf8_3_to_euc_vec_index (snd p) = fst p" if n: "is_utf8_3_char (snd p)"
    unfolding T
  proof (rule fold_lookup [where Inv = vec_lengths and x = p, OF p inv])
    fix s
    assume "vec_lengths s"
    then show "utf8_3_to_euc_vec (store_plain p s) ! get_utf8_3_to_euc_vec_index (snd p) = fst p"
      using n shape [OF p] get_utf8_3_to_euc_vec_index_bound [of "snd p"]
      by (simp add: store_plain_effect vec_lengths_def)
  next
    fix y and s :: tables
    assume "y \<in> set qs" "y \<noteq> p" "utf8_3_to_euc_vec s ! get_utf8_3_to_euc_vec_index (snd p) = fst p"
    then show "utf8_3_to_euc_vec (store_plain y s) ! get_utf8_3_to_euc_vec_index (snd p) = fst p"
      using n shape [of y] ix_neq [of y] by (auto simp: store_plain_effect)
  qed (rule keep)
qed


section \<open>Combining entries\<close>

lemma combine_shape_lead:
  assumes "combine_shape q"
  shows "combine_lead_ok q" "length (fst q) = 3" "length (snd q) = 8"
  using assms by (auto simp: combine_shape_def combine_lead_ok_def is_utf8_3_char_def)

definition combine_key :: "bytes \<Rightarrow> bytes" where
  "combine_key v = (if is_utf8_3_char v then take 3 v @ take 3 (drop 4 v)
                    else take 2 v @ take 2 (drop 4 v))"

lemma store_combine_effect:
  assumes "combine_shape q"
  shows "combine_euc_to_utf8_map (store_combine q t) = (combine_euc_to_utf8_map t)(fst q \<mapsto> snd q)"
    and "combine_utf8_4_to_euc_map (store_combine q t) =
      (if is_utf8_3_char (snd q) then combine_utf8_4_to_euc_map t
       else (combine_utf8_4_to_euc_map t)(combine_key (snd q) \<mapsto> fst q))"
    and "combine_utf8_6_to_euc_map (store_combine q t) =
      (if is_utf8_3_char (snd q) then (combine_utf8_6_to_euc_map t)(combine_key (snd q) \<mapsto> fst q)
       else combine_utf8_6_to_euc_map t)"
proof -
  obtain a b c d e f g h where v: "snd q = [a, b, c, d, e, f, g, h]"
    using combine_shape_lead(3) [OF assms] by (auto simp: numeral_eq_Suc length_Suc_conv)
  have l: "in_range 0xc2 0xdf a \<or> in_range 0xe0 0xef a"
    using assms unfolding combine_shape_def v is_utf8_3_char_def by auto
  have "combine_euc_to_utf8_map (store_combine q t) = (combine_euc_to_utf8_map t)(fst q \<mapsto> snd q) \<and>
      combine_utf8_4_to_euc_map (store_combine q t) =
        (if is_utf8_3_char (snd q) then combine_utf8_4_to_euc_map t
         else (combine_utf8_4_to_euc_map t)(combine_key (snd q) \<mapsto> fst q)) \<and>
      combine_utf8_6_to_euc_map (store_combine q t) =
        (if is_utf8_3_char (snd q) then (combine_utf8_6_to_euc_map t)(combine_key (snd q) \<mapsto> fst q)
         else combine_utf8_6_to_euc_map t)"
  proof (cases "in_range 0xe0 0xef a")
    case True
    then show ?thesis
      using lead_classes(1) [of a]
      by (simp add: store_combine_def setup_combine_entry_def v is_utf8_3_char_def combine_key_def Let_def)
  next
    case False
    then show ?thesis
      using l by (simp add: store_combine_def setup_combine_entry_def v is_utf8_3_char_def
          combine_key_def Let_def)
  qed
  then show "combine_euc_to_utf8_map (store_combine q t) = (combine_euc_to_utf8_map t)(fst q \<mapsto> snd q)"
    and "combine_utf8_4_to_euc_map (store_combine q t) =
      (if is_utf8_3_char (snd q) then combine_utf8_4_to_euc_map t
       else (combine_utf8_4_to_euc_map t)(combine_key (snd q) \<mapsto> fst q))"
    and "combine_utf8_6_to_euc_map (store_combine q t) =
      (if is_utf8_3_char (snd q) then (combine_utf8_6_to_euc_map t)(combine_key (snd q) \<mapsto> fst q)
       else combine_utf8_6_to_euc_map t)"
    by blast+
qed

lemma combine_maps_from:
  assumes "\<forall>q \<in> set cs. combine_shape q"
    and "\<And>k c. combine_utf8_4_to_euc_map t k = Some c \<Longrightarrow> False"
    and "\<And>k c. combine_utf8_6_to_euc_map t k = Some c \<Longrightarrow> False"
  shows "combine_utf8_4_to_euc_map (fold store_combine cs t) k = Some c \<Longrightarrow>
      \<exists>q \<in> set cs. fst q = c \<and> combine_key (snd q) = k \<and> \<not> is_utf8_3_char (snd q)"
    and "combine_utf8_6_to_euc_map (fold store_combine cs t) k = Some c \<Longrightarrow>
      \<exists>q \<in> set cs. fst q = c \<and> combine_key (snd q) = k \<and> is_utf8_3_char (snd q)"
proof -
  let ?P = "\<lambda>s. (\<forall>k c. combine_utf8_4_to_euc_map s k = Some c \<longrightarrow>
      (\<exists>q \<in> set cs. fst q = c \<and> combine_key (snd q) = k \<and> \<not> is_utf8_3_char (snd q))) \<and>
    (\<forall>k c. combine_utf8_6_to_euc_map s k = Some c \<longrightarrow>
      (\<exists>q \<in> set cs. fst q = c \<and> combine_key (snd q) = k \<and> is_utf8_3_char (snd q)))"
  have "?P (fold store_combine cs t)"
  proof (rule fold_keep [where Q = ?P])
    fix q and s :: tables
    assume "q \<in> set cs" "?P s"
    then show "?P (store_combine q s)"
      using assms(1) by (auto simp: store_combine_effect)
  qed (use assms(2,3) in blast)
  then show "combine_utf8_4_to_euc_map (fold store_combine cs t) k = Some c \<Longrightarrow>
      \<exists>q \<in> set cs. fst q = c \<and> combine_key (snd q) = k \<and> \<not> is_utf8_3_char (snd q)"
    and "combine_utf8_6_to_euc_map (fold store_combine cs t) k = Some c \<Longrightarrow>
      \<exists>q \<in> set cs. fst q = c \<and> combine_key (snd q) = k \<and> is_utf8_3_char (snd q)"
    by blast+
qed

lemma plain_keeps_combine:
  assumes "entries_ok cs ps"
  shows "combine_euc_to_utf8_map (fold store_plain ps t) = combine_euc_to_utf8_map t"
    and "combine_utf8_4_to_euc_map (fold store_plain ps t) = combine_utf8_4_to_euc_map t"
    and "combine_utf8_6_to_euc_map (fold store_plain ps t) = combine_utf8_6_to_euc_map t"
proof -
  let ?P = "\<lambda>s. combine_euc_to_utf8_map s = combine_euc_to_utf8_map t
    \<and> combine_utf8_4_to_euc_map s = combine_utf8_4_to_euc_map t
    \<and> combine_utf8_6_to_euc_map s = combine_utf8_6_to_euc_map t"
  have "?P (fold store_plain (proper_entries ps) t)"
    by (rule fold_keep [where Q = ?P]) (use entries_ok_D [OF assms] in \<open>auto simp: store_plain_effect\<close>)
  then show "combine_euc_to_utf8_map (fold store_plain ps t) = combine_euc_to_utf8_map t"
    and "combine_utf8_4_to_euc_map (fold store_plain ps t) = combine_utf8_4_to_euc_map t"
    and "combine_utf8_6_to_euc_map (fold store_plain ps t) = combine_utf8_6_to_euc_map t"
    by (simp_all flip: fold_store_plain)
qed

text \<open>A combining code has no entry of its own in the two-byte vector.\<close>

lemma combine_lookup:
  assumes ok: "entries_ok cs ps" and q: "q \<in> set cs"
  shows "combine_euc_to_utf8_map (tables_for cs ps) (fst q) = Some (snd q)"
    and "euc_2_to_utf8_vec (tables_for cs ps) ! get_euc_2_to_utf8_vec_index (fst q ! 0) (fst q ! 1)
      = [0, 0, 0, 0]"
proof -
  have cs: "combine_shape y" if "y \<in> set cs" for y
    using ok that by (simp add: entries_ok_def list_all_iff)
  have d: "distinct (map fst cs)" using ok by (simp add: entries_ok_def)
  have "combine_euc_to_utf8_map (fold store_combine cs tables_new) (fst q) = Some (snd q)"
  proof (rule fold_lookup [where Inv = "\<lambda>_. True" and x = q])
    fix y and s :: tables
    assume y: "y \<in> set cs" "y \<noteq> q" "combine_euc_to_utf8_map s (fst q) = Some (snd q)"
    then have "fst y \<noteq> fst q" using distinct_key [OF d y(1) q] by blast
    with y show "combine_euc_to_utf8_map (store_combine y s) (fst q) = Some (snd q)"
      by (simp add: store_combine_effect cs)
  qed (use q cs in \<open>simp_all add: store_combine_effect\<close>)
  then show "combine_euc_to_utf8_map (tables_for cs ps) (fst q) = Some (snd q)"
    by (simp add: tables_for_def plain_keeps_combine [OF ok] fresh_vecs_def del: replicate_Suc)
  let ?i = "get_euc_2_to_utf8_vec_index (fst q ! 0) (fst q ! 1)"
  have i: "?i < Suc euc_2_to_utf8_vec_index_maximum" by (rule get_euc_2_to_utf8_vec_index_bound)
  have "code_shape (fst q)" "fst q ! 0 \<noteq> 0x8f"
    using cs [OF q] euc_2_lead(1) by (auto simp: combine_shape_def code_shape_def)
  note qc = this
  have "euc_2_to_utf8_vec (fold store_plain (proper_entries ps) t) ! ?i = [0, 0, 0, 0]"
    if "euc_2_to_utf8_vec t ! ?i = [0, 0, 0, 0]" for t
  proof (rule fold_keep [where Q = "\<lambda>s. euc_2_to_utf8_vec s ! ?i = [0, 0, 0, 0]"])
    fix y and s :: tables
    assume y: "y \<in> set (proper_entries ps)" and s: "euc_2_to_utf8_vec s ! ?i = [0, 0, 0, 0]"
    have "fst y \<noteq> fst q" using ok y q by (auto simp: entries_ok_def image_iff)
    then show "euc_2_to_utf8_vec (store_plain y s) ! ?i = [0, 0, 0, 0]"
      using qc s entries_ok_D [OF ok y] code_index_inj [of "fst y" "fst q"]
      by (cases "fst y ! 0 = 0x8f") (fastforce simp: store_plain_effect simp del: One_nat_def)+
  qed (rule that)
  then show "euc_2_to_utf8_vec (tables_for cs ps) ! ?i = [0, 0, 0, 0]"
    using i by (simp add: tables_for_def fresh_vecs_def flip: fold_store_plain del: replicate_Suc)
qed


section \<open>One character there and back\<close>

lemma utf8_part_cases:
  assumes "char_shape u"
  obtains a b where "u = [a, b, 0, 0]" "utf8_part u = [a, b]" "in_range 0xc2 0xdf a" "cont b"
  | a b c where "u = [a, b, c, 0]" "utf8_part u = [a, b, c]" "in_range 0xe0 0xef a" "cont b" "cont c"
  | a b c d where "u = [a, b, c, d]" "utf8_part u = [a, b, c, d]" "in_range 0xf0 0xf7 a"
      "cont b" "cont c" "cont d"
proof -
  obtain a b c d where u: "u = [a, b, c, d]"
    using assms by (auto simp: char_shape_def numeral_eq_Suc length_Suc_conv)
  have k: "cont b" "in_range 0xc2 0xdf a \<and> c = 0 \<and> d = 0 \<or> in_range 0xe0 0xef a \<and> cont c \<and> d = 0
      \<or> in_range 0xf0 0xf7 a \<and> cont c \<and> cont d"
    using assms by (auto simp: char_shape_def u)
  from k(2) show ?thesis
  proof (elim disjE conjE)
    assume "in_range 0xc2 0xdf a" "c = 0" "d = 0"
    then show ?thesis using k(1) that(1) [of a b]
      by (auto simp: u utf8_part_def push_to_buffer_utf8_def in_range_def word_le_nat_alt)
  next
    assume "in_range 0xe0 0xef a" "cont c" "d = 0"
    then show ?thesis using k(1) that(2) [of a b c]
      by (auto simp: u utf8_part_def push_to_buffer_utf8_def in_range_def word_le_nat_alt)
  next
    assume "in_range 0xf0 0xf7 a" "cont c" "cont d"
    then show ?thesis using k(1) that(3) [of a b c d]
      by (auto simp: u utf8_part_def push_to_buffer_utf8_def in_range_def word_le_nat_alt)
  qed
qed

lemma euc_part_code:
  assumes "code_shape c"
  shows "c ! 0 = 0x8f \<Longrightarrow> euc_part c = c"
    and "c ! 0 \<noteq> 0x8f \<Longrightarrow> euc_part c = [c ! 0, c ! 1]"
  using assms take_two [of c] euc_2_lead(4) [of "c ! 0" "c ! 1"]
  by (auto simp: euc_part_def push_to_buffer_euc_def code_shape_def word_le_nat_alt)

definition tables_of :: "table_entries \<Rightarrow> table_entries \<Rightarrow> tables \<Rightarrow> bool" where
  "tables_of cs ps T \<longleftrightarrow> entries_ok cs ps \<and> T = tables_for cs ps"

lemma vec_lengths_fresh: "vec_lengths (fresh_vecs t)"
  by (simp add: vec_lengths_def fresh_vecs_def del: replicate_Suc)

lemma decode_plain:
  assumes ok: "entries_ok cs ps" and p: "p \<in> set (proper_entries ps)"
  shows "decode_unit (tables_for cs ps) (euc_part (fst p) @ rest)
    = (utf8_part (snd p), length (euc_part (fst p)))"
proof -
  note look = plain_lookups [OF ok p vec_lengths_fresh, of "fold store_combine cs tables_new",
      folded tables_for_def]
  note c = entries_ok_D [OF ok p]
  show ?thesis
  proof (cases "fst p ! 0 = 0x8f")
    case True
    then show ?thesis
      using look(1) c by (simp add: euc_part_code decode_unit_def nth_append in_range_def or_escape_def)
  next
    case False
    moreover have "euc_2_code (fst p ! 0) (fst p ! 1)" using c(1) False by (simp add: code_shape_def)
    ultimately show ?thesis
      using look(2) c(1) char_shape_lead(2) [OF c(2)] euc_2_lead(3) [of "fst p ! 0" "fst p ! 1"]
      by (simp add: euc_part_code decode_unit_def or_escape_def euc_2_meaning_def Let_def)
  qed
qed

lemma decode_combined:
  assumes ok: "entries_ok cs ps" and q: "q \<in> set cs"
  shows "decode_unit (tables_for cs ps) (euc_part (fst q) @ rest)
    = (utf8_part (take 4 (snd q)) @ utf8_part (drop 4 (snd q)), length (euc_part (fst q)))"
proof -
  have "combine_shape q" using ok q by (simp add: entries_ok_def list_all_iff)
  then have c: "code_shape (fst q)" "euc_2_code (fst q ! 0) (fst q ! 1)" "fst q = [fst q ! 0, fst q ! 1, 0]"
    by (auto simp: combine_shape_def code_shape_def intro: code_3_eq)
  have "combine_euc_to_utf8_map (tables_for cs ps) [fst q ! 0, fst q ! 1, 0] = Some (snd q)"
    using combine_lookup(1) [OF ok q] c(3) by simp
  with c(1,2) show ?thesis
    using combine_lookup(2) [OF ok q] euc_2_lead [of "fst q ! 0" "fst q ! 1"]
    by (simp add: euc_part_code decode_unit_def or_escape_def euc_2_meaning_def Let_def)
qed

text \<open>A combining key is the two characters of the entry, and their code decodes to them.\<close>

lemma combine_key_parts:
  assumes "combine_shape q"
  shows "combine_key (snd q) = utf8_part (take 4 (snd q)) @ utf8_part (drop 4 (snd q))"
    and "is_utf8_3_char (snd q) \<Longrightarrow> length (utf8_part (take 4 (snd q))) = 3
      \<and> length (utf8_part (drop 4 (snd q))) = 3 \<and> in_range 0xe0 0xef (utf8_part (drop 4 (snd q)) ! 0)"
    and "\<not> is_utf8_3_char (snd q) \<Longrightarrow> length (utf8_part (take 4 (snd q))) = 2
      \<and> length (utf8_part (drop 4 (snd q))) = 2 \<and> in_range 0xc2 0xdf (utf8_part (drop 4 (snd q)) ! 0)"
    and "combine_key (snd q) ! 0 = snd q ! 0"
proof -
  obtain a b c d e f g h where v: "snd q = [a, b, c, d, e, f, g, h]"
    using combine_shape_lead(3) [OF assms] by (auto simp: numeral_eq_Suc length_Suc_conv)
  have s: "char_shape [a, b, c, d]" "char_shape [e, f, g, h]"
    and l: "in_range 0xc2 0xdf a \<and> in_range 0xc2 0xdf e \<or> in_range 0xe0 0xef a \<and> in_range 0xe0 0xef e"
    using assms by (simp_all add: combine_shape_def v is_utf8_3_char_def)
  have two: "utf8_part [x, y, z, w] = [x, y]"
    if "in_range 0xc2 0xdf x" "char_shape [x, y, z, w]" for x y z w
    using that(2) by (rule utf8_part_cases) (use that(1) lead_classes [of x] in auto)
  have three: "utf8_part [x, y, z, w] = [x, y, z]"
    if "in_range 0xe0 0xef x" "char_shape [x, y, z, w]" for x y z w
    using that(2) by (rule utf8_part_cases) (use that(1) lead_classes [of x] in auto)
  note defs = combine_key_def is_utf8_3_char_def v
  have all: "combine_key (snd q) = utf8_part (take 4 (snd q)) @ utf8_part (drop 4 (snd q)) \<and>
      (if is_utf8_3_char (snd q) then length (utf8_part (take 4 (snd q))) = 3
        \<and> length (utf8_part (drop 4 (snd q))) = 3 \<and> in_range 0xe0 0xef (utf8_part (drop 4 (snd q)) ! 0)
       else length (utf8_part (take 4 (snd q))) = 2
        \<and> length (utf8_part (drop 4 (snd q))) = 2 \<and> in_range 0xc2 0xdf (utf8_part (drop 4 (snd q)) ! 0))
      \<and> combine_key (snd q) ! 0 = snd q ! 0"
    using l
  proof (elim disjE conjE)
    assume "in_range 0xc2 0xdf a" "in_range 0xc2 0xdf e"
    then show ?thesis
      using two [OF _ s(1)] two [OF _ s(2)] lead_classes(2) [of a] by (simp add: defs)
  next
    assume "in_range 0xe0 0xef a" "in_range 0xe0 0xef e"
    then show ?thesis using three [OF _ s(1)] three [OF _ s(2)] by (simp add: defs)
  qed
  then show "combine_key (snd q) = utf8_part (take 4 (snd q)) @ utf8_part (drop 4 (snd q))"
    and "combine_key (snd q) ! 0 = snd q ! 0" by blast+
  show "is_utf8_3_char (snd q) \<Longrightarrow> length (utf8_part (take 4 (snd q))) = 3
      \<and> length (utf8_part (drop 4 (snd q))) = 3 \<and> in_range 0xe0 0xef (utf8_part (drop 4 (snd q)) ! 0)"
    using all by simp
  show "\<not> is_utf8_3_char (snd q) \<Longrightarrow> length (utf8_part (take 4 (snd q))) = 2
      \<and> length (utf8_part (drop 4 (snd q))) = 2 \<and> in_range 0xc2 0xdf (utf8_part (drop 4 (snd q)) ! 0)"
    using all by simp
qed

text \<open>What encoding the character at the front gives: its own code, or that of a combining entry.\<close>

lemma encode_plain:
  assumes ok: "entries_ok cs ps" and p: "p \<in> set (proper_entries ps)"
  defines "T \<equiv> tables_for cs ps" and "x \<equiv> utf8_part (snd p)"
  shows "encode_unit T (x @ rest) = (euc_part (fst p), length x)
    \<or> (\<exists>q \<in> set cs. encode_unit T (x @ rest) = (euc_part (fst q), length (combine_key (snd q)))
          \<and> take (length (combine_key (snd q))) (x @ rest) = combine_key (snd q))"
proof -
  note look = plain_lookups [OF ok p vec_lengths_fresh, of "fold store_combine cs tables_new",
      folded tables_for_def, folded T_def]
  have cs: "\<forall>q \<in> set cs. combine_shape q" using ok by (simp add: entries_ok_def list_all_iff)
  have from4: "\<exists>q \<in> set cs. fst q = c \<and> combine_key (snd q) = k \<and> \<not> is_utf8_3_char (snd q)"
    if "combine_utf8_4_to_euc_map T k = Some c" for k c
    using combine_maps_from(1) [OF cs, of tables_new k c] that
    by (simp add: T_def tables_for_def plain_keeps_combine [OF ok] fresh_vecs_def tables_new_def
        del: replicate_Suc)
  have from6: "\<exists>q \<in> set cs. fst q = c \<and> combine_key (snd q) = k \<and> is_utf8_3_char (snd q)"
    if "combine_utf8_6_to_euc_map T k = Some c" for k c
    using combine_maps_from(2) [OF cs, of tables_new k c] that
    by (simp add: T_def tables_for_def plain_keeps_combine [OF ok] fresh_vecs_def tables_new_def
        del: replicate_Suc)
  note c = entries_ok_D [OF ok p]
  have code: "fst p \<noteq> [0, 0, 0]"
    using c(1) euc_2_lead(4) [of "fst p ! 0" "fst p ! 1"] by (auto simp: code_shape_def)
  from c(2) show ?thesis
  proof (rule utf8_part_cases)
    fix a b
    assume u: "snd p = [a, b, 0, 0]" "utf8_part (snd p) = [a, b]" "in_range 0xc2 0xdf a" "cont b"
    have m: "utf8_2_4_to_euc_map T [a, b, 0, 0] = Some (fst p)"
      using look(4) u(1,3) lead_classes(2) [of a] by (simp add: is_utf8_3_char_def)
    show ?thesis
    proof (cases "4 \<le> length (x @ rest) \<and> is_candidate_combine_utf8_4 (x @ rest) 0
        \<and> combine_utf8_4_to_euc_map T (take 4 (x @ rest)) \<noteq> None")
      case True
      then obtain c where "combine_utf8_4_to_euc_map T (take 4 (x @ rest)) = Some c" by blast
      with from4 obtain q where q: "q \<in> set cs" "fst q = c" "combine_key (snd q) = take 4 (x @ rest)"
        by blast
      have "encode_unit T (x @ rest) = (euc_part (fst q), length (combine_key (snd q)))"
        using True q u lead_classes(2) [of a] \<open>combine_utf8_4_to_euc_map T (take 4 (x @ rest)) = Some c\<close>
        by (simp add: encode_unit_def x_def is_utf8_2_bytes_def is_enough_def Let_def)
      moreover have "take (length (combine_key (snd q))) (x @ rest) = combine_key (snd q)"
        using q(3) by (simp add: min_def)
      ultimately show ?thesis using q(1) by blast
    next
      case False
      then show ?thesis
        using u m lead_classes(2) [of a]
        by (auto simp: encode_unit_def x_def is_utf8_2_bytes_def is_enough_def or_escape_def Let_def)
    qed
  next
    fix a b c'
    assume u: "snd p = [a, b, c', 0]" "utf8_part (snd p) = [a, b, c']" "in_range 0xe0 0xef a"
      "cont b" "cont c'"
    have ix: "get_utf8_3_to_euc_vec_index [a, b, c', 0] = get_utf8_3_to_euc_vec_index [a, b, c']"
      by (simp add: get_utf8_3_to_euc_vec_index_def numeral_2_eq_2)
    have m: "utf8_3_meaning T [a, b, c'] = Some (euc_part (fst p))"
      using look(3) u(1,3) code by (simp add: is_utf8_3_char_def utf8_3_meaning_def ix)
    show ?thesis
    proof (cases "6 \<le> length (x @ rest) \<and> is_candidate_combine_utf8_6 (x @ rest) 0
        \<and> combine_utf8_6_to_euc_map T (take 6 (x @ rest)) \<noteq> None")
      case True
      then obtain c where "combine_utf8_6_to_euc_map T (take 6 (x @ rest)) = Some c" by blast
      with from6 obtain q where q: "q \<in> set cs" "fst q = c" "combine_key (snd q) = take 6 (x @ rest)"
        by blast
      have "encode_unit T (x @ rest) = (euc_part (fst q), length (combine_key (snd q)))"
        using True q u lead_classes(1) [of a] \<open>combine_utf8_6_to_euc_map T (take 6 (x @ rest)) = Some c\<close>
        by (simp add: encode_unit_def x_def is_utf8_3_bytes_def is_enough_def Let_def)
      moreover have "take (length (combine_key (snd q))) (x @ rest) = combine_key (snd q)"
        using q(3) by (simp add: min_def)
      ultimately show ?thesis using q(1) by blast
    next
      case False
      then show ?thesis
        using u m lead_classes(1) [of a]
        by (auto simp: encode_unit_def x_def is_utf8_3_bytes_def is_enough_def or_escape_def Let_def)
    qed
  next
    fix a b c' d
    assume u: "snd p = [a, b, c', d]" "utf8_part (snd p) = [a, b, c', d]" "in_range 0xf0 0xf7 a"
      "cont b" "cont c'" "cont d"
    have "utf8_2_4_to_euc_map T [a, b, c', d] = Some (fst p)"
      using look(4) u(1,3) lead_classes(3) [of a] by (simp add: is_utf8_3_char_def)
    then show ?thesis
      using u lead_classes(3) [of a]
      by (auto simp: encode_unit_def x_def is_utf8_4_bytes_def is_enough_def or_escape_def Let_def)
  qed
qed

section \<open>Round trip\<close>

definition char_len :: "u8 \<Rightarrow> nat" where
  "char_len b = (if b \<le> 0x7f then 1 else if in_range 0xc2 0xdf b then 2
     else if in_range 0xe0 0xef b then 3 else 4)"

lemma repertoire_length:
  assumes "entries_ok cs ps" "x \<in> repertoire ps"
  shows "x \<noteq> []" "length x = char_len (x ! 0)"
proof -
  have "x \<noteq> [] \<and> length x = char_len (x ! 0)"
    using assms(2) unfolding repertoire_def
  proof (elim UnE imageE)
    fix p
    assume "x = utf8_part (snd p)" "p \<in> set (proper_entries ps)"
    moreover have "char_shape (snd p)" using entries_ok_D(2) [OF assms(1)] calculation(2) .
    ultimately show ?thesis
      using lead_classes [of "x ! 0"] by (elim utf8_part_cases) (simp_all add: char_len_def)
  qed (auto simp: char_len_def)
  then show "x \<noteq> []" "length x = char_len (x ! 0)" by blast+
qed


lemma split_pair:
  assumes ok: "entries_ok cs ps" and xs: "set (x # xs) \<subseteq> repertoire ps"
    and q: "combine_shape q" and x: "in_range 0xc2 0xdf (x ! 0) \<or> in_range 0xe0 0xef (x ! 0)"
    and lead: "is_utf8_3_char (snd q) \<longleftrightarrow> in_range 0xe0 0xef (x ! 0)"
    and key: "take (length (combine_key (snd q))) (concat (x # xs)) = combine_key (snd q)"
  shows "\<exists>y ys. xs = y # ys \<and> x = utf8_part (take 4 (snd q)) \<and> y = utf8_part (drop 4 (snd q))"
proof -
  define a b where "a = utf8_part (take 4 (snd q))" and "b = utf8_part (drop 4 (snd q))"
  note parts = combine_key_parts [OF q, folded a_def b_def]
  have k: "take (length a + length b) (x @ concat xs) = a @ b" using key parts(1) by simp
  have lx: "length x = char_len (x ! 0)" using repertoire_length [OF ok, of x] xs by simp
  have la: "length a = length x"
  proof (cases "is_utf8_3_char (snd q)")
    case True
    then show ?thesis using lx parts(2) lead lead_classes(1) [of "x ! 0"] by (simp add: char_len_def)
  next
    case False
    then have "in_range 0xc2 0xdf (x ! 0)" using lead x by blast
    then show ?thesis using False lx parts(3) lead_classes(2) [of "x ! 0"] by (simp add: char_len_def)
  qed
  have "take (length a) (take (length a + length b) (x @ concat xs)) = a" unfolding k by simp
  then have ax: "x = a" using la by (simp add: min_def)
  then have kb: "take (length b) (concat xs) = b" using k by simp
  have "b \<noteq> []" using parts(2,3) by (cases "is_utf8_3_char (snd q)") auto
  with kb obtain y ys where xs': "xs = y # ys" by (cases xs) auto
  have y: "y \<noteq> []" "length y = char_len (y ! 0)" using repertoire_length [OF ok, of y] xs xs' by auto
  have "b ! 0 = y ! 0"
    using arg_cong [OF kb, of "\<lambda>l. l ! 0"] y(1) \<open>b \<noteq> []\<close> by (simp add: xs' nth_append)
  then have "length b = length y"
    using y(2) parts(2,3) lead_classes(1,2) [of "b ! 0"]
    by (cases "is_utf8_3_char (snd q)") (simp_all add: char_len_def)
  then have "y = b" using kb xs' by simp
  with xs' ax show ?thesis by (simp add: a_def b_def)
qed

lemma scan_roundtrip:
  assumes ok: "entries_ok cs ps"
  defines "T \<equiv> tables_for cs ps"
  shows "set xs \<subseteq> repertoire ps \<Longrightarrow>
    scan (decode_unit T) (scan (encode_unit T) (concat xs)) = concat xs"
proof (induction "length xs" arbitrary: xs rule: less_induct)
  case less
  have emit: "scan (decode_unit T) (scan (encode_unit T) (u @ s)) = w @ s"
    if "encode_unit T (u @ s) = (c, n)" "drop n (u @ s) = s'" "u \<noteq> []" "c \<noteq> []"
      "\<And>r. decode_unit T (c @ r) = (w', length c)" "w' @ s' = w @ s"
      "scan (decode_unit T) (scan (encode_unit T) s') = s'" for u s c n s' w w'
    using that enc.scan_char [of "u @ s" T] dec.scan_char [of "c @ scan (encode_unit T) s'" T] by simp
  show ?case
  proof (cases xs)
    case (Cons x ys)
    have x: "x \<in> repertoire ps" and ys: "set ys \<subseteq> repertoire ps" using less.prems Cons by simp_all
    have IH: "scan (decode_unit T) (scan (encode_unit T) (concat zs)) = concat zs"
      if "length zs < length xs" "set zs \<subseteq> set ys" for zs
      using less.hyps that ys by blast
    note x_ne = repertoire_length(1) [OF ok x]
    from x consider b where "x = [b]" "b \<le> 0x7f"
      | p where "p \<in> set (proper_entries ps)" "x = utf8_part (snd p)"
      by (auto simp: repertoire_def)
    then show ?thesis
    proof cases
      case (1 b)
      show ?thesis
        using emit [of x "concat ys" "[b]" 1 "concat ys" "[b]" x] 1 IH [of ys] Cons
        by (simp add: encode_unit_ascii decode_unit_ascii)
    next
      case (2 p)
      have code_ne: "euc_part c \<noteq> []" if "length c = 3" for c
        using that by (auto simp: euc_part_def push_to_buffer_euc_def)
      from encode_plain [OF ok 2(1), of "concat ys", folded T_def] show ?thesis
      proof
        assume "encode_unit T (utf8_part (snd p) @ concat ys) = (euc_part (fst p), length (utf8_part (snd p)))"
        then show ?thesis
          using emit [of x "concat ys" "euc_part (fst p)" "length x" "concat ys" x x] 2 x_ne code_ne [OF entries_ok_D(3) [OF ok 2(1)]]
            decode_plain [OF ok 2(1), folded T_def] IH [of ys] Cons
          by simp
      next
        assume "\<exists>q \<in> set cs. encode_unit T (utf8_part (snd p) @ concat ys)
              = (euc_part (fst q), length (combine_key (snd q)))
            \<and> take (length (combine_key (snd q))) (utf8_part (snd p) @ concat ys) = combine_key (snd q)"
        then obtain q where q: "q \<in> set cs"
          "encode_unit T (x @ concat ys) = (euc_part (fst q), length (combine_key (snd q)))"
          "take (length (combine_key (snd q))) (x @ concat ys) = combine_key (snd q)"
          using 2 by blast
        have shape: "combine_shape q" using ok q(1) by (simp add: entries_ok_def list_all_iff)
        have lead: "(in_range 0xc2 0xdf (x ! 0) \<or> in_range 0xe0 0xef (x ! 0))
          \<and> (is_utf8_3_char (snd q) \<longleftrightarrow> in_range 0xe0 0xef (x ! 0))"
        proof -
          have "combine_key (snd q) \<noteq> []"
            using combine_key_parts(1-3) [OF shape] by (cases "is_utf8_3_char (snd q)") auto
          then have "x ! 0 = combine_key (snd q) ! 0"
            using arg_cong [OF q(3), of "\<lambda>l. l ! 0"] x_ne by (simp add: nth_append)
          then have "x ! 0 = snd q ! 0" using combine_key_parts(4) [OF shape] by simp
          with shape show ?thesis by (auto simp: combine_shape_def is_utf8_3_char_def)
        qed
        obtain y zs where y: "ys = y # zs" "x = utf8_part (take 4 (snd q))" "y = utf8_part (drop 4 (snd q))"
          using split_pair [OF ok, of x ys q] x ys shape lead q(3) by auto
        have IHz: "scan (decode_unit T) (scan (encode_unit T) (concat zs)) = concat zs"
          using IH [of zs] Cons y(1) by auto
        have k: "combine_key (snd q) = x @ y" using combine_key_parts(1) [OF shape] y by simp
        show ?thesis
          using emit [of "x @ y" "concat zs" "euc_part (fst q)" "length (x @ y)" "concat zs" "x @ y" "x @ y"]
            q(2) k y x_ne code_ne [OF combine_shape_lead(2) [OF shape]] decode_combined [OF ok q(1), folded T_def] IHz Cons
          by simp
      qed
    qed
  qed simp
qed


text \<open>
  \<open>entries_ok\<close> tables are set up without an error, and then every text over their characters comes
  back.
\<close>

lemma setup_ok_entries:
  assumes "entries_ok cs ps" "length cs < 2 ^ 32" "length ps < 2 ^ 32"
  shows "encoding_table_setup e (table_bytes e cs ps) tables_new = Ok (tables_for cs ps)"
proof -
  have "sized_entries 8 cs" "list_all combine_lead_ok cs" "sized_entries 4 ps"
    using assms(1) combine_shape_lead by (auto simp: entries_ok_def sized_entries_def list_all_iff)
  from setup_table_bytes [OF this assms(2,3), of e "[]"] show ?thesis by simp
qed

lemma encode_decode_repertoire:
  assumes ok: "entries_ok cs ps" and sizes: "length cs < 2 ^ 32" "length ps < 2 ^ 32"
    and t: "encoding_table_setup e (table_bytes e cs ps) tables_new = Ok t"
    and xs: "set xs \<subseteq> repertoire ps"
  shows "\<exists>euc. encode t (concat xs) = Ok euc \<and> decode t euc = Ok (concat xs)"
proof -
  have "t = tables_for cs ps" using setup_ok_entries [OF ok sizes, of e] t by simp
  with setup_tables_wf [OF t] scan_roundtrip [OF ok xs] show ?thesis
    by (simp add: encode_eq_scan decode_eq_scan)
qed


section \<open>Properties\<close>


definition sample_combining :: table_entries where
  "sample_combining = [([0xa4, 0xf7, 0], [0xe3, 0x81, 0x8b, 0, 0xe3, 0x82, 0x9a, 0]),
     ([0xab, 0xc4, 0], [0xc3, 0xa6, 0, 0, 0xcc, 0x80, 0, 0])]"

definition sample_entries :: table_entries where
  "sample_entries = [([0x41, 0, 0], [0x41, 0, 0, 0]), ([0xa4, 0xab, 0], [0xe3, 0x81, 0x8b, 0]),
     ([0xa1, 0xac, 0], [0xe3, 0x82, 0x9a, 0]), ([0xa9, 0xdc, 0], [0xc3, 0xa6, 0, 0]),
     ([0xab, 0xd0, 0], [0xcc, 0x80, 0, 0]), ([0x8f, 0xfe, 0xa5], [0xf0, 0xa9, 0xbf, 0x8e])]"

lemma sample_proper: "proper_entries sample_entries = tl sample_entries"
  by (simp add: proper_entries_def ascii_entry_def sample_entries_def)

lemma sample_entries_ok: "entries_ok sample_combining sample_entries"
  unfolding entries_ok_def sample_proper
  by (simp add: sample_combining_def sample_entries_def combine_shape_def char_shape_def code_shape_def
      euc_2_code_def in_range_def is_utf8_3_char_def get_utf8_3_to_euc_vec_index_def Let_def
      utf8_3_to_euc_vec_index_raw_minimum_def utf8_3_to_euc_vec_index_maximum_def push_bit_eq_mult)

lemma sample_repertoire:
  "{[0x41], [0xe3, 0x81, 0x8b], [0xe3, 0x82, 0x9a], [0xf0, 0xa9, 0xbf, 0x8e]} \<subseteq> repertoire sample_entries"
proof -
  show ?thesis
    unfolding repertoire_def sample_proper
    by (auto simp: sample_entries_def image_iff utf8_part_def push_to_buffer_utf8_def)
qed


text \<open>C21: after any successful setup, encoding and decoding never fail and never read out of range,
  whatever the input, and give what the character-by-character specification says.\<close>

theorem codec_total:
  assumes "encoding_table_setup e table tables_new = Ok t"
  shows "encode t s = Ok (scan (encode_unit t) s) \<and> decode t s = Ok (scan (decode_unit t) s)"
  using setup_tables_wf [OF assms] by (simp add: encode_eq_scan decode_eq_scan)

lemma codec_total_witness:
  "encode (tables_for sample_combining sample_entries) [0xe3, 0x81, 0xff]
     = Ok (scan (encode_unit (tables_for sample_combining sample_entries)) [0xe3, 0x81, 0xff])
   \<and> decode (tables_for sample_combining sample_entries) [0xe3, 0x81, 0xff]
     = Ok (scan (decode_unit (tables_for sample_combining sample_entries)) [0xe3, 0x81, 0xff])"
  by (rule codec_total [OF setup_ok_entries [OF sample_entries_ok, of Little]])
    (simp_all add: sample_combining_def sample_entries_def)

text \<open>C23: ASCII text is its own encoding and its own decoding, whatever the tables.\<close>

theorem ascii_unchanged:
  assumes "tables_wf t" and "is_ascii_text s"
  shows "encode t s = Ok s \<and> decode t s = Ok s"
  using assms scan_ascii [of s t "[]"] by (simp add: encode_eq_scan decode_eq_scan)

lemma ascii_unchanged_witness:
  "encode (fresh_vecs tables_new) [0x2f, 0x41, 0x2f] = Ok [0x2f, 0x41, 0x2f]
   \<and> decode (fresh_vecs tables_new) [0x2f, 0x41, 0x2f] = Ok [0x2f, 0x41, 0x2f]"
  by (rule ascii_unchanged, rule fresh_vecs_wf)
    (simp_all add: maps_wf_def tables_new_def is_ascii_text_def)

text \<open>C24: the fold of the vector index is compared before the minimum is subtracted, so two characters
  whose code points differ by the width of the gap, one on each side of it, share an index and are
  encoded alike: an unmapped character becomes the code of another one instead of an escape.\<close>

theorem index_fold_collision:
  assumes "tables_wf t" and "utf8_3_shape u" "utf8_3_shape v" "length u = 3" "length v = 3"
    and "utf8_3_code_point u > 0xdade" and "utf8_3_code_point v = utf8_3_code_point u - 0x5979"
    and "utf8_3_meaning t v = Some c"
  shows "encode t u = Ok c"
proof -
  have r: "unat (u ! 0) \<le> 0xef" "unat (u ! 1) \<le> 0xbf" "unat (u ! 2) \<le> 0xbf"
    using assms(2) by (auto simp: utf8_3_shape_def in_range_def word_le_nat_alt)
  have "utf8_3_code_point u \<le> 0xffff" unfolding utf8_3_code_point_def using r by simp
  then have "fold_code_point (utf8_3_code_point u) = fold_code_point (utf8_3_code_point v)"
    using assms(6,7) by (simp add: fold_code_point_def)
  then have ix: "get_utf8_3_to_euc_vec_index u = get_utf8_3_to_euc_vec_index v"
    by (simp add: utf8_3_index_value assms(2,3))
  have "is_utf8_3_bytes u 0" "in_range 0xe0 0xef (u ! 0)"
    using assms(2,4) by (simp_all add: is_utf8_3_bytes_def is_enough_def utf8_3_shape_def numeral_2_eq_2)
  then have "encode_unit t u = (c, 3)"
    using assms(4,8) ix by (simp add: encode_unit_def or_escape_def utf8_3_meaning_def)
  then show ?thesis
    using enc.scan_char [of u t] assms(4) encode_eq_scan [OF assms(1)] by force
qed


text \<open>With a table that maps the ideograph U+8687, the private character U+E000 becomes its code.\<close>

lemma index_fold_collision_witness:
  "encode (tables_for [] [([0xd2, 0xe3, 0], [0xe8, 0x9a, 0x87, 0])]) [0xee, 0x80, 0x80] = Ok [0xd2, 0xe3]"
proof -
  let ?ps = "[([0xd2, 0xe3, 0], [0xe8, 0x9a, 0x87, 0])] :: table_entries"
  have pr: "proper_entries ?ps = ?ps" by (simp add: proper_entries_def ascii_entry_def)
  have ok: "entries_ok [] ?ps"
    by (simp add: entries_ok_def pr char_shape_def code_shape_def euc_2_code_def in_range_def)
  have wf: "tables_wf (tables_for [] ?ps)"
    using setup_tables_wf [OF setup_ok_entries [OF ok, of Little]] by simp
  have "utf8_3_to_euc_vec (tables_for [] ?ps) ! get_utf8_3_to_euc_vec_index [0xe8, 0x9a, 0x87, 0]
      = [0xd2, 0xe3, 0]"
    using plain_lookups(3) [OF ok _ vec_lengths_fresh, of "hd ?ps" tables_new]
    by (simp add: pr is_utf8_3_char_def in_range_def tables_for_def)
  moreover have "get_utf8_3_to_euc_vec_index [0xe8, 0x9a, 0x87, 0] = get_utf8_3_to_euc_vec_index [0xe8, 0x9a, 0x87]"
    by (simp add: get_utf8_3_to_euc_vec_index_def numeral_2_eq_2)
  ultimately have m: "utf8_3_meaning (tables_for [] ?ps) [0xe8, 0x9a, 0x87] = Some [0xd2, 0xe3]"
    by (simp add: utf8_3_meaning_def euc_part_def push_to_buffer_euc_def)
  show ?thesis
    by (rule index_fold_collision [OF wf _ _ _ _ _ _ m])
      (simp_all add: utf8_3_shape_def utf8_3_code_point_def in_range_def)
qed

end
