(* ===== verification/Table_Source.thy ===== *)
theory Table_Source
  imports Encoding_Table Std_Text
begin

text \<open>
  The generator half of \<open>src/skk/encoding_simple/encoding_table.rs\<close>: code points and hexadecimal
  EUC codes turned into bytes, and the two functions that read \<open>euc-jis-2004-std.txt\<close> and write a
  table, as bytes (\<open>create_table\<close>) or as Rust source (\<open>create_src_table\<close>). The two regular
  expressions are a parameter, as the \<open>regex\<close> package is not part of the repository. Lemmas: UTF-8 of
  a code point decodes to it, and \<open>encoding_table_setup\<close> reads back what \<open>create_table\<close> wrote.
\<close>

section \<open>Code points and hexadecimal codes\<close>

definition convert_unicode_to_utf8 :: "u32 \<Rightarrow> bytes \<Rightarrow> nat \<times> bytes" where
  "convert_unicode_to_utf8 unicode result_utf8 =
     (if unicode \<le> 0x7f then (1, result_utf8[0 := ucast unicode])
      else if unicode \<le> 0x7ff then
        (2, result_utf8[0 := ucast ((drop_bit 6 unicode AND 0x1f) + 0xc0),
                        1 := ucast ((unicode AND 0x3f) + 0x80)])
      else if unicode \<le> 0xffff then
        (3, result_utf8[0 := ucast ((drop_bit 12 unicode AND 0xf) + 0xe0),
                        1 := ucast ((drop_bit 6 unicode AND 0x3f) + 0x80),
                        2 := ucast ((unicode AND 0x3f) + 0x80)])
      else if unicode \<le> 0x1fffff then
        (4, result_utf8[0 := ucast ((drop_bit 18 unicode AND 0x7) + 0xf0),
                        1 := ucast ((drop_bit 12 unicode AND 0x3f) + 0x80),
                        2 := ucast ((drop_bit 6 unicode AND 0x3f) + 0x80),
                        3 := ucast ((unicode AND 0x3f) + 0x80)])
      else (0, result_utf8))"

text \<open>The result and the final value of \<open>is_combine\<close>, which the caller passes as \<open>False\<close>.\<close>

definition convert_unicode_code_to_utf8_8_bytes :: "bytes \<Rightarrow> (bytes \<times> bool) res" where
  "convert_unicode_code_to_utf8_8_bytes unicode_code =
     (let zero = replicate 4 0;
          convert = (\<lambda>digits. map_option (\<lambda>n. snd (convert_unicode_to_utf8 (of_nat n) zero))
                                (from_str_radix 16 (2 ^ 32 - 1) digits))
      in if length unicode_code = 6 then
           and_then (str_slice unicode_code 2 6) (\<lambda>digits.
             Ok ((case convert digits of None \<Rightarrow> zero | Some u \<Rightarrow> u) @ zero, False))
         else if length unicode_code = 7 then
           and_then (str_slice unicode_code 2 7) (\<lambda>digits.
             Ok ((case convert digits of None \<Rightarrow> zero | Some u \<Rightarrow> u) @ zero, False))
         else if length unicode_code = 11 then
           and_then (str_slice unicode_code 2 6) (\<lambda>digits.
             (case convert digits of
                None \<Rightarrow> Ok (zero @ zero, False)
              | Some u \<Rightarrow> and_then (str_slice unicode_code 7 11) (\<lambda>digits2.
                  (case convert digits2 of
                     None \<Rightarrow> Ok (u @ zero, False)
                   | Some v \<Rightarrow> Ok (u @ v, True)))))
         else Err EncodingError)"

definition hex_byte_at :: "bytes \<Rightarrow> nat \<Rightarrow> u8 res" where
  "hex_byte_at code i = and_then (str_slice code i (i + 2)) (\<lambda>digits.
     (case from_str_radix 16 255 digits of None \<Rightarrow> Err Parse | Some n \<Rightarrow> Ok (of_nat n)))"

definition convert_euc_code_to_euc_3_bytes :: "bytes \<Rightarrow> bytes res" where
  "convert_euc_code_to_euc_3_bytes euc_code =
     (if length euc_code = 4 then
        and_then (hex_byte_at euc_code 2) (\<lambda>a. Ok [a, 0, 0])
      else if length euc_code = 6 then
        and_then (hex_byte_at euc_code 2) (\<lambda>a. and_then (hex_byte_at euc_code 4) (\<lambda>b. Ok [a, b, 0]))
      else if length euc_code = 8 then
        and_then (hex_byte_at euc_code 2) (\<lambda>a. and_then (hex_byte_at euc_code 4) (\<lambda>b.
        and_then (hex_byte_at euc_code 6) (\<lambda>c. Ok [a, b, c])))
      else Err EncodingError)"

section \<open>The table writers\<close>

record line_patterns =
  re_comment :: "bytes \<Rightarrow> bool"
  re_line :: "bytes \<Rightarrow> (bytes \<times> bytes) option"

text \<open>
  The lines of the file are read one by one; \<open>read_line\<close> fails on invalid UTF-8. \<open>None\<close> is the
  line of a comment, or one that does not match.
\<close>

definition read_entry :: "line_patterns \<Rightarrow> bytes \<Rightarrow> (bytes \<times> bytes \<times> bool) option res" where
  "read_entry pats line =
     (if \<not> utf8_valid line then Err Io
      else if re_comment pats line then Ok None
      else (case re_line pats line of
              None \<Rightarrow> Ok None
            | Some (base_euc, base_unicode) \<Rightarrow>
                and_then (convert_euc_code_to_euc_3_bytes base_euc) (\<lambda>euc_3.
                and_then (convert_unicode_code_to_utf8_8_bytes base_unicode) (\<lambda>(utf8_8, is_combine).
                Ok (Some (euc_3, utf8_8, is_combine))))))"

record table_buffers =
  combine_count :: u32
  plain_count :: u32
  combine_buffer :: bytes
  plain_buffer :: bytes

fun create_table_lines :: "line_patterns \<Rightarrow> bytes list \<Rightarrow> table_buffers \<Rightarrow> table_buffers res" where
  "create_table_lines pats [] b = Ok b"
| "create_table_lines pats (line # ls) b =
     and_then (read_entry pats line) (\<lambda>r.
     (case r of
        None \<Rightarrow> create_table_lines pats ls b
      | Some (euc_3, utf8_8, is_combine) \<Rightarrow>
          create_table_lines pats ls
            (if is_combine then
               b\<lparr>combine_count := combine_count b + 1,
                 combine_buffer := combine_buffer b @ euc_3 @ utf8_8\<rparr>
             else
               b\<lparr>plain_count := plain_count b + 1,
                 plain_buffer := plain_buffer b @ euc_3 @ take 4 utf8_8\<rparr>)))"

definition create_table :: "endianness \<Rightarrow> line_patterns \<Rightarrow> bytes res \<Rightarrow> bytes res" where
  "create_table e pats file =
     and_then file (\<lambda>content.
     and_then (create_table_lines pats (lines_of content)
        \<lparr>combine_count = 0, plain_count = 0, combine_buffer = [], plain_buffer = []\<rparr>) (\<lambda>b.
     Ok (u32_to_ne e 1 @ u32_to_ne e 32 @ u32_to_ne e (combine_count b) @ u32_to_ne e (plain_count b)
        @ replicate 16 0 @ combine_buffer b @ plain_buffer b)))"

text \<open>\<open>0x{:>02x},\<close> for each byte.\<close>

definition hex_literals :: "bytes \<Rightarrow> bytes" where
  "hex_literals bs = concat (map (\<lambda>b. ascii ''0x'' @ hex2 b @ ascii '','') bs)"

definition write_4_bytes :: "bytes \<Rightarrow> bytes \<Rightarrow> bytes \<Rightarrow> bytes" where
  "write_4_bytes string buffer suffix = string @ hex_literals (take 4 buffer) @ suffix @ [lf]"

fun create_src_table_lines :: "line_patterns \<Rightarrow> bytes list \<Rightarrow> table_buffers \<Rightarrow> table_buffers res" where
  "create_src_table_lines pats [] b = Ok b"
| "create_src_table_lines pats (line # ls) b =
     and_then (read_entry pats line) (\<lambda>r.
     (case r of
        None \<Rightarrow> create_src_table_lines pats ls b
      | Some (euc_3, utf8_8, is_combine) \<Rightarrow>
          create_src_table_lines pats ls
            (if is_combine then
               b\<lparr>combine_count := combine_count b + 1,
                 combine_buffer := combine_buffer b @ hex_literals euc_3 @ hex_literals utf8_8 @ [lf]\<rparr>
             else
               b\<lparr>plain_count := plain_count b + 1,
                 plain_buffer := write_4_bytes (plain_buffer b @ hex_literals euc_3) utf8_8 []\<rparr>)))"

definition create_src_table :: "endianness \<Rightarrow> line_patterns \<Rightarrow> bytes res \<Rightarrow> bytes res" where
  "create_src_table e pats file =
     and_then file (\<lambda>content.
     and_then (create_src_table_lines pats (lines_of content)
        \<lparr>combine_count = 0, plain_count = 0,
         combine_buffer = ascii ''// euc_utf8_combine'' @ [lf]
           @ ascii ''// euc 3 bytes, utf8 4 bytes, utf8 4 bytes'' @ [lf],
         plain_buffer = ascii ''// euc_utf8'' @ [lf] @ ascii ''// euc 3 bytes, utf8 4 bytes'' @ [lf]\<rparr>)
       (\<lambda>b.
     let result = ascii ''// header'' @ [lf];
         result = write_4_bytes result (u32_to_ne e 1) (ascii ''    // version'');
         result = write_4_bytes result (u32_to_ne e 32) (ascii ''    // header_length'');
         result = write_4_bytes result (u32_to_ne e (combine_count b))
                    (ascii ''    // euc_utf8_combine_length'');
         result = write_4_bytes result (u32_to_ne e (plain_count b)) (ascii ''    // euc_utf8_length'');
         result = write_4_bytes result (replicate 4 0) (ascii ''    // reserved'');
         result = write_4_bytes result (replicate 4 0) (ascii ''    // reserved'');
         result = write_4_bytes result (replicate 4 0) (ascii ''    // reserved'');
         result = write_4_bytes result (replicate 4 0) (ascii ''    // reserved'')
     in Ok (result @ combine_buffer b @ plain_buffer b)))"

section \<open>UTF-8 of a code point\<close>

text \<open>The code point that a sequence of one to four bytes stands for.\<close>

definition utf8_scalar :: "bytes \<Rightarrow> nat" where
  "utf8_scalar bs =
     (case map unat bs of
        [a] \<Rightarrow> a
      | [a, b] \<Rightarrow> (a - 0xc0) * 64 + (b - 0x80)
      | [a, b, c] \<Rightarrow> ((a - 0xe0) * 64 + (b - 0x80)) * 64 + (c - 0x80)
      | [a, b, c, d] \<Rightarrow> (((a - 0xf0) * 64 + (b - 0x80)) * 64 + (c - 0x80)) * 64 + (d - 0x80)
      | _ \<Rightarrow> 0)"

lemma masked_unat:
  fixes u :: u32
  shows "unat (u AND 0x3f) = unat u mod 64" "unat (u AND 0x1f) = unat u mod 32"
    "unat (u AND 0xf) = unat u mod 16" "unat (u AND 0x7) = unat u mod 8"
proof -
  have "unat (u AND mask n) = unat u mod 2 ^ n" for n
    by (metis take_bit_eq_mask unsigned_take_bit_eq take_bit_eq_mod)
  from this [of 6] this [of 5] this [of 4] this [of 3]
  show "unat (u AND 0x3f) = unat u mod 64" "unat (u AND 0x1f) = unat u mod 32"
    "unat (u AND 0xf) = unat u mod 16" "unat (u AND 0x7) = unat u mod 8"
    by (simp_all add: mask_eq_exp_minus_1)
qed

lemma shifted_unat: "unat (drop_bit n u :: u32) = unat u div 2 ^ n"
  by (rule trans [OF unat_drop_bit_eq drop_bit_eq_div])

lemma unat_ucast_add:
  "unat (a :: u32) + k < 256 \<Longrightarrow> unat (ucast (a + of_nat k) :: u8) = unat a + k"
  by (simp add: unsigned_ucast_eq take_bit_eq_mod unat_word_ariths unsigned_of_nat)

lemma unat_cont_byte: "unat (ucast (((w :: u32) AND 0x3f) + 0x80) :: u8) = unat w mod 64 + 0x80"
proof -
  have "unat (w AND 0x3f) + 0x80 < 256"
    using mod_less_divisor [of 64 "unat w"] by (simp add: masked_unat)
  from unat_ucast_add [OF this] show ?thesis by (simp add: masked_unat)
qed

lemmas utf8_byte_values = unat_cont_byte masked_unat(2-4) shifted_unat
  unat_ucast_add [where k = "0xc0", simplified]
  unat_ucast_add [where k = "0xe0", simplified] unat_ucast_add [where k = "0xf0", simplified]

lemma base_64:
  fixes n :: nat
  shows "n div 64 div 64 * 4096 + n div 64 mod 64 * 64 + n mod 64 = n"
  using div_mult_mod_eq [of n 64] div_mult_mod_eq [of "n div 64" 64] by linarith

definition utf8_of_unicode :: "u32 \<Rightarrow> bytes" where
  "utf8_of_unicode u = take (fst (convert_unicode_to_utf8 u (replicate 4 0)))
     (snd (convert_unicode_to_utf8 u (replicate 4 0)))"

lemma utf8_of_unicode_bytes:
  "utf8_of_unicode u =
     (if u \<le> 0x7f then [ucast u]
      else if u \<le> 0x7ff then
        [ucast ((drop_bit 6 u AND 0x1f) + 0xc0), ucast ((u AND 0x3f) + 0x80)]
      else if u \<le> 0xffff then
        [ucast ((drop_bit 12 u AND 0xf) + 0xe0), ucast ((drop_bit 6 u AND 0x3f) + 0x80),
         ucast ((u AND 0x3f) + 0x80)]
      else if u \<le> 0x1fffff then
        [ucast ((drop_bit 18 u AND 0x7) + 0xf0), ucast ((drop_bit 12 u AND 0x3f) + 0x80),
         ucast ((drop_bit 6 u AND 0x3f) + 0x80), ucast ((u AND 0x3f) + 0x80)]
      else [])"
proof -
  have r: "replicate 4 (0 :: u8) = [0, 0, 0, 0]" by (simp add: numeral_eq_Suc)
  have l: "[0, 0, 0, 0][0 := a, 1 := b] = [a, b, 0, 0]"
    "[0, 0, 0, 0][0 := a, 1 := b, 2 := c] = [a, b, c, 0]"
    "[0, 0, 0, 0][0 := a, 1 := b, 2 := c, 3 := d] = [a, b, c, d]" for a b c d :: u8
    by (simp_all add: numeral_2_eq_2 numeral_3_eq_3)
  show ?thesis
    unfolding utf8_of_unicode_def convert_unicode_to_utf8_def r l by simp
qed

lemma utf8_of_unicode_scalar:
  assumes "u \<le> 0x1fffff"
  shows "utf8_scalar (utf8_of_unicode u) = unat u"
proof -
  consider "unat u \<le> 0x7f" | "0x7f < unat u" "unat u \<le> 0x7ff"
    | "0x7ff < unat u" "unat u \<le> 0xffff" | "0xffff < unat u" "unat u \<le> 0x1fffff"
    using assms by (force simp: word_le_nat_alt)
  then show ?thesis
  proof cases
    case 1
    then show ?thesis
      by (simp add: utf8_of_unicode_bytes utf8_scalar_def word_le_nat_alt
          unsigned_ucast_eq take_bit_eq_mod)
  next
    case 2
    then have "unat u div 64 < 32" by simp
    with 2 show ?thesis
      by (simp add: utf8_of_unicode_bytes utf8_scalar_def word_le_nat_alt utf8_byte_values)
  next
    case 3
    then have d: "unat u div 64 div 64 < 16" by (simp flip: div_mult2_eq)
    have "unat u div 4096 = unat u div 64 div 64" by (simp flip: div_mult2_eq)
    with 3 d show ?thesis
      using base_64 [of "unat u"]
      by (simp add: utf8_of_unicode_bytes utf8_scalar_def word_le_nat_alt utf8_byte_values)
  next
    case 4
    define n where "n = unat u"
    have d: "n div 64 div 64 div 64 < 8" using 4 by (simp add: n_def flip: div_mult2_eq)
    have e: "n div 4096 = n div 64 div 64" "n div 262144 = n div 64 div 64 div 64"
      by (simp_all flip: div_mult2_eq)
    have lead: "unat (ucast ((drop_bit 18 u AND 0x7) + 0xf0) :: u8) = n div 64 div 64 div 64 + 0xf0"
      using d by (simp add: utf8_byte_values e n_def [symmetric])
    have "utf8_scalar (utf8_of_unicode u) = n"
      using 4
      by (simp add: utf8_of_unicode_bytes utf8_scalar_def word_le_nat_alt lead
          unat_cont_byte shifted_unat e n_def [symmetric],
          use base_64 [of n] div_mult_mod_eq [of "n div 64 div 64" 64] in linarith)
    then show ?thesis by (simp add: n_def)
  qed
qed

section \<open>The written table\<close>

lemma length_convert_unicode_to_utf8 [simp]:
  "length (snd (convert_unicode_to_utf8 u r)) = length r"
  by (simp add: convert_unicode_to_utf8_def)

lemma length_convert_unicode_code:
  "convert_unicode_code_to_utf8_8_bytes s = Ok (u, c) \<Longrightarrow> length u = 8"
  by (auto simp: convert_unicode_code_to_utf8_8_bytes_def Let_def and_then_eq_Ok
      split: if_splits option.splits)

lemma length_convert_euc_code: "convert_euc_code_to_euc_3_bytes s = Ok a \<Longrightarrow> length a = 3"
  by (auto simp: convert_euc_code_to_euc_3_bytes_def and_then_eq_Ok split: if_splits)

lemma read_entry_sizes:
  "read_entry pats l = Ok (Some (a, u, c)) \<Longrightarrow> length a = 3 \<and> length u = 8"
  by (auto simp: read_entry_def and_then_eq_Ok length_convert_euc_code length_convert_unicode_code
      split: if_splits option.splits)

definition buffers_of :: "table_entries \<Rightarrow> table_entries \<Rightarrow> table_buffers" where
  "buffers_of cs ps = \<lparr>combine_count = of_nat (length cs), plain_count = of_nat (length ps),
     combine_buffer = concat (map entry_bytes cs), plain_buffer = concat (map entry_bytes ps)\<rparr>"

lemma buffers_of_upd:
  "(buffers_of cs ps)\<lparr>combine_count := combine_count (buffers_of cs ps) + 1,
     combine_buffer := combine_buffer (buffers_of cs ps) @ a @ u\<rparr> = buffers_of (cs @ [(a, u)]) ps"
  "(buffers_of cs ps)\<lparr>plain_count := plain_count (buffers_of cs ps) + 1,
     plain_buffer := plain_buffer (buffers_of cs ps) @ a @ v\<rparr> = buffers_of cs (ps @ [(a, v)])"
  by (simp_all add: buffers_of_def entry_bytes_def)

lemma create_table_lines_entries:
  "create_table_lines pats ls (buffers_of cs ps) = Ok b \<Longrightarrow> sized_entries 8 cs \<Longrightarrow>
   sized_entries 4 ps \<Longrightarrow>
   \<exists>cs' ps'. b = buffers_of cs' ps' \<and> sized_entries 8 cs' \<and> sized_entries 4 ps'
     \<and> length cs' + length ps' \<le> length cs + length ps + length ls"
proof (induction ls arbitrary: cs ps)
  case (Cons l ls)
  from Cons.prems(1) obtain r where r: "read_entry pats l = Ok r"
    and nxt: "(case r of None \<Rightarrow> create_table_lines pats ls (buffers_of cs ps)
      | Some (a, u, c) \<Rightarrow> create_table_lines pats ls
          (if c then buffers_of (cs @ [(a, u)]) ps else buffers_of cs (ps @ [(a, take 4 u)]))) = Ok b"
    by (auto simp only: and_then_eq_Ok create_table_lines.simps buffers_of_upd)
  show ?case
  proof (cases r)
    case None
    then show ?thesis using Cons.IH [of cs ps] Cons.prems nxt by force
  next
    case (Some v)
    obtain a u c where v: "v = (a, u, c)" by (cases v)
    have "length a = 3" "length u = 8" using read_entry_sizes r Some v by blast+
    then show ?thesis
      using Cons.IH [of "cs @ [(a, u)]" ps] Cons.IH [of cs "ps @ [(a, take 4 u)]"] Cons.prems nxt
      by (cases c) (force simp: Some v sized_entries_def)+
  qed
qed (auto intro: exI [of _ cs])

lemma create_table_bytes:
  assumes "create_table e pats (Ok content) = Ok table"
  shows "\<exists>cs ps. table = table_bytes e cs ps \<and> sized_entries 8 cs \<and> sized_entries 4 ps
    \<and> length cs + length ps \<le> length (lines_of content)"
proof -
  have "buffers_of [] [] = \<lparr>combine_count = 0, plain_count = 0, combine_buffer = [], plain_buffer = []\<rparr>"
    by (simp add: buffers_of_def)
  with assms obtain b where b: "create_table_lines pats (lines_of content) (buffers_of [] []) = Ok b"
    and t: "table = u32_to_ne e 1 @ u32_to_ne e 32 @ u32_to_ne e (combine_count b)
      @ u32_to_ne e (plain_count b) @ replicate 16 0 @ combine_buffer b @ plain_buffer b"
    by (auto simp: create_table_def and_then_eq_Ok)
  from create_table_lines_entries [OF b] obtain cs ps where
    "b = buffers_of cs ps" "sized_entries 8 cs" "sized_entries 4 ps"
    "length cs + length ps \<le> length (lines_of content)"
    by (auto simp: sized_entries_def)
  with t show ?thesis by (auto simp: buffers_of_def table_bytes_def)
qed

end
