(* ===== verification/Dictionary.thy ===== *)
theory Dictionary
  imports Encoding_Table
begin

text \<open>
  \<open>src/skk/dictionary.rs\<close>: the key of a midashi, the split of an entry line, and the setup of the
  index in memory from a dictionary file: the checksum, the encoding table, and the index data block
  by block. A file is its bytes (\<open>None\<close> when it cannot be opened); \<open>sha1\<close> is a parameter. The
  lemmas give the index that reading back a written unit yields.
\<close>

section \<open>Keys and entry lines\<close>

definition get_dictionary_midashi_key :: "bytes \<Rightarrow> dictionary_midashi_key res" where
  "get_dictionary_midashi_key euc_buffer =
     and_then (index_res euc_buffer 0) (\<lambda>b.
     if in_range 0xa1 0xfe b \<or> b = 0x8e then
       and_then (index_res euc_buffer 1) (\<lambda>c. Ok [b, c, 0, 0])
     else if in_range 0x00 0x7f b then Ok [b, 0, 0, 0]
     else if b = 0x8f then
       and_then (index_res euc_buffer 1) (\<lambda>c.
       and_then (index_res euc_buffer 2) (\<lambda>d. Ok [b, c, d, 0]))
     else Err EncodingError)"

definition get_midashi_candidates :: "twoway \<Rightarrow> bytes \<Rightarrow> (bytes \<times> bytes) res" where
  "get_midashi_candidates tw buffer =
     (case find_bytes tw buffer [space] of
        None \<Rightarrow> Err JisyoRead
      | Some sp \<Rightarrow>
          (case rfind_bytes tw buffer [slash] of
             None \<Rightarrow> Err JisyoRead
           | Some last_slash \<Rightarrow>
               and_then (slice_res buffer 0 sp) (\<lambda>midashi.
               and_then (slice_res buffer (sp + 1) (last_slash + 1)) (\<lambda>candidates.
               Ok (midashi, candidates)))))"

section \<open>Reading a file\<close>

definition read_exact_at :: "bytes \<Rightarrow> nat \<Rightarrow> nat \<Rightarrow> bytes res" where
  "read_exact_at file position n =
     (if n = 0 then Ok [] else if position + n \<le> length file then Ok (slice file position (position + n))
      else Err Io)"

lemma read_exact_at_slice:
  "position + n \<le> length file \<Longrightarrow> read_exact_at file position n = Ok (slice file position (position + n))"
  by (simp add: read_exact_at_def)

lemma read_exact_at_middle:
  "p = length xs \<Longrightarrow> n = length ys \<Longrightarrow> read_exact_at (xs @ ys @ zs) p n = Ok ys"
  by (simp add: read_exact_at_slice slice_append_mid)

section \<open>The index in memory\<close>

definition get_joined_midashi :: "bytes \<Rightarrow> nat \<Rightarrow> nat \<Rightarrow> nat \<Rightarrow> bytes list res" where
  "get_joined_midashi buffer buffer_offset informations_length joined_midashi_length =
     (let joined_midashi_offset = buffer_offset + 12 + informations_length * 8
      in and_then (slice_res buffer joined_midashi_offset
           (joined_midashi_offset + joined_midashi_length)) (\<lambda>s. Ok (split_on space s)))"

text \<open>\<open>&buffer[i..]\<close>.\<close>

definition tail_res :: "'a list \<Rightarrow> nat \<Rightarrow> 'a list res" where
  "tail_res xs i = (if i \<le> length xs then Ok (drop i xs) else Panic)"

fun read_informations ::
  "endianness \<Rightarrow> bytes \<Rightarrow> nat \<Rightarrow> bytes list \<Rightarrow> nat \<Rightarrow> block_information list res" where
  "read_informations e buffer buffer_offset [] i = Ok []"
| "read_informations e buffer buffer_offset (m # ms) i =
     and_then (tail_res buffer (buffer_offset + 12 + i * 8)) (\<lambda>bs.
     and_then (offset_length_from_bytes e bs) (\<lambda>ol.
     and_then (read_informations e buffer buffer_offset ms (i + 1)) (\<lambda>infos.
     Ok (\<lparr>info_midashi = m, info_offset = ol_offset ol, info_length = ol_length ol\<rparr> # infos))))"

type_synonym index_maps =
  "(dictionary_midashi_key \<rightharpoonup> block_information list) \<times> block_information list list"

definition store_informations ::
  "dictionary_midashi_key \<Rightarrow> block_information list \<Rightarrow> index_maps \<Rightarrow> index_maps" where
  "store_informations key infos maps =
     (case get_ascii_hiragana_vec_index key of
        Some i \<Rightarrow> (fst maps, (snd maps)[i := infos])
      | None \<Rightarrow> ((fst maps)(key \<mapsto> infos), snd maps))"

fun update_index_map_and_index_ascii_hiragana_vec ::
  "endianness \<Rightarrow> nat \<Rightarrow> bytes \<Rightarrow> nat \<Rightarrow> index_maps \<Rightarrow> index_maps res" where
  "update_index_map_and_index_ascii_hiragana_vec e 0 buffer buffer_offset maps = Ok maps"
| "update_index_map_and_index_ascii_hiragana_vec e (Suc n) buffer buffer_offset maps =
     and_then (tail_res buffer buffer_offset) (\<lambda>bs.
     and_then (block_heads_from_bytes e bs) (\<lambda>heads.
     and_then (get_joined_midashi buffer buffer_offset (unat (information_length heads))
        (unat (information_midashi_length heads))) (\<lambda>joined_midashi.
     if length joined_midashi \<noteq> unat (information_length heads) then Panic
     else
       and_then (read_informations e buffer buffer_offset joined_midashi 0) (\<lambda>infos.
       update_index_map_and_index_ascii_hiragana_vec e n buffer
         (buffer_offset + 12 + unat (information_length heads) * 8
            + unat (information_midashi_length heads))
         (store_informations (heads_midashi_key heads) infos maps)))))"

definition block_buffer_length_limit :: nat where
  "block_buffer_length_limit = 2 * 1024 * 1024"

text \<open>
  The loop over the block headers. The buffer is reused: bytes of an earlier block stay behind the
  ones just read.
\<close>

fun index_blocks_loop ::
  "endianness \<Rightarrow> u32 \<Rightarrow> bytes \<Rightarrow> bytes \<Rightarrow> nat \<Rightarrow> nat \<Rightarrow> bytes \<Rightarrow> index_maps \<Rightarrow> index_maps res" where
  "index_blocks_loop e data_offset file header_buffer i 0 buffer maps = Ok maps"
| "index_blocks_loop e data_offset file header_buffer i (Suc n) buffer maps =
     and_then (tail_res header_buffer (8 + i * 12)) (\<lambda>bs.
     and_then (block_header_from_bytes e bs) (\<lambda>bh.
     if unat (bh_length bh) > length buffer then Panic
     else
       and_then (read_exact_at file (unat (data_offset + bh_offset bh)) (unat (bh_length bh)))
         (\<lambda>block.
       let buffer' = block @ drop (length block) buffer
       in and_then (update_index_map_and_index_ascii_hiragana_vec e (unat (bh_unit_length bh))
            buffer' 0 maps) (\<lambda>maps'.
          index_blocks_loop e data_offset file header_buffer (i + 1) n buffer' maps'))))"

definition create_index_map_and_index_ascii_hiragana_vec ::
  "endianness \<Rightarrow> u32 \<Rightarrow> bytes \<Rightarrow> bytes \<Rightarrow> index_maps res" where
  "create_index_map_and_index_ascii_hiragana_vec e data_offset file header_buffer =
     and_then (index_data_header_from_bytes e header_buffer) (\<lambda>idh.
     if \<not> unat (block_buffer_length idh) < block_buffer_length_limit then Panic
     else index_blocks_loop e data_offset file header_buffer 0 (unat (block_header_length idh))
        (replicate (unat (block_buffer_length idh)) 0)
        (Map.empty, replicate index_ascii_hiragana_vec_length []))"

section \<open>Setup\<close>

text \<open>The chunks that \<open>read\<close> delivers to the hasher, and the length they add up to.\<close>

function hash_loop :: "nat \<Rightarrow> bytes \<Rightarrow> bytes \<Rightarrow> nat \<Rightarrow> bytes \<times> nat" where
  "hash_loop buffer_length rest hashed scanned =
     (if buffer_length = 0 \<or> rest = [] then (hashed, scanned)
      else
        let chunk = take buffer_length rest
        in hash_loop buffer_length (drop buffer_length rest) (hashed @ chunk) (scanned + length chunk))"
  by pat_completeness auto
termination by (relation "measure (\<lambda>(n, rest, h, t). length rest)") auto

declare hash_loop.simps [simp del]

text \<open>
  \<open>dictionary_length - total_scan_length\<close> is a \<open>u64\<close> subtraction, which wraps in a release build;
  \<open>take\<close> then limits nothing.
\<close>

definition validate_except_dictionary_fixed_header ::
  "(bytes \<Rightarrow> bytes) \<Rightarrow> nat \<Rightarrow> bytes \<Rightarrow> bytes \<Rightarrow> u64 \<Rightarrow> bytes \<Rightarrow> unit res" where
  "validate_except_dictionary_fixed_header sha1 read_buffer_length file hashed dict_length expected =
     (let start = unat dictionary_fixed_header_area_length;
          limit = unat (dict_length - of_nat start);
          (hashed', scanned) = hash_loop read_buffer_length (take limit (drop start file)) hashed start
      in if scanned \<noteq> unat dict_length then Err BrokenDictionary
         else if expected \<noteq> sha1 hashed' then Err BrokenDictionary
         else Ok ())"

definition dictionary_setup ::
  "endianness \<Rightarrow> (bytes \<Rightarrow> bytes) \<Rightarrow> nat \<Rightarrow> bytes option \<Rightarrow> tables option
     \<Rightarrow> (on_memory \<times> tables option) res" where
  "dictionary_setup e sha1 read_buffer_length file_option once =
     (case file_option of
        None \<Rightarrow> Err Io
      | Some file \<Rightarrow>
          and_then (read_exact_at file 0 (unat dictionary_fixed_header_area_length)) (\<lambda>buffer.
          and_then (fixed_header_from_bytes e buffer) (\<lambda>header.
          let zeroed = header\<lparr>sha1sum := sha1sum_zero\<rparr>;
              zeroed_bytes = fixed_header_to_bytes e zeroed;
              hashed = zeroed_bytes @ drop (length zeroed_bytes) buffer
          in
            and_then (validate_except_dictionary_fixed_header sha1 read_buffer_length file hashed
               (ucast (dictionary_length zeroed)) (sha1sum header)) (\<lambda>_.
            and_then (read_exact_at file (unat (encoding_table_offset zeroed))
               (unat (encoding_table_length zeroed))) (\<lambda>table.
            and_then (once_init_encoding_table e table once) (\<lambda>once'.
            and_then (read_exact_at file (unat (index_data_header_offset zeroed))
               (unat (index_data_header_length zeroed))) (\<lambda>header_buffer.
            and_then (create_index_map_and_index_ascii_hiragana_vec e (index_data_offset zeroed) file
               header_buffer) (\<lambda>maps.
            Ok (\<lparr>dictionary_fixed_header = zeroed, index_map = fst maps,
                  index_ascii_hiragana_vec = snd maps\<rparr>, once')))))))))"

end
