(* ===== verification/Candidates.thy ===== *)
theory Candidates
  imports Prelude
begin

text \<open>
  \<open>src/skk/candidates.rs\<close>: quoting a string for an SKK candidate list, trimming the outer slashes,
  removing duplicates, and merging two candidate lists with or without annotations
  (\<open>candidate;annotation\<close>). The merge is proved equal to a specification on lists of candidates.
\<close>

section \<open>Quoting\<close>

definition quote_chars :: "u8 list" where
  "quote_chars = [cr, lf, 0x5c, 0x22, semicolon, slash]"

fun need_quote :: "bytes \<Rightarrow> bool" where
  "need_quote [] = False"
| "need_quote (u # us) = (if u \<in> set quote_chars then True else need_quote us)"

text \<open>The literals \<open>(concat "\073")\<close> and \<open>(concat "\057")\<close>.\<close>

definition concat_073 :: bytes where
  "concat_073 = [0x28, 0x63, 0x6f, 0x6e, 0x63, 0x61, 0x74, 0x20, 0x22, 0x5c, 0x30, 0x37, 0x33, 0x22, 0x29]"

definition concat_057 :: bytes where
  "concat_057 = [0x28, 0x63, 0x6f, 0x6e, 0x63, 0x61, 0x74, 0x20, 0x22, 0x5c, 0x30, 0x35, 0x37, 0x22, 0x29]"

definition quote_byte :: "u8 \<Rightarrow> bytes" where
  "quote_byte u =
     (if u = cr \<or> u = lf then []
      else if u = 0x5c then [0x5c, 0x5c]
      else if u = 0x22 then [0x5c, 0x22]
      else if u = semicolon then concat_073
      else if u = slash then concat_057
      else [u])"

fun quote_loop :: "bytes \<Rightarrow> bytes \<Rightarrow> bytes" where
  "quote_loop [] result = result"
| "quote_loop (u # us) result = quote_loop us (result @ quote_byte u)"

definition quote_and_add_prefix :: "bytes \<Rightarrow> u8 option \<Rightarrow> bytes" where
  "quote_and_add_prefix source prefix =
     quote_loop source (case prefix of Some p \<Rightarrow> [p] | None \<Rightarrow> [])"

definition quoted :: "bytes \<Rightarrow> bytes" where
  "quoted s = concat (map quote_byte s)"

lemma quoted_simps [simp]: "quoted [] = []" "quoted (u # us) = quote_byte u @ quoted us"
  by (simp_all add: quoted_def)

lemma quote_loop_eq: "quote_loop us r = r @ quoted us"
  by (induction us arbitrary: r) simp_all

lemma quote_and_add_prefix_eq:
  "quote_and_add_prefix s p = (case p of Some c \<Rightarrow> [c] | None \<Rightarrow> []) @ quoted s"
  by (simp add: quote_and_add_prefix_def quote_loop_eq)

lemma quote_byte_clean: "u \<in> set (quote_byte b) \<Longrightarrow> u \<notin> {cr, lf, semicolon, slash}"
  by (auto simp: quote_byte_def concat_073_def concat_057_def split: if_splits)

lemma quoted_clean: "u \<in> set (quoted s) \<Longrightarrow> u \<notin> {cr, lf, semicolon, slash}"
  by (induction s) (use quote_byte_clean in auto)

lemma slash_notin_quoted [simp]: "slash \<notin> set (quoted s)"
  using quoted_clean [of slash s] by auto

lemma quote_byte_plain: "u \<notin> set quote_chars \<Longrightarrow> quote_byte u = [u]"
  by (simp add: quote_byte_def quote_chars_def)

lemma quoted_plain: "\<not> need_quote s \<Longrightarrow> quoted s = s"
  by (induction s) (auto simp: quote_byte_plain split: if_splits)

text \<open>A reader of the quoted form: it undoes every escape.\<close>

function unquote :: "bytes \<Rightarrow> bytes" where
  "unquote s =
     (case s of [] \<Rightarrow> []
      | x # xs \<Rightarrow>
         if take 15 s = concat_073 then semicolon # unquote (drop 15 s)
         else if take 15 s = concat_057 then slash # unquote (drop 15 s)
         else if x = 0x5c then (case xs of [] \<Rightarrow> [x] | y # ys \<Rightarrow> y # unquote ys)
         else x # unquote xs)"
  by pat_completeness auto
termination
  by (relation "measure length") auto

declare unquote.simps [simp del]

lemma quoted_starts_plain:
  "quoted s = c # r \<Longrightarrow> c \<noteq> 0x5c \<Longrightarrow> c \<noteq> 0x28 \<Longrightarrow> c \<noteq> 0x22 \<and> (\<exists>s'. r = quoted s')"
proof (induction s)
  case (Cons u us)
  then show ?case
    by (cases "quote_byte u = []")
      (auto simp: quote_byte_def concat_073_def concat_057_def split: if_splits)
qed simp

text \<open>A quoted text never continues a parenthesis into one of the two \<open>concat\<close> forms.\<close>

lemma quoted_no_concat:
  "take 14 (quoted s) \<noteq> [0x63, 0x6f, 0x6e, 0x63, 0x61, 0x74, 0x20, 0x22, 0x5c, 0x30, a, b, 0x22, 0x29]"
proof
  assume eq: "take 14 (quoted s) =
    [0x63, 0x6f, 0x6e, 0x63, 0x61, 0x74, 0x20, 0x22, 0x5c, 0x30, a, b, 0x22, 0x29]"
  have "quoted s = take 14 (quoted s) @ drop 14 (quoted s)" by simp
  then obtain r where r: "quoted s =
    0x63 # 0x6f # 0x6e # 0x63 # 0x61 # 0x74 # 0x20 # 0x22 # 0x5c # 0x30 # a # b # 0x22 # 0x29 # r"
    unfolding eq by auto
  have step: "\<exists>s'. xs = quoted s'" if "c # xs = quoted t" "c \<noteq> 0x5c" "c \<noteq> 0x28" for c xs t
    using quoted_starts_plain [of t c xs] that by auto
  from step [OF r [symmetric]] obtain s1 where "0x6f # 0x6e # 0x63 # 0x61 # 0x74 # 0x20 # 0x22
    # 0x5c # 0x30 # a # b # 0x22 # 0x29 # r = quoted s1" by auto
  from step [OF this] obtain s2 where "0x6e # 0x63 # 0x61 # 0x74 # 0x20 # 0x22
    # 0x5c # 0x30 # a # b # 0x22 # 0x29 # r = quoted s2" by auto
  from step [OF this] obtain s3 where "0x63 # 0x61 # 0x74 # 0x20 # 0x22
    # 0x5c # 0x30 # a # b # 0x22 # 0x29 # r = quoted s3" by auto
  from step [OF this] obtain s4 where "0x61 # 0x74 # 0x20 # 0x22
    # 0x5c # 0x30 # a # b # 0x22 # 0x29 # r = quoted s4" by auto
  from step [OF this] obtain s5 where "0x74 # 0x20 # 0x22
    # 0x5c # 0x30 # a # b # 0x22 # 0x29 # r = quoted s5" by auto
  from step [OF this] obtain s6 where "0x20 # 0x22
    # 0x5c # 0x30 # a # b # 0x22 # 0x29 # r = quoted s6" by auto
  from step [OF this] obtain s7 where "0x22
    # 0x5c # 0x30 # a # b # 0x22 # 0x29 # r = quoted s7" by auto
  from quoted_starts_plain [OF this [symmetric]] show False by simp
qed

lemma unquote_quoted: "unquote (quoted s) = filter (\<lambda>u. u \<noteq> cr \<and> u \<noteq> lf) s"
proof (induction s)
  case Nil
  then show ?case by (simp add: unquote.simps)
next
  case (Cons u us)
  consider "u = cr \<or> u = lf" | "u = 0x5c" | "u = 0x22" | "u = semicolon" | "u = slash"
    | "u \<notin> set quote_chars" "u \<noteq> 0x28" | "u = 0x28"
    by (auto simp: quote_chars_def)
  then show ?case
  proof cases
    case 7
    moreover have "take 14 (quoted us) \<noteq> tl concat_073" "take 14 (quoted us) \<noteq> tl concat_057"
      using quoted_no_concat by (simp_all add: concat_073_def concat_057_def)
    ultimately show ?thesis using Cons
      by (simp add: unquote.simps [of "0x28 # quoted us"] quote_byte_def concat_073_def
          concat_057_def)
  qed (use Cons in \<open>simp_all add: unquote.simps [of "quote_byte _ @ _"] quote_byte_plain
         quote_byte_def quote_chars_def concat_073_def concat_057_def
         unquote.simps [of "0x28 # _"] unquote.simps [of "0x5c # _"] unquote.simps [of "u # _"]\<close>)
qed

section \<open>Trimming\<close>

definition trim_one_slash :: "bytes \<Rightarrow> bytes" where
  "trim_one_slash source =
     (let n = length source in
      if n = 0 then source
      else
        let stop = (if n > 1 \<and> source ! (n - 1) = slash then n - 1 else n);
            start = (if source ! 0 = slash then 1 else 0)
        in slice source start stop)"

lemma trim_one_slash_Nil [simp]: "trim_one_slash [] = []"
  by (simp add: trim_one_slash_def)

text \<open>The slice is in range on every input: \<open>start \<le> stop \<le> len\<close>.\<close>

lemma trim_one_slash_bounds:
  "source \<noteq> [] \<Longrightarrow>
   (if source ! 0 = slash then 1 else 0)
     \<le> (if length source > 1 \<and> source ! (length source - 1) = slash
         then length source - 1 else length source)"
  by (cases source; cases "tl source") auto

lemma trim_one_slash_wrapped: "trim_one_slash (slash # xs @ [slash]) = xs"
  by (simp add: trim_one_slash_def slice_def nth_append)

lemma trim_one_slash_plain:
  "xs \<noteq> [] \<Longrightarrow> hd xs \<noteq> slash \<Longrightarrow> last xs \<noteq> slash \<Longrightarrow> trim_one_slash xs = xs"
  by (simp add: trim_one_slash_def hd_conv_nth last_conv_nth)

lemma trim_one_slash_front:
  "xs \<noteq> [] \<Longrightarrow> last xs \<noteq> slash \<Longrightarrow> trim_one_slash (slash # xs) = xs"
  by (simp add: trim_one_slash_def slice_def last_conv_nth nth_Cons' )

lemma trim_one_slash_back:
  "xs \<noteq> [] \<Longrightarrow> hd xs \<noteq> slash \<Longrightarrow> trim_one_slash (xs @ [slash]) = xs"
  by (simp add: trim_one_slash_def slice_def hd_conv_nth nth_append)

section \<open>Removing duplicates\<close>

fun remove_duplicates_loop :: "'a list \<Rightarrow> 'a set \<Rightarrow> 'a list" where
  "remove_duplicates_loop [] seen = []"
| "remove_duplicates_loop (x # xs) seen =
     (if x \<in> seen then remove_duplicates_loop xs seen
      else x # remove_duplicates_loop xs (insert x seen))"

definition remove_duplicates :: "'a list \<Rightarrow> 'a list" where
  "remove_duplicates xs = remove_duplicates_loop xs {}"

definition remove_duplicates_bytes :: "bytes \<Rightarrow> bytes" where
  "remove_duplicates_bytes candidates_bytes =
     join_with slash (remove_duplicates (split_on slash candidates_bytes)) @ [slash]"

lemma set_remove_duplicates_loop: "set (remove_duplicates_loop xs s) = set xs - s"
  by (induction xs arbitrary: s) auto

lemma distinct_remove_duplicates_loop: "distinct (remove_duplicates_loop xs s)"
  by (induction xs arbitrary: s) (auto simp: set_remove_duplicates_loop)

lemma set_remove_duplicates [simp]: "set (remove_duplicates xs) = set xs"
  by (simp add: remove_duplicates_def set_remove_duplicates_loop)

lemma distinct_remove_duplicates [simp]: "distinct (remove_duplicates xs)"
  by (simp add: remove_duplicates_def distinct_remove_duplicates_loop)

lemma remove_duplicates_loop_id:
  "distinct xs \<Longrightarrow> set xs \<inter> s = {} \<Longrightarrow> remove_duplicates_loop xs s = xs"
  by (induction xs arbitrary: s) auto

lemma remove_duplicates_id [simp]: "distinct xs \<Longrightarrow> remove_duplicates xs = xs"
  by (simp add: remove_duplicates_def remove_duplicates_loop_id)

lemma remove_duplicates_loop_append:
  "remove_duplicates_loop (xs @ ys) s =
     remove_duplicates_loop xs s @ remove_duplicates_loop ys (s \<union> set xs)"
  by (induction xs arbitrary: s) (auto simp: insert_absorb)

lemma remove_duplicates_loop_filter:
  "remove_duplicates_loop xs s = filter (\<lambda>x. x \<notin> s) (remove_duplicates_loop xs {})"
proof (induction xs arbitrary: s)
  case (Cons x xs)
  have "remove_duplicates_loop xs (insert x s)
      = filter (\<lambda>y. y \<notin> insert x s) (remove_duplicates_loop xs {})"
    by (rule Cons.IH)
  also have "\<dots> = filter (\<lambda>y. y \<notin> s) (remove_duplicates_loop xs {x})"
    by (subst (2) Cons.IH) (auto intro!: filter_cong)
  finally show ?case using Cons.IH [of s] Cons.IH [of "{x}"]
    by (auto intro!: filter_cong)
qed simp

lemma hd_remove_duplicates_loop: "x \<notin> s \<Longrightarrow> remove_duplicates_loop (x # xs) s \<noteq> []"
  by simp

text \<open>A candidate list in the file's form \<open>/c1/c2/.../\<close>.\<close>

definition candidates_bytes_of :: "bytes list \<Rightarrow> bytes" where
  "candidates_bytes_of cs = slash # concat (map (\<lambda>c. c @ [slash]) cs)"

definition candidate_ok :: "bytes \<Rightarrow> bool" where
  "candidate_ok c \<longleftrightarrow> c \<noteq> [] \<and> slash \<notin> set c"

lemma candidates_bytes_of_join:
  "cs \<noteq> [] \<Longrightarrow> candidates_bytes_of cs = slash # join_with slash cs @ [slash]"
  by (simp add: candidates_bytes_of_def concat_terminated)

lemma trim_candidates_bytes_of:
  "cs \<noteq> [] \<Longrightarrow> trim_one_slash (candidates_bytes_of cs) = join_with slash cs"
  by (simp add: candidates_bytes_of_join trim_one_slash_wrapped)

lemma split_candidates_bytes_of:
  "\<forall>c \<in> set cs. slash \<notin> set c \<Longrightarrow> split_on slash (candidates_bytes_of cs) = [] # cs @ [[]]"
proof -
  assume *: "\<forall>c \<in> set cs. slash \<notin> set c"
  have "split_on slash (concat (map (\<lambda>c. c @ [slash]) cs)) = cs @ [[]]"
    using * by (induction cs) (auto simp: split_on_append_sep)
  then show ?thesis by (simp add: candidates_bytes_of_def)
qed

lemma remove_duplicates_bytes_eq:
  assumes "\<forall>c \<in> set cs. candidate_ok c" and "cs \<noteq> []"
  shows "remove_duplicates_bytes (candidates_bytes_of cs) = candidates_bytes_of (remove_duplicates cs)"
proof -
  have ne: "[] \<notin> set cs" and noslash: "\<forall>c \<in> set cs. slash \<notin> set c"
    using assms by (auto simp: candidate_ok_def)
  have "remove_duplicates ([] # cs @ [[]]) = [] # remove_duplicates_loop cs {[]}"
    by (simp add: remove_duplicates_def remove_duplicates_loop_append)
  also have "remove_duplicates_loop cs {[]} = remove_duplicates cs"
    using ne remove_duplicates_loop_filter [of cs "{[]}"] set_remove_duplicates [of cs]
    by (metis (mono_tags, lifting) filter_True remove_duplicates_def singletonD)
  finally have *: "remove_duplicates ([] # cs @ [[]]) = [] # remove_duplicates cs" .
  have "remove_duplicates cs \<noteq> []"
    using assms(2) set_remove_duplicates [of cs] by fastforce
  then show ?thesis
    using noslash by (cases "remove_duplicates cs")
      (simp_all add: remove_duplicates_bytes_def split_candidates_bytes_of *
        candidates_bytes_of_join)
qed

text \<open>On a \<open>str\<close>, seen as its UTF-8 bytes: \<open>split('/')\<close> and \<open>join("/")\<close> cut at the byte \<open>/\<close>.\<close>

definition remove_duplicates_str :: "bytes \<Rightarrow> bytes" where
  "remove_duplicates_str candidates_str =
     (let splited_candidates = split_on slash candidates_str;
          result = join_with slash (remove_duplicates splited_candidates)
      in result @ [slash])"

section \<open>Merging\<close>

text \<open>\<open>iter_mut().find(|v| v.0 == base_unit)\<close> followed by \<open>new_unit.1 = false\<close>.\<close>

fun clear_first :: "bytes \<Rightarrow> (bytes \<times> bool) list \<Rightarrow> (bytes \<times> bool) list" where
  "clear_first b [] = []"
| "clear_first b (v # vs) = (if fst v = b then (fst v, False) # vs else v # clear_first b vs)"

fun merge_base_loop ::
  "bytes list \<Rightarrow> (bytes \<times> bool) list \<Rightarrow> bytes \<Rightarrow> (bytes \<times> bool) list \<times> bytes" where
  "merge_base_loop [] news result = (news, result)"
| "merge_base_loop (base_unit # base_units) news result =
     merge_base_loop base_units (clear_first base_unit news) (result @ base_unit @ [slash])"

fun push_flagged :: "(bytes \<times> bool) list \<Rightarrow> bytes \<Rightarrow> bytes" where
  "push_flagged [] result = result"
| "push_flagged (v # vs) result =
     push_flagged vs (if snd v then result @ fst v @ [slash] else result)"

text \<open>The text before the first \<open>;\<close>.\<close>

definition annotate_removed :: "bytes \<Rightarrow> bytes" where
  "annotate_removed v = takeWhile (\<lambda>t. t \<noteq> semicolon) v"

text \<open>
  The annotated variant keeps triples (raw, annotation removed, add flag); \<open>clear_first_annotated\<close>
  is the \<open>find\<close> that returns the matching unit and clears its flag.
\<close>

fun clear_first_annotated ::
  "bytes \<Rightarrow> (bytes \<times> bytes \<times> bool) list \<Rightarrow> bytes option \<times> (bytes \<times> bytes \<times> bool) list" where
  "clear_first_annotated b [] = (None, [])"
| "clear_first_annotated b ((raw, removed, flag) # vs) =
     (if removed = b then (Some raw, (raw, removed, False) # vs)
      else (let (found, vs') = clear_first_annotated b vs in (found, (raw, removed, flag) # vs')))"

fun annotated_base_loop ::
  "bytes list \<Rightarrow> (bytes \<times> bytes \<times> bool) list \<Rightarrow> bytes \<Rightarrow> (bytes \<times> bytes \<times> bool) list \<times> bytes" where
  "annotated_base_loop [] news result = (news, result)"
| "annotated_base_loop (base_unit # base_units) news result =
     (let (found, news') = clear_first_annotated (annotate_removed base_unit) news;
          pushed = (case found of
              Some new_raw \<Rightarrow>
                if semicolon \<notin> set base_unit \<and> semicolon \<in> set new_raw then new_raw else base_unit
            | None \<Rightarrow> base_unit)
      in annotated_base_loop base_units news' (result @ pushed @ [slash]))"

fun push_flagged_annotated :: "(bytes \<times> bytes \<times> bool) list \<Rightarrow> bytes \<Rightarrow> bytes" where
  "push_flagged_annotated [] result = result"
| "push_flagged_annotated ((raw, removed, flag) # vs) result =
     push_flagged_annotated vs (if flag then result @ raw @ [slash] else result)"

definition merge_annotated_trimmed_slash_candidates :: "bytes \<Rightarrow> bytes \<Rightarrow> bytes" where
  "merge_annotated_trimmed_slash_candidates base new =
     (let news = map (\<lambda>v. (v, annotate_removed v, True)) (split_on slash new);
          (news', result) = (if base \<noteq> [] then annotated_base_loop (split_on slash base) news [slash]
                             else (news, [slash]))
      in push_flagged_annotated news' result)"

definition merge_trimmed_slash_candidates :: "bytes \<Rightarrow> bytes \<Rightarrow> bytes" where
  "merge_trimmed_slash_candidates base new =
     (if semicolon \<in> set base \<or> semicolon \<in> set new
      then merge_annotated_trimmed_slash_candidates base new
      else
        (let news = map (\<lambda>v. (v, True)) (split_on slash new);
             (news', result) = (if base \<noteq> [] then merge_base_loop (split_on slash base) news [slash]
                                else (news, [slash]))
         in push_flagged news' result))"

subsection \<open>Specification on lists of candidates\<close>

text \<open>
  The candidates of the base stay in order; one without an annotation takes over the new candidate
  with the same text if that one is annotated; the new candidates whose text is not in the base
  follow in order.
\<close>

definition take_annotation :: "bytes list \<Rightarrow> bytes \<Rightarrow> bytes" where
  "take_annotation news b =
     (case find (\<lambda>n. annotate_removed n = annotate_removed b) news of
        Some n \<Rightarrow> if semicolon \<notin> set b \<and> semicolon \<in> set n then n else b
      | None \<Rightarrow> b)"

definition merge_spec :: "bytes list \<Rightarrow> bytes list \<Rightarrow> bytes list" where
  "merge_spec base news =
     map (take_annotation news) base @
     filter (\<lambda>n. annotate_removed n \<notin> annotate_removed ` set base) news"

definition units :: "bytes \<Rightarrow> bytes list" where
  "units trimmed = (if trimmed = [] then [] else split_on slash trimmed)"

abbreviation distinct_texts :: "bytes list \<Rightarrow> bool" where
  "distinct_texts cs \<equiv> distinct (map annotate_removed cs)"

lemma annotate_removed_plain: "semicolon \<notin> set v \<Longrightarrow> annotate_removed v = v"
  by (auto simp: annotate_removed_def takeWhile_eq_all_conv)

lemma annotate_removed_idem [simp]: "annotate_removed (annotate_removed v) = annotate_removed v"
  by (simp add: annotate_removed_def)

lemma take_annotation_text [simp]: "annotate_removed (take_annotation news b) = annotate_removed b"
  by (auto simp: take_annotation_def find_Some_iff split: option.splits)

lemma clear_first_distinct:
  "distinct (map fst vs) \<Longrightarrow> clear_first b vs = map (\<lambda>(v, f). (v, f \<and> v \<noteq> b)) vs"
  by (induction vs) (auto intro!: map_idI [symmetric] intro: rev_image_eqI)

lemma merge_base_loop_eq:
  "distinct (map fst news) \<Longrightarrow>
   merge_base_loop bs news r =
     (map (\<lambda>(v, f). (v, f \<and> v \<notin> set bs)) news, r @ concat (map (\<lambda>b. b @ [slash]) bs))"
proof (induction bs arbitrary: news r)
  case (Cons b bs)
  let ?news = "map (\<lambda>(v, f). (v, f \<and> v \<noteq> b)) news"
  have "map fst ?news = map fst news" by auto
  with Cons.prems have "distinct (map fst ?news)" by (simp only:)
  from Cons.IH [OF this] show ?case
    using Cons.prems by (auto simp: clear_first_distinct)
qed (simp add: case_prod_unfold)

lemma push_flagged_eq:
  "push_flagged vs r = r @ concat (map (\<lambda>v. v @ [slash]) (map fst (filter snd vs)))"
  by (induction vs arbitrary: r) auto

text \<open>The flags after the loop, for either variant: cleared exactly for the texts of the base.\<close>

lemma clear_first_annotated_distinct:
  "distinct (map (fst \<circ> snd) vs) \<Longrightarrow>
   clear_first_annotated b vs =
     (map_option fst (find (\<lambda>v. fst (snd v) = b) vs),
      map (\<lambda>(raw, t, f). (raw, t, f \<and> t \<noteq> b)) vs)"
proof (induction b vs rule: clear_first_annotated.induct)
  case (2 b raw removed flag vs)
  then show ?case
    by (auto intro!: map_idI [symmetric] intro: rev_image_eqI)
qed simp

definition triples :: "bytes list \<Rightarrow> bytes set \<Rightarrow> (bytes \<times> bytes \<times> bool) list" where
  "triples news seen = map (\<lambda>n. (n, annotate_removed n, annotate_removed n \<notin> seen)) news"

lemma find_triples:
  "map_option fst (find (\<lambda>v. fst (snd v) = b) (triples news seen)) =
     find (\<lambda>n. annotate_removed n = b) news"
  unfolding triples_def by (induction news) auto

lemma clear_first_triples:
  "distinct_texts news \<Longrightarrow>
   clear_first_annotated b (triples news seen) =
     (find (\<lambda>n. annotate_removed n = b) news, triples news (insert b seen))"
  by (subst clear_first_annotated_distinct)
    (auto simp: find_triples, auto simp: triples_def comp_def)

lemma annotated_base_loop_eq:
  "distinct_texts news \<Longrightarrow>
   annotated_base_loop bs (triples news seen) r =
     (triples news (seen \<union> annotate_removed ` set bs),
      r @ concat (map (\<lambda>b. take_annotation news b @ [slash]) bs))"
  by (induction bs arbitrary: seen r)
    (simp_all add: clear_first_triples take_annotation_def insert_commute Un_insert_left
      cong: option.case_cong)

lemma push_flagged_triples:
  "push_flagged_annotated (triples news seen) r =
     r @ concat (map (\<lambda>n. n @ [slash]) (filter (\<lambda>n. annotate_removed n \<notin> seen) news))"
  unfolding triples_def by (induction news arbitrary: r) auto

lemma merge_annotated_spec:
  "distinct_texts (split_on slash new) \<Longrightarrow>
   merge_annotated_trimmed_slash_candidates base new =
     candidates_bytes_of (merge_spec (units base) (split_on slash new))"
proof -
  assume d: "distinct_texts (split_on slash new)"
  have "map (\<lambda>v. (v, annotate_removed v, True)) (split_on slash new)
      = triples (split_on slash new) {}"
    by (simp add: triples_def)
  then show ?thesis
    using d by (simp add: merge_annotated_trimmed_slash_candidates_def annotated_base_loop_eq
        push_flagged_triples candidates_bytes_of_def merge_spec_def units_def comp_def)
qed

lemma semicolon_split: "semicolon \<notin> set xs \<Longrightarrow> p \<in> set (split_on s xs) \<Longrightarrow> semicolon \<notin> set p"
  by (induction xs arbitrary: p) (auto split: if_splits list.splits)

lemma merge_plain_spec:
  assumes plain: "semicolon \<notin> set base" "semicolon \<notin> set new"
    and d: "distinct_texts (split_on slash new)"
  shows "merge_trimmed_slash_candidates base new =
    candidates_bytes_of (merge_spec (units base) (split_on slash new))"
proof -
  have n: "\<forall>v \<in> set (split_on slash new). annotate_removed v = v"
    and b: "\<forall>v \<in> set (units base). annotate_removed v = v"
    and nosemi: "\<forall>v \<in> set (split_on slash new). semicolon \<notin> set v"
    using plain semicolon_split annotate_removed_plain by (auto simp: units_def)
  have t: "map (take_annotation (split_on slash new)) (units base) = units base"
    using nosemi by (intro map_idI) (auto simp: take_annotation_def find_Some_iff
      split: option.splits)
  have img: "annotate_removed ` set (units base) = set (units base)"
    using b by (simp cong: image_cong)
  have "distinct (split_on slash new)"
    using d n by (simp add: map_idI)
  then have "distinct (map fst (map (\<lambda>v. (v, True)) (split_on slash new)))"
    by (simp add: comp_def)
  note loop = merge_base_loop_eq [OF this]
  have filt: "filter (\<lambda>v. annotate_removed v \<notin> set (units base)) (split_on slash new)
      = filter (\<lambda>v. v \<notin> set (units base)) (split_on slash new)"
    using n by (intro filter_cong) auto
  have spec: "merge_spec (units base) (split_on slash new) =
      units base @ filter (\<lambda>v. v \<notin> set (units base)) (split_on slash new)"
    by (simp only: merge_spec_def t img filt)
  show ?thesis
    unfolding spec using plain
    by (auto simp: merge_trimmed_slash_candidates_def loop push_flagged_eq
        candidates_bytes_of_def units_def filter_map comp_def)
qed

text \<open>Both variants of the merge implement the same specification.\<close>

lemma merge_refines_spec:
  "distinct_texts (split_on slash new) \<Longrightarrow>
   merge_trimmed_slash_candidates base new =
     candidates_bytes_of (merge_spec (units base) (split_on slash new))"
  by (metis merge_annotated_spec merge_plain_spec merge_trimmed_slash_candidates_def)

subsection \<open>Without the distinctness hypothesis\<close>

text \<open>
  When the new list repeats a text, only the first copy is matched; still nothing is invented and
  no text is lost. \<open>flags_step\<close> relates the new units before and after the loop.
\<close>

definition flag_cleared :: "bytes set \<Rightarrow> (bytes \<times> bytes \<times> bool) \<Rightarrow> (bytes \<times> bytes \<times> bool) \<Rightarrow> bool" where
  "flag_cleared T v v' \<longleftrightarrow> fst v' = fst v \<and> fst (snd v') = fst (snd v) \<and>
     (snd (snd v) \<longrightarrow> snd (snd v') \<or> fst (snd v) \<in> T)"

lemma clear_first_annotated_step:
  "clear_first_annotated b vs = (found, vs') \<Longrightarrow>
   list_all2 (flag_cleared {b}) vs vs' \<and>
   (\<forall>raw. found = Some raw \<longrightarrow> (\<exists>f. (raw, b, f) \<in> set vs))"
  by (induction b vs arbitrary: found vs' rule: clear_first_annotated.induct)
    (fastforce simp: flag_cleared_def list_all2_refl split: if_splits prod.splits)+

lemma flag_cleared_trans:
  "flag_cleared S v v' \<Longrightarrow> flag_cleared T v' v'' \<Longrightarrow> flag_cleared (S \<union> T) v v''"
  by (auto simp: flag_cleared_def)

lemma flags_raw: "list_all2 (flag_cleared T) vs vs' \<Longrightarrow> (raw, t, f) \<in> set vs' \<Longrightarrow> \<exists>f. (raw, t, f) \<in> set vs"
  by (induction rule: list_all2_induct) (auto simp: flag_cleared_def)

lemma annotated_base_loop_shape:
  "(\<forall>v \<in> set news. fst (snd v) = annotate_removed (fst v)) \<Longrightarrow>
   annotated_base_loop bs news r = (news', r') \<Longrightarrow>
   list_all2 (flag_cleared (annotate_removed ` set bs)) news news' \<and>
   (\<exists>cs. r' = r @ concat (map (\<lambda>c. c @ [slash]) cs) \<and>
         map annotate_removed cs = map annotate_removed bs \<and>
         set cs \<subseteq> set bs \<union> fst ` set news)"
proof (induction bs news r arbitrary: news' r' rule: annotated_base_loop.induct)
  case (1 news result)
  then show ?case by (auto simp: flag_cleared_def intro!: list_all2_refl)
next
  case (2 b bs news r)
  obtain found news1 where step: "clear_first_annotated (annotate_removed b) news = (found, news1)"
    by fastforce
  define p where "p = (case found of
      Some n \<Rightarrow> if semicolon \<notin> set b \<and> semicolon \<in> set n then n else b | None \<Rightarrow> b)"
  note s = clear_first_annotated_step [OF step]
  have wf1: "\<forall>v \<in> set news1. fst (snd v) = annotate_removed (fst v)"
    using flags_raw [of "{annotate_removed b}" news news1] s "2.prems"(1) by fastforce
  have run: "annotated_base_loop bs news1 (r @ p @ [slash]) = (news', r')"
    using "2.prems"(2) step by (simp add: p_def Let_def)
  from "2.IH" [OF _ _ p_def wf1 run] step obtain cs where
    l: "list_all2 (flag_cleared (annotate_removed ` set bs)) news1 news'" and
    cs: "r' = (r @ p @ [slash]) @ concat (map (\<lambda>c. c @ [slash]) cs)"
        "map annotate_removed cs = map annotate_removed bs" "set cs \<subseteq> set bs \<union> fst ` set news1"
    by auto
  have p: "annotate_removed p = annotate_removed b \<and> p \<in> insert b (fst ` set news)"
    using s "2.prems"(1) by (force simp: p_def split: option.splits)
  have "fst ` set news1 \<subseteq> fst ` set news"
    using flags_raw [of "{annotate_removed b}" news news1] s by force
  with cs(3) p have "set (p # cs) \<subseteq> set (b # bs) \<union> fst ` set news" by (simp, blast)
  with cs(1,2) p have "r' = r @ concat (map (\<lambda>c. c @ [slash]) (p # cs)) \<and>
      map annotate_removed (p # cs) = map annotate_removed (b # bs) \<and>
      set (p # cs) \<subseteq> set (b # bs) \<union> fst ` set news"
    by simp
  moreover have "list_all2 (flag_cleared (annotate_removed ` set (b # bs))) news news'"
    by (rule list_all2_trans [OF _ conjunct1 [OF s] l])
      (use flag_cleared_trans in fastforce)
  ultimately show ?case by blast
qed

lemma flags_kept:
  "list_all2 (flag_cleared T) (map (\<lambda>v. (v, annotate_removed v, True)) ns) vs \<Longrightarrow>
   \<exists>kept. push_flagged_annotated vs r = r @ concat (map (\<lambda>c. c @ [slash]) kept) \<and>
     set kept \<subseteq> set ns \<and> annotate_removed ` set ns \<subseteq> T \<union> annotate_removed ` set kept"
proof (induction ns arbitrary: vs r)
  case Nil
  then show ?case by (auto intro: exI [of _ "[]"])
next
  case (Cons n ns)
  then obtain v vs' where v: "vs = v # vs'" "flag_cleared T (n, annotate_removed n, True) v"
    and rest: "list_all2 (flag_cleared T) (map (\<lambda>v. (v, annotate_removed v, True)) ns) vs'"
    by (auto simp: list_all2_Cons1)
  then obtain f where vs: "vs = (n, annotate_removed n, f) # vs'"
    and f: "f \<or> annotate_removed n \<in> T"
    by (cases v) (auto simp: flag_cleared_def)
  show ?case
  proof (cases f)
    case True
    from Cons.IH [OF rest, of "r @ n @ [slash]"] obtain kept where
      "push_flagged_annotated vs r = r @ concat (map (\<lambda>c. c @ [slash]) (n # kept))"
      "set kept \<subseteq> set ns" "annotate_removed ` set ns \<subseteq> T \<union> annotate_removed ` set kept"
      by (auto simp: vs True)
    then show ?thesis by (intro exI [of _ "n # kept"]) auto
  next
    case False
    with Cons.IH [OF rest, of r] f show ?thesis by (auto simp: vs False)
  qed
qed

text \<open>The plain loop is the annotated one when no unit holds a \<open>;\<close>.\<close>

lemma plain_loop_is_annotated:
  assumes "\<forall>b \<in> set bs. semicolon \<notin> set b" and "\<forall>v \<in> set news. semicolon \<notin> set (fst v)"
  shows "annotated_base_loop bs (map (\<lambda>(v, f). (v, v, f)) news) r =
    (map (\<lambda>(v, f). (v, v, f)) (fst (merge_base_loop bs news r)), snd (merge_base_loop bs news r))"
  using assms
proof (induction bs arbitrary: news r)
  case (Cons b bs)
  have step: "\<exists>found. clear_first_annotated b (map (\<lambda>(v, f). (v, v, f)) vs) =
      (found, map (\<lambda>(v, f). (v, v, f)) (clear_first b vs)) \<and>
      (\<forall>raw. found = Some raw \<longrightarrow> raw = b)" for vs
    by (induction vs) auto
  have "\<forall>v \<in> set (clear_first b vs). semicolon \<notin> set (fst v)"
    if "\<forall>v \<in> set vs. semicolon \<notin> set (fst v)" for vs
    using that by (induction vs) auto
  with Cons step [of news] show ?case
    by (auto simp: annotate_removed_plain split: option.splits)
qed simp

lemma push_plain_is_annotated:
  "push_flagged_annotated (map (\<lambda>(v, f). (v, v, f)) vs) r = push_flagged vs r"
  by (induction vs arbitrary: r) auto

lemma merge_is_annotated:
  "merge_trimmed_slash_candidates base new = merge_annotated_trimmed_slash_candidates base new"
proof (cases "semicolon \<in> set base \<or> semicolon \<in> set new")
  case False
  define news where "news = map (\<lambda>v. (v, True)) (split_on slash new)"
  have n: "map (\<lambda>v. (v, annotate_removed v, True)) (split_on slash new)
      = map (\<lambda>(v, f). (v, v, f)) news"
    using False by (auto simp: news_def annotate_removed_plain semicolon_split)
  have plain: "\<forall>v \<in> set news. semicolon \<notin> set (fst v)"
    "\<forall>b \<in> set (split_on slash base). semicolon \<notin> set b"
    using False by (auto simp: news_def semicolon_split)
  obtain vs r where loop: "merge_base_loop (split_on slash base) news [slash] = (vs, r)"
    by fastforce
  have "annotated_base_loop (split_on slash base) (map (\<lambda>(v, f). (v, v, f)) news) [slash]
      = (map (\<lambda>(v, f). (v, v, f)) vs, r)"
    using plain_loop_is_annotated [OF plain(2,1), of "[slash]"] by (simp add: loop)
  then show ?thesis
    using False
    by (simp add: merge_trimmed_slash_candidates_def merge_annotated_trimmed_slash_candidates_def
        n loop push_plain_is_annotated flip: news_def)
qed (simp add: merge_trimmed_slash_candidates_def)

lemma union_squeeze: "C = U \<Longrightarrow> S \<subseteq> U \<union> K \<Longrightarrow> K \<subseteq> S \<Longrightarrow> C \<union> K = U \<union> S"
  by blast

lemma merge_shape:
  "\<exists>cs. merge_trimmed_slash_candidates base new = candidates_bytes_of cs \<and>
     set cs \<subseteq> set (units base) \<union> set (split_on slash new) \<and>
     annotate_removed ` set cs = annotate_removed ` (set (units base) \<union> set (split_on slash new)) \<and>
     take (length (units base)) (map annotate_removed cs) = map annotate_removed (units base)"
proof -
  define ns where "ns = map (\<lambda>v. (v, annotate_removed v, True)) (split_on slash new)"
  obtain news' r' where run: "annotated_base_loop (units base) ns [slash] = (news', r')"
    by fastforce
  have wf: "\<forall>v \<in> set ns. fst (snd v) = annotate_removed (fst v)" by (auto simp: ns_def)
  from annotated_base_loop_shape [OF wf run] obtain cs where
    l: "list_all2 (flag_cleared (annotate_removed ` set (units base))) ns news'" and
    cs: "r' = [slash] @ concat (map (\<lambda>c. c @ [slash]) cs)"
      "map annotate_removed cs = map annotate_removed (units base)"
      "set cs \<subseteq> set (units base) \<union> set (split_on slash new)"
    by (auto simp: ns_def image_image)
  from flags_kept [OF l [unfolded ns_def], of r'] obtain kept where
    kept: "push_flagged_annotated news' r' = r' @ concat (map (\<lambda>c. c @ [slash]) kept)"
      "set kept \<subseteq> set (split_on slash new)"
      "annotate_removed ` set (split_on slash new)
         \<subseteq> annotate_removed ` set (units base) \<union> annotate_removed ` set kept"
    by blast
  have "merge_trimmed_slash_candidates base new = push_flagged_annotated news' r'"
    using run by (auto simp: merge_is_annotated merge_annotated_trimmed_slash_candidates_def
        ns_def [symmetric] units_def)
  then have "merge_trimmed_slash_candidates base new = candidates_bytes_of (cs @ kept)"
    using cs kept by (simp add: candidates_bytes_of_def)
  moreover have texts: "annotate_removed ` set cs = annotate_removed ` set (units base)"
    using arg_cong [OF cs(2), of set] by simp
  moreover have len: "length cs = length (units base)"
    using arg_cong [OF cs(2), of length] by simp
  moreover have "annotate_removed ` set kept \<subseteq> annotate_removed ` set (split_on slash new)"
    using kept(2) by (rule image_mono)
  from union_squeeze [OF texts kept(3) this] have "annotate_removed ` set (cs @ kept) =
      annotate_removed ` (set (units base) \<union> set (split_on slash new))"
    by (simp only: set_append image_Un)
  moreover have "take (length (units base)) (map annotate_removed (cs @ kept)) =
      map annotate_removed (units base)"
    using cs(2) by (simp flip: len)
  moreover have "set (cs @ kept) \<subseteq> set (units base) \<union> set (split_on slash new)"
    using cs(3) kept(2) by auto
  ultimately show ?thesis by blast
qed

end
