(* ===== verification/Ordered_Map.thy ===== *)
theory Ordered_Map
  imports Prelude
begin

text \<open>
  Maps from byte strings that are visited in key order: what the code uses of \<open>BTreeMap\<close>, as a locale
  with its laws, and sorted association lists that satisfy them.
\<close>

text \<open>
  A map from byte strings that keeps its keys in order: what the code uses of \<open>BTreeMap\<close>.
\<close>

fun btree_insert :: "bytes \<Rightarrow> 'v \<Rightarrow> (bytes \<times> 'v) list \<Rightarrow> (bytes \<times> 'v) list" where
  "btree_insert k v [] = [(k, v)]"
| "btree_insert k v ((k', v') # m) =
     (if k = k' then (k, v) # m
      else if k < k' then (k, v) # (k', v') # m
      else (k', v') # btree_insert k v m)"

definition btree_sorted :: "(bytes \<times> 'v) list \<Rightarrow> bool" where
  "btree_sorted m \<longleftrightarrow> sorted_wrt (<) (map fst m)"

locale ordered_map =
  fixes empty :: "'m"
    and insert :: "'k :: linorder \<Rightarrow> 'v \<Rightarrow> 'm \<Rightarrow> 'm"
    and lookup :: "'m \<Rightarrow> 'k \<rightharpoonup> 'v"
    and entries :: "'m \<Rightarrow> ('k \<times> 'v) list"
    and ordered :: "'m \<Rightarrow> bool"
  assumes ordered_empty: "ordered empty"
    and ordered_insert: "ordered m \<Longrightarrow> ordered (insert k v m)"
    and lookup_empty: "lookup empty k = None"
    and lookup_insert: "ordered m \<Longrightarrow> lookup (insert k v m) = (lookup m)(k \<mapsto> v)"
    and entries_sorted: "ordered m \<Longrightarrow> sorted_wrt (<) (map fst (entries m))"
    and entries_lookup: "ordered m \<Longrightarrow> (k, v) \<in> set (entries m) \<longleftrightarrow> lookup m k = Some v"
begin

definition from_list :: "('k \<times> 'v) list \<Rightarrow> 'm" where
  "from_list xs = fold (\<lambda>(k, v). insert k v) xs empty"

lemma fold_insert:
  "ordered m \<Longrightarrow> ordered (fold (\<lambda>(k, v). insert k v) xs m)
    \<and> lookup (fold (\<lambda>(k, v). insert k v) xs m) k = (case map_of (rev xs) k of None \<Rightarrow> lookup m k | Some v \<Rightarrow> Some v)"
  by (induction xs arbitrary: m)
    (auto simp: ordered_insert lookup_insert map_add_def split: option.splits)

lemma from_list_ordered: "ordered (from_list xs)"
  using fold_insert [OF ordered_empty] by (simp add: from_list_def)

lemma lookup_from_list: "lookup (from_list xs) k = map_of (rev xs) k"
  using fold_insert [OF ordered_empty, of xs k]
  by (simp add: from_list_def lookup_empty split: option.splits)

lemma distinct_entries: "ordered m \<Longrightarrow> distinct (map fst (entries m))"
  using entries_sorted strict_sorted_iff by blast

end

lemma btree_insert_set: "fst ` set (btree_insert k v m) = insert k (fst ` set m)"
  by (induction k v m rule: btree_insert.induct) auto

lemma btree_sorted_insert: "btree_sorted m \<Longrightarrow> btree_sorted (btree_insert k v m)"
  by (induction k v m rule: btree_insert.induct)
    (auto simp: btree_sorted_def btree_insert_set image_iff)

lemma btree_lookup_insert: "btree_sorted m \<Longrightarrow> map_of (btree_insert k v m) = (map_of m)(k \<mapsto> v)"
  by (induction k v m rule: btree_insert.induct) (auto simp: btree_sorted_def fun_eq_iff)

lemma btree_distinct: "btree_sorted m \<Longrightarrow> distinct (map fst m)"
  unfolding btree_sorted_def using strict_sorted_iff by blast

interpretation btree: ordered_map "[]" btree_insert map_of "\<lambda>m. m" btree_sorted
  by unfold_locales
    (auto simp: btree_sorted_insert btree_lookup_insert btree_distinct,
     simp_all add: btree_sorted_def)

end
