(* ===== verification/Dictionary_Creator.thy ===== *)
theory Dictionary_Creator
  imports Dictionary Candidates Ordered_Map
begin

text \<open>
  \<open>src/skk/yaskkserv2_make_dictionary/dictionary_creator.rs\<close>: the block of each key, its division
  into units of about \<open>DICTIONARY_BLOCK_UNIT_LENGTH\<close> bytes, the index data with its header, and the
  dictionary file. \<open>BTreeMap\<close>s are association lists sorted by key. Lemmas: where the division
  succeeds, what it returns, and that the index written is the index read back.
\<close>

section \<open>Constants\<close>

definition header_alignment_length :: u32 where "header_alignment_length = 4 * 1024"
definition block_alignment_length :: u32 where "block_alignment_length = 16"
definition index_data_block_length :: nat where "index_data_block_length = 64 * 1024"
definition dictionary_block_unit_length :: nat where "dictionary_block_unit_length = 2 * 1024"


section \<open>Blocks\<close>

text \<open>One entry of a block: a midashi and its candidates, \<open>/c1/c2/.../\<close>, on a line.\<close>

definition entry_line :: "bytes \<times> bytes \<Rightarrow> bytes" where
  "entry_line p = fst p @ [space] @ snd p @ [lf]"

type_synonym temporary_block_map = "(dictionary_midashi_key \<times> bytes) list"

fun temporary_block_loop ::
  "(bytes \<times> bytes) list \<Rightarrow> temporary_block_map \<Rightarrow> temporary_block_map res" where
  "temporary_block_loop [] block_map = Ok block_map"
| "temporary_block_loop (jisyo_line # jisyo_lines) block_map =
     and_then (get_dictionary_midashi_key (fst jisyo_line)) (\<lambda>key.
     let block = (case map_of block_map key of None \<Rightarrow> [lf] | Some b \<Rightarrow> b)
     in temporary_block_loop jisyo_lines
          (btree_insert key (block @ entry_line jisyo_line) block_map))"

definition create_temporary_block_map :: "(bytes \<times> bytes) list \<Rightarrow> temporary_block_map res" where
  "create_temporary_block_map merged_jisyo_entries = temporary_block_loop merged_jisyo_entries []"

function max_entry_loop :: "twoway \<Rightarrow> bytes \<Rightarrow> nat \<Rightarrow> nat \<Rightarrow> nat res" where
  "max_entry_loop tw buffer i max_entry_length =
     (case tail_res buffer (i + 1) of
        Ok rest \<Rightarrow>
          (case find_bytes tw rest [lf] of
             None \<Rightarrow> Err JisyoRead
           | Some fnd \<Rightarrow>
               let len = 1 + fnd + 1;
                   max_entry_length' = max max_entry_length len
               in if 1 + i + fnd + 1 = length buffer then Ok max_entry_length'
                  else max_entry_loop tw buffer (i + fnd + 1) max_entry_length')
      | _ \<Rightarrow> Panic)"
  by pat_completeness auto
termination
  by (relation "measure (\<lambda>(tw, buffer, i, m). Suc (length buffer) - i)")
    (auto simp: tail_res_def split: if_splits)

declare max_entry_loop.simps [simp del]

definition get_max_entry_length :: "twoway \<Rightarrow> bytes \<Rightarrow> nat res" where
  "get_max_entry_length tw buffer = max_entry_loop tw buffer 0 0"

definition get_block_aligned_length :: "u32 \<Rightarrow> u32" where
  "get_block_aligned_length n = n + (block_alignment_length - n mod block_alignment_length)"

definition get_header_aligned_length :: "u32 \<Rightarrow> u32" where
  "get_header_aligned_length n = n + (header_alignment_length - n mod header_alignment_length)"

text \<open>
  The unit that begins at position \<open>i\<close>, which is that of a newline: its midashi, the position of its
  last newline, and whether it is the last one.
\<close>

definition next_unit :: "twoway \<Rightarrow> bytes \<Rightarrow> nat \<Rightarrow> nat \<Rightarrow> (bytes \<times> nat \<times> bool) res" where
  "next_unit tw block_buffer max_entry_length i =
     and_then (tail_res block_buffer i) (\<lambda>rest.
     case find_bytes tw rest [space] of
       None \<Rightarrow> Err JisyoRead
     | Some fnd \<Rightarrow>
         let n = length block_buffer;
             should_break = (i + dictionary_block_unit_length \<ge> n);
             unit_length = (if should_break then n - i else dictionary_block_unit_length)
         in and_then (slice_res block_buffer 0 (i + unit_length)) (\<lambda>front.
            let corrected = (rfind_bytes tw front [lf] = Some i);
                unit_length = (if corrected then max_entry_length else unit_length);
                should_break = (should_break \<or> corrected \<and> n = max_entry_length)
            in and_then (slice_res block_buffer 0 (i + unit_length)) (\<lambda>front'.
               case rfind_bytes tw front' [lf] of
                 None \<Rightarrow> Err JisyoRead
               | Some last_lf \<Rightarrow>
                   if last_lf < i then Panic
                   else and_then (slice_res block_buffer (i + 1) (i + fnd)) (\<lambda>midashi.
                     Ok (midashi, last_lf, should_break)))))"

lemma next_unit_bounds: "next_unit tw buf m i = Ok (midashi, r, b) \<Longrightarrow> i \<le> r \<and> i \<le> length buf"
  by (auto simp: next_unit_def and_then_eq_Ok Let_def tail_res_def split: option.splits if_splits)

text \<open>
  The loop over the units. A turn that ends where it began would be repeated without end
  (\<open>Diverge\<close>). The padding makes the block a multiple of the alignment.
\<close>

function block_informations_loop ::
  "twoway \<Rightarrow> bytes \<Rightarrow> nat \<Rightarrow> nat \<Rightarrow> nat \<Rightarrow> bytes \<Rightarrow> block_information list
     \<Rightarrow> (block_information list \<times> bytes) res" where
  "block_informations_loop tw block_buffer blocks_len max_entry_length i aligned_block infos =
     (case next_unit tw block_buffer max_entry_length i of
        Ok (midashi, last_lf, should_break) \<Rightarrow>
          let aligned_block' = aligned_block @ slice block_buffer i last_lf;
              infos' = infos @ [\<lparr>info_midashi = midashi, info_offset = of_nat (blocks_len + i),
                                 info_length = of_nat (last_lf + 1 - i)\<rparr>]
          in if should_break then
               let closed = aligned_block' @ [lf];
                   aligned_length = unat (get_block_aligned_length (of_nat (length closed)))
               in Ok (rev infos', closed @ replicate (aligned_length - length closed) 0x58)
             else if last_lf = i then Diverge
             else block_informations_loop tw block_buffer blocks_len max_entry_length last_lf
                    aligned_block' infos'
      | Err x \<Rightarrow> Err x
      | Panic \<Rightarrow> Panic
      | Undefined \<Rightarrow> Undefined
      | Diverge \<Rightarrow> Diverge)"
  by pat_completeness auto
termination
proof (relation "measure (\<lambda>(tw, buf, b, m, i, a, infos). Suc (length buf) - i)", goal_cases)
  case (2 tw buf b m i a infos x midashi y last_lf should_break)
  then show ?case using next_unit_bounds [of tw buf m i midashi last_lf should_break] by auto
qed simp

declare block_informations_loop.simps [simp del]

definition get_dictionary_block_informations ::
  "twoway \<Rightarrow> bytes \<Rightarrow> nat \<Rightarrow> (block_information list \<times> bytes) res" where
  "get_dictionary_block_informations tw block_buffer blocks_len =
     and_then (get_max_entry_length tw block_buffer) (\<lambda>m.
     block_informations_loop tw block_buffer blocks_len m 0 [] [])"


section \<open>Index data\<close>

text \<open>The bytes written for one key: heads, offsets and lengths, and the midashi joined by spaces.\<close>

definition index_unit :: "endianness \<Rightarrow> dictionary_midashi_key \<Rightarrow> block_information list \<Rightarrow> bytes" where
  "index_unit e key infos =
     (let joined_midashi = join_with space (map info_midashi infos)
      in block_heads_to_bytes e \<lparr>information_length = of_nat (length infos),
             information_midashi_length = of_nat (length joined_midashi), heads_midashi_key = key\<rparr>
         @ concat (map (\<lambda>v. offset_length_to_bytes e
                             \<lparr>ol_offset = info_offset v, ol_length = info_length v\<rparr>) infos)
         @ joined_midashi)"

record index_state =
  st_index_data_header :: bytes
  st_block_header_length :: u32
  st_block_offset :: nat
  st_block_length :: nat
  st_block_unit_length :: u32
  st_previous_length :: nat
  st_index_data :: bytes
  st_blocks :: bytes

text \<open>\<open>IndexDataHeader::default()\<close> holds the place of the header.\<close>

definition index_state_new :: "endianness \<Rightarrow> index_state" where
  "index_state_new e = \<lparr>
     st_index_data_header =
       index_data_header_to_bytes e \<lparr>block_buffer_length = 0, block_header_length = 0\<rparr>,
     st_block_header_length = 0, st_block_offset = 0, st_block_length = 0, st_block_unit_length = 0,
     st_previous_length = 0, st_index_data = [], st_blocks = []\<rparr>"

definition push_block_header :: "endianness \<Rightarrow> index_state \<Rightarrow> index_state" where
  "push_block_header e st = st\<lparr>
     st_block_header_length := st_block_header_length st + 1,
     st_index_data_header := st_index_data_header st @ block_header_to_bytes e
       \<lparr>bh_offset = of_nat (st_block_offset st), bh_length = of_nat (st_block_length st),
        bh_unit_length = st_block_unit_length st\<rparr>\<rparr>"

definition index_data_step ::
  "endianness \<Rightarrow> twoway \<Rightarrow> dictionary_midashi_key \<times> bytes \<Rightarrow> index_state \<Rightarrow> index_state res" where
  "index_data_step e tw kb st =
     and_then (get_dictionary_block_informations tw (snd kb) (length (st_blocks st)))
       (\<lambda>(infos, aligned_block).
     let st = st\<lparr>st_index_data := st_index_data st @ index_unit e (fst kb) infos,
                  st_blocks := st_blocks st @ aligned_block\<rparr>;
         current_index_data_length = length (st_index_data st) - st_previous_length st;
         st = st\<lparr>st_previous_length := length (st_index_data st)\<rparr>
     in Ok (if st_block_length st + current_index_data_length \<ge> index_data_block_length then
              (push_block_header e st)\<lparr>
                st_block_offset := length (st_index_data st) - current_index_data_length,
                st_block_length := current_index_data_length,
                st_block_unit_length := 1\<rparr>
            else
              st\<lparr>st_block_length := st_block_length st + current_index_data_length,
                 st_block_unit_length := st_block_unit_length st + 1\<rparr>))"

fun index_data_loop ::
  "endianness \<Rightarrow> twoway \<Rightarrow> temporary_block_map \<Rightarrow> index_state \<Rightarrow> index_state res" where
  "index_data_loop e tw [] st = Ok st"
| "index_data_loop e tw (kb # kbs) st =
     and_then (index_data_step e tw kb st) (\<lambda>st'. index_data_loop e tw kbs st')"

record create_index_data_result =
  cr_index_data_header :: bytes
  cr_index_data :: bytes
  cr_blocks :: bytes

definition create_index_data ::
  "endianness \<Rightarrow> twoway \<Rightarrow> (bytes \<times> bytes) list \<Rightarrow> create_index_data_result res" where
  "create_index_data e tw merged_jisyo_entries =
     and_then (create_temporary_block_map merged_jisyo_entries) (\<lambda>block_map.
     and_then (index_data_loop e tw block_map (index_state_new e)) (\<lambda>st.
     let st = (if st_block_length st > 0 then push_block_header e st else st);
         header = index_data_header_to_bytes e
           \<lparr>block_buffer_length = of_nat index_data_block_length,
            block_header_length = st_block_header_length st\<rparr>
     in Ok \<lparr>cr_index_data_header = header @ drop 8 (st_index_data_header st),
            cr_index_data = st_index_data st, cr_blocks = st_blocks st\<rparr>))"

section \<open>The dictionary file\<close>

text \<open>\<open>usize\<close> sums are cast to \<open>u32\<close>; the \<open>u32\<close> sums wrap in a release build.\<close>

definition create_dictionary_fixed_header ::
  "nat \<Rightarrow> nat \<Rightarrow> nat \<Rightarrow> nat \<Rightarrow> encoding \<Rightarrow> fixed_header \<times> u32" where
  "create_dictionary_fixed_header table_len header_len index_len blocks_len enc =
     (let raw_blocks_offset = of_nat (unat dictionary_fixed_header_area_length + table_len
            + header_len + index_len);
          aligned_blocks_offset = get_header_aligned_length raw_blocks_offset;
          blocks_padding_length = aligned_blocks_offset - raw_blocks_offset;
          table_offset = unat dictionary_fixed_header_area_length;
          header_offset = table_offset + table_len;
          index_offset = header_offset + header_len;
          dict_len = unat aligned_blocks_offset + blocks_len
      in (\<lparr>dictionary_version = dictionary_version_number,
           encoding_table_offset = of_nat table_offset, encoding_table_length = of_nat table_len,
           index_data_header_offset = of_nat header_offset,
           index_data_header_length = of_nat header_len,
           index_data_offset = of_nat index_offset, index_data_length = of_nat index_len,
           blocks_offset = aligned_blocks_offset, blocks_length = of_nat blocks_len,
           dictionary_length = of_nat dict_len, header_encoding = encoding_as_u32 enc,
           sha1sum = sha1sum_zero\<rparr>,
          blocks_padding_length))"

text \<open>The bytes written, which are also the bytes hashed.\<close>

definition write_and_calculate_hash ::
  "bytes \<Rightarrow> bytes \<Rightarrow> create_index_data_result \<Rightarrow> u32 \<Rightarrow> bytes" where
  "write_and_calculate_hash fixed_header_area encoding_table r blocks_padding_length =
     fixed_header_area @ encoding_table @ cr_index_data_header r @ cr_index_data r
       @ replicate (unat blocks_padding_length) 0 @ cr_blocks r"

text \<open>The header is written again, at the start of the file, with the digest.\<close>

definition write_hash :: "endianness \<Rightarrow> (bytes \<Rightarrow> bytes) \<Rightarrow> bytes \<Rightarrow> fixed_header \<Rightarrow> bytes" where
  "write_hash e sha1 file header =
     (let header_bytes = fixed_header_to_bytes e (header\<lparr>sha1sum := sha1 file\<rparr>)
      in header_bytes @ drop (length header_bytes) file)"

text \<open>\<open>DictionaryCreator::create\<close>, as the file it leaves; the verbose output is not modelled.\<close>

definition create_dictionary ::
  "endianness \<Rightarrow> twoway \<Rightarrow> (bytes \<Rightarrow> bytes) \<Rightarrow> encoding \<Rightarrow> bytes \<Rightarrow> (bytes \<times> bytes) list res \<Rightarrow> bytes res" where
  "create_dictionary e tw sha1 enc encoding_table merged_jisyo_entries =
     and_then merged_jisyo_entries (\<lambda>entries.
     and_then (create_index_data e tw entries) (\<lambda>r.
     let (header, blocks_padding_length) =
           create_dictionary_fixed_header (length encoding_table)
             (length (cr_index_data_header r)) (length (cr_index_data r)) (length (cr_blocks r)) enc;
         header_bytes = fixed_header_to_bytes e header;
         area = header_bytes
           @ replicate (unat dictionary_fixed_header_area_length - length header_bytes) 0;
         file = write_and_calculate_hash area encoding_table r blocks_padding_length
     in Ok (write_hash e sha1 file header)))"

end
