(* ===== verification/Block_Units.thy ===== *)
theory Block_Units
  imports Dictionary_Creator
begin

text \<open>
  How \<open>get_dictionary_block_informations\<close> divides a block: when every entry is shorter than a unit the
  block falls into consecutive groups of whole entries, each described by the midashi of its first
  entry, its offset and its length, listed last group first; when the last of several entries is
  longer than a unit, the division fails.
\<close>

section \<open>Blocks of entries\<close>

definition block_of :: "(bytes \<times> bytes) list \<Rightarrow> bytes" where
  "block_of es = lf # concat (map entry_line es)"

definition lines_length :: "(bytes \<times> bytes) list \<Rightarrow> nat" where
  "lines_length es = length (concat (map entry_line es))"

definition entry_ok :: "bytes \<times> bytes \<Rightarrow> bool" where
  "entry_ok p \<longleftrightarrow> fst p \<noteq> [] \<and> space \<notin> set (fst p) \<and> lf \<notin> set (fst p) \<and> lf \<notin> set (snd p)"

lemma length_block_of [simp]: "length (block_of es) = Suc (lines_length es)"
  by (simp add: block_of_def lines_length_def)

lemma lines_length_simps [simp]:
  "lines_length [] = 0" "lines_length (p # ps) = length (entry_line p) + lines_length ps"
  "lines_length (ps @ qs) = lines_length ps + lines_length qs"
  by (simp_all add: lines_length_def)

lemma length_entry_line: "length (entry_line p) = length (fst p) + length (snd p) + 2"
  by (simp add: entry_line_def)

lemma lines_length_0 [simp]: "lines_length es = 0 \<longleftrightarrow> es = []"
  by (cases es) (simp_all add: length_entry_line)

lemma lines_length_pos [simp]: "0 < lines_length es \<longleftrightarrow> es \<noteq> []"
  using lines_length_0 [of es] by linarith

lemma entry_line_split:
  "entry_line p = butlast (entry_line p) @ [lf]" "entry_ok p \<Longrightarrow> lf \<notin> set (butlast (entry_line p))"
proof -
  have e: "entry_line p = (fst p @ [space] @ snd p) @ [lf]" by (simp add: entry_line_def)
  show "entry_line p = butlast (entry_line p) @ [lf]" by (metis e butlast_snoc)
  show "entry_ok p \<Longrightarrow> lf \<notin> set (butlast (entry_line p))"
    by (simp only: e butlast_snoc) (simp add: entry_ok_def)
qed

lemma block_of_append: "block_of (es @ fs) = lf # concat (map entry_line es) @ concat (map entry_line fs)"
  by (simp add: block_of_def)

text \<open>The newlines of a block are where entries end.\<close>

lemma newline_positions:
  assumes "\<forall>p \<in> set es. entry_ok p" and "j < length (block_of es)" and "block_of es ! j = lf"
  shows "\<exists>g h. es = g @ h \<and> j = lines_length g"
  using assms
proof (induction es arbitrary: j)
  case Nil
  then show ?case by simp
next
  case (Cons p es)
  define l where "l = butlast (entry_line p)"
  have p: "entry_line p = l @ [lf]" "lf \<notin> set l"
    using entry_line_split [of p] Cons.prems(1) by (simp_all add: l_def)
  have b: "block_of (p # es) = (lf # l) @ block_of es"
    by (simp add: block_of_def p)
  show ?case
  proof (cases "j \<le> length l")
    case True
    have "((lf # l) @ block_of es) ! j = (lf # l) ! j"
      using True by (simp add: nth_append del: append_Cons)
    then have "(lf # l) ! j = lf" using Cons.prems(3) by (simp add: b)
    then have "j = 0" using p(2) True by (cases j) (simp, metis Suc_le_lessD nth_Cons_Suc nth_mem)
    then have "p # es = [] @ (p # es) \<and> j = lines_length []" by simp
    then show ?thesis by blast
  next
    case False
    have "((lf # l) @ block_of es) ! j = block_of es ! (j - Suc (length l))"
      using False by (simp add: nth_append del: append_Cons)
    then have "block_of es ! (j - Suc (length l)) = lf" "j - Suc (length l) < length (block_of es)"
      using Cons.prems(2,3) False by (simp_all add: b p)
    from Cons.IH [OF _ this(2,1)] Cons.prems(1) obtain g h where
      "es = g @ h" "j - Suc (length l) = lines_length g" by auto
    then have "p # es = (p # g) @ h" "j = lines_length (p # g)" using False by (simp_all add: p)
    then show ?thesis by blast
  qed
qed

lemma newline_after: "block_of (g @ h) ! lines_length g = lf"
proof (cases g rule: rev_cases)
  case (snoc g' p)
  have "block_of (g @ h) = (lf # concat (map entry_line g') @ butlast (entry_line p)) @ lf # concat (map entry_line h)"
    by (subst entry_line_split(1)) (simp add: snoc block_of_def flip: entry_line_split(1))
  moreover have "lines_length g = length (lf # concat (map entry_line g') @ butlast (entry_line p))"
    using entry_line_split(1) [of p] by (simp add: snoc lines_length_def length_entry_line)
  ultimately show ?thesis by (simp only: nth_append_length)
qed (simp add: block_of_def)

section \<open>The longest entry\<close>

lemma max_entry_loop_block:
  assumes tw: "twoway_documented tw" and "\<forall>p \<in> set es. entry_ok p" and "es \<noteq> []"
  shows "max_entry_loop tw (pre @ block_of es) (length pre) m
    = Ok (fold max (map (\<lambda>p. Suc (length (entry_line p))) es) m)"
  using assms(2,3)
proof (induction es arbitrary: pre m)
  case (Cons p es)
  define l where "l = butlast (entry_line p)"
  have p: "entry_line p = l @ [lf]" "lf \<notin> set l"
    using entry_line_split [of p] Cons.prems(1) by (simp_all add: l_def)
  have b: "block_of (p # es) = lf # l @ lf # concat (map entry_line es)"
    by (simp add: block_of_def p)
  have t: "tail_res (pre @ block_of (p # es)) (length pre + 1) = Ok (l @ lf # concat (map entry_line es))"
    by (simp add: tail_res_def b)
  have f: "find_bytes tw (l @ lf # concat (map entry_line es)) [lf] = Some (length l)"
    using find_byte_first [OF tw p(2)] .
  have m: "max_entry_loop tw (pre @ block_of (p # es)) (length pre) m =
      (if es = [] then Ok (max m (length l + 2))
       else max_entry_loop tw (pre @ block_of (p # es)) (length pre + length l + 1) (max m (length l + 2)))"
    by (subst max_entry_loop.simps, unfold t) (simp add: f p Let_def)
  have shift: "pre @ block_of (p # es) = (pre @ lf # l) @ block_of es"
    by (simp add: block_of_def p)
  show ?case
  proof (cases "es = []")
    case True
    then show ?thesis unfolding m by (simp add: p max.commute)
  next
    case False
    then have "max_entry_loop tw ((pre @ lf # l) @ block_of es) (length (pre @ lf # l)) (max m (length l + 2))
        = Ok (fold max (map (\<lambda>p. Suc (length (entry_line p))) es) (max m (length l + 2)))"
      using Cons.prems(1) by (intro Cons.IH) simp_all
    then show ?thesis using False unfolding m by (simp add: p shift max.commute)
  qed
qed simp


section \<open>Division into units\<close>

text \<open>The informations of a division into groups, first group first.\<close>

fun infos_for :: "nat \<Rightarrow> nat \<Rightarrow> (bytes \<times> bytes) list list \<Rightarrow> block_information list" where
  "infos_for b i [] = []"
| "infos_for b i (g # gs) =
     \<lparr>info_midashi = fst (hd g), info_offset = of_nat (b + i), info_length = of_nat (length (block_of g))\<rparr>
     # infos_for b (i + lines_length g) gs"

definition padded :: "bytes \<Rightarrow> bytes" where
  "padded block = block @ replicate
     (unat (get_block_aligned_length (of_nat (length block))) - length block) 0x58"

definition short_entry :: "bytes \<times> bytes \<Rightarrow> bool" where
  "short_entry p \<longleftrightarrow> Suc (length (entry_line p)) \<le> dictionary_block_unit_length"

lemma find_space_block:
  assumes "twoway_documented tw" "entry_ok p"
  shows "find_bytes tw (block_of (p # es)) [space] = Some (Suc (length (fst p)))"
proof -
  have "block_of (p # es) = (lf # fst p) @ space # snd p @ lf # concat (map entry_line es)"
    by (simp add: block_of_def entry_line_def)
  moreover have "space \<notin> set (lf # fst p)" using assms(2) by (simp add: entry_ok_def)
  ultimately show ?thesis using find_byte_first [OF assms(1), of space "lf # fst p"] by simp
qed

text \<open>
  A front part of the buffer that reaches past the first entry ends in a unit: the last newline in
  it is the end of a group of entries.
\<close>

lemma last_newline:
  assumes tw: "twoway_documented tw" and ok: "\<forall>p \<in> set es. entry_ok p" and es: "es = p # es'"
    and k: "length (entry_line p) < k" "k \<le> length (block_of es)"
  obtains g h where "es = g @ h" "g \<noteq> []" "lines_length g < k"
    "rfind_bytes tw (take (length pre + k) (pre @ block_of es)) [lf] = Some (length pre + lines_length g)"
    "k = length (block_of es) \<Longrightarrow> h = []"
proof -
  let ?f = "take (length pre + k) (pre @ block_of es)"
  have nth: "?f ! (length pre + j) = block_of es ! j" if "j < k" for j
    using that by (simp add: nth_append)
  have len: "length ?f = length pre + k" using k(2) by simp
  have e: "block_of es ! lines_length [p] = lf" using newline_after [of "[p]" es'] es by simp
  have "length pre + lines_length [p] < length ?f" "?f ! (length pre + lines_length [p]) = lf"
    using k len e nth [of "lines_length [p]"] by simp_all
  from rfind_byte_some [OF tw this] obtain r where
    r: "rfind_bytes tw ?f [lf] = Some r" "length pre + lines_length [p] \<le> r" "r < length ?f" "?f ! r = lf"
      "\<And>j. r < j \<Longrightarrow> j < length ?f \<Longrightarrow> ?f ! j \<noteq> lf" by blast
  define j where "j = r - length pre"
  have j: "r = length pre + j" "lines_length [p] \<le> j" "j < k" using r(2,3) len by (simp_all add: j_def)
  have "block_of es ! j = lf" using r(4) nth [OF j(3)] by (simp add: j(1))
  then obtain g h where gh: "es = g @ h" "j = lines_length g"
    using newline_positions [OF ok, of j] j(3) k(2) by auto
  have "g \<noteq> []" using j(2) gh(2) by (auto simp: length_entry_line)
  moreover have "h = []" if "k = length (block_of es)"
  proof (rule ccontr)
    assume "h \<noteq> []"
    then have "lines_length g < lines_length es" by (simp add: gh(1))
    moreover have "?f ! (length pre + lines_length es) = lf"
      using nth [of "lines_length es"] that newline_after [of es "[]"] by simp
    ultimately show False using r(5) [of "length pre + lines_length es"] that len by (simp add: j(1) gh(2))
  qed
  ultimately show ?thesis using that [of g h] gh j r(1) by simp
qed

lemma slice_group: "slice (pre @ block_of (g @ h)) (length pre) (length pre + lines_length g) @ block_of h
   = block_of (g @ h)"
  and prefix_group: "pre @ block_of (g @ h)
   = (pre @ slice (pre @ block_of (g @ h)) (length pre) (length pre + lines_length g)) @ block_of h"
  and length_slice_group: "length (slice (pre @ block_of (g @ h)) (length pre) (length pre + lines_length g))
   = lines_length g"
proof -
  show "slice (pre @ block_of (g @ h)) (length pre) (length pre + lines_length g) @ block_of h
      = block_of (g @ h)"
  proof (cases g rule: rev_cases)
    case Nil
    then show ?thesis by simp
  next
    case (snoc g' p)
    let ?b = "lf # concat (map entry_line g') @ butlast (entry_line p)"
    have b: "block_of (g @ h) = ?b @ block_of h"
      by (subst entry_line_split(1)) (simp add: snoc block_of_def flip: entry_line_split(1))
    have l: "lines_length g = length ?b" by (simp add: snoc lines_length_def length_entry_line)
    show ?thesis unfolding b l by (simp add: slice_def)
  qed
  then show "pre @ block_of (g @ h)
   = (pre @ slice (pre @ block_of (g @ h)) (length pre) (length pre + lines_length g)) @ block_of h"
    by simp
  show "length (slice (pre @ block_of (g @ h)) (length pre) (length pre + lines_length g))
   = lines_length g"
    by simp
qed


text \<open>One turn on a block whose first entry is short.\<close>

lemma next_unit_short:
  assumes tw: "twoway_documented tw" and ok: "\<forall>p \<in> set es. entry_ok p" and es: "es = p # es'"
    and short: "short_entry p"
  obtains g h where "es = g @ h" "g \<noteq> []" "length (block_of g) \<le> dictionary_block_unit_length"
    "next_unit tw (pre @ block_of es) m (length pre)
      = Ok (fst (hd g), length pre + lines_length g, h = [])"
proof -
  let ?u = dictionary_block_unit_length
  let ?n = "length (block_of es)"
  have p_ok: "entry_ok p" using ok es by simp
  have f: "find_bytes tw (block_of es) [space] = Some (Suc (length (fst p)))"
    unfolding es by (rule find_space_block [OF tw p_ok])
  have t: "tail_res (pre @ block_of es) (length pre) = Ok (block_of es)"
    by (simp add: tail_res_def)
  have mid: "slice_res (pre @ block_of es) (length pre + 1) (length pre + Suc (length (fst p))) = Ok (fst p)"
  proof -
    have "pre @ block_of es = (pre @ [lf]) @ fst p @ (space # snd p @ lf # concat (map entry_line es'))"
      by (simp add: es block_of_def entry_line_def)
    moreover have "slice ((pre @ [lf]) @ fst p @ (space # snd p @ lf # concat (map entry_line es')))
        (length pre + 1) (length pre + Suc (length (fst p))) = fst p"
      by (rule slice_eq_middle) simp_all
    ultimately show ?thesis by (simp only: slice_res_def) (simp add: entry_line_def)
  qed
  define k where "k = min ?n ?u"
  have k: "length (entry_line p) < k" "k \<le> ?n"
    using short by (simp_all add: k_def short_entry_def es)
  from last_newline [OF tw ok es k, of pre] obtain g h where gh: "es = g @ h" "g \<noteq> []" "lines_length g < k"
    "rfind_bytes tw (take (length pre + k) (pre @ block_of es)) [lf] = Some (length pre + lines_length g)"
    "k = ?n \<Longrightarrow> h = []" by blast
  have brk: "length pre + ?u \<ge> length (pre @ block_of es) \<longleftrightarrow> h = []"
  proof
    assume "length pre + ?u \<ge> length (pre @ block_of es)"
    then show "h = []" using gh(5) by (simp add: k_def)
  next
    assume "h = []"
    then have "lines_length g = lines_length es" using gh(1) by simp
    then show "length pre + ?u \<ge> length (pre @ block_of es)" using gh(3) by (simp add: k_def)
  qed
  have u: "(if h = [] then length (pre @ block_of es) - length pre else ?u) = k"
    using brk by (auto simp: k_def)
  have s: "slice_res (pre @ block_of es) 0 (length pre + k) = Ok (take (length pre + k) (pre @ block_of es))"
    using k(2) by (simp add: slice_res_def slice_def)
  have hd: "hd g = p" using gh(1,2) es by (cases g) auto
  have g0: "lines_length g \<noteq> 0" using gh(2) by simp
  have "next_unit tw (pre @ block_of es) m (length pre)
      = Ok (fst (hd g), length pre + lines_length g, h = [])"
    unfolding next_unit_def t and_then.simps f option.case Let_def brk u s gh(4)
    using g0 mid by (simp add: s gh(4) hd del: take_append)
  moreover have "length (block_of g) \<le> ?u" using gh(3) by (simp add: k_def)
  ultimately show ?thesis using that gh by blast
qed

lemma block_informations_loop_short:
  assumes tw: "twoway_documented tw"
  shows "\<forall>p \<in> set es. entry_ok p \<and> short_entry p \<Longrightarrow> es \<noteq> [] \<Longrightarrow>
    \<exists>gs. concat gs = es \<and> (\<forall>g \<in> set gs. g \<noteq> [] \<and> length (block_of g) \<le> dictionary_block_unit_length) \<and>
      block_informations_loop tw (pre @ block_of es) b m (length pre) pre infos
        = Ok (rev (infos @ infos_for b (length pre) gs), padded (pre @ block_of es))"
proof (induction "length es" arbitrary: es pre infos rule: less_induct)
  case less
  obtain p es' where es: "es = p # es'" using less.prems(2) by (cases es) auto
  have ok: "\<forall>p \<in> set es. entry_ok p" and short: "short_entry p" using less.prems(1) es by auto
  obtain g h where gh: "es = g @ h" "g \<noteq> []" "length (block_of g) \<le> dictionary_block_unit_length"
    and n: "next_unit tw (pre @ block_of es) m (length pre)
      = Ok (fst (hd g), length pre + lines_length g, h = [])"
    using next_unit_short [OF tw ok es short] by blast
  define s where "s = slice (pre @ block_of es) (length pre) (length pre + lines_length g)"
  define info where "info = \<lparr>info_midashi = fst (hd g), info_offset = of_nat (b + length pre) :: u32,
      info_length = of_nat (length (block_of g)) :: u32\<rparr>"
  have s: "pre @ block_of es = (pre @ s) @ block_of h" "length s = lines_length g"
    using prefix_group [of pre g h] length_slice_group [of pre g h] by (simp_all add: s_def gh(1))
  have turn: "block_informations_loop tw (pre @ block_of es) b m (length pre) pre infos =
      (if h = [] then Ok (rev (infos @ [info]), padded (pre @ s @ [lf]))
       else block_informations_loop tw (pre @ block_of es) b m (length pre + lines_length g) (pre @ s)
          (infos @ [info]))"
    using gh(2) by (subst block_informations_loop.simps, unfold n)
      (simp add: s_def info_def Let_def padded_def algebra_simps)
  show ?case
  proof (cases "h = []")
    case True
    then have "pre @ s @ [lf] = pre @ block_of es" using s(1) by (simp add: block_of_def)
    then show ?thesis
      using True gh turn by (intro exI [of _ "[g]"]) (simp add: info_def)
  next
    case False
    have "length h < length es" using gh(1,2) by simp
    moreover have "\<forall>p \<in> set h. entry_ok p \<and> short_entry p" using less.prems(1) gh(1) by simp
    ultimately obtain gs where gs: "concat gs = h"
      "\<forall>g \<in> set gs. g \<noteq> [] \<and> length (block_of g) \<le> dictionary_block_unit_length"
      "block_informations_loop tw ((pre @ s) @ block_of h) b m (length (pre @ s)) (pre @ s) (infos @ [info])
        = Ok (rev ((infos @ [info]) @ infos_for b (length (pre @ s)) gs), padded ((pre @ s) @ block_of h))"
      using less.hyps False by blast
    have "block_informations_loop tw (pre @ block_of es) b m (length pre) pre infos
        = Ok (rev (infos @ infos_for b (length pre) (g # gs)), padded (pre @ block_of es))"
      using turn gs(3) s False by (simp add: info_def flip: s(1))
    then show ?thesis using gs(1,2) gh by (intro exI [of _ "g # gs"]) simp
  qed
qed

lemma block_informations_short:
  assumes tw: "twoway_documented tw" and es: "\<forall>p \<in> set es. entry_ok p \<and> short_entry p" "es \<noteq> []"
  obtains gs where "concat gs = es"
    "\<forall>g \<in> set gs. g \<noteq> [] \<and> length (block_of g) \<le> dictionary_block_unit_length"
    "get_dictionary_block_informations tw (block_of es) b = Ok (rev (infos_for b 0 gs), padded (block_of es))"
proof -
  have "\<exists>m. get_max_entry_length tw (block_of es) = Ok m"
    using max_entry_loop_block [OF tw _ es(2), of "[]" 0] es(1) by (auto simp: get_max_entry_length_def)
  then obtain m where "get_max_entry_length tw (block_of es) = Ok m" by blast
  with block_informations_loop_short [OF tw es, of "[]" b m "[]"] that show ?thesis
    by (auto simp: get_dictionary_block_informations_def)
qed


section \<open>A long last entry\<close>

text \<open>
  The front part of unit length holds no newline behind the first one, so the unit is corrected to
  the length of the longest entry of the whole block.
\<close>

lemma next_unit_long:
  assumes tw: "twoway_documented tw" and ok: "\<forall>p \<in> set es. entry_ok p" and es: "es = p # es'"
    and long: "\<not> short_entry p" and m: "length (entry_line p) < m" "m \<noteq> length (pre @ block_of es)"
  shows "next_unit tw (pre @ block_of es) m (length pre) = Panic \<or>
    (\<exists>g h. es = g @ h \<and> g \<noteq> [] \<and>
      next_unit tw (pre @ block_of es) m (length pre) = Ok (fst p, length pre + lines_length g, False))"
proof -
  let ?u = dictionary_block_unit_length
  let ?buf = "pre @ block_of es"
  define l where "l = butlast (entry_line p)"
  have l: "entry_line p = l @ [lf]" "lf \<notin> set l"
    using entry_line_split [of p] ok es by (simp_all add: l_def)
  have p_ok: "entry_ok p" using ok es by simp
  have long': "?u \<le> Suc (length l)" using long by (simp add: short_entry_def l)
  have u0: "0 < ?u" by (simp add: dictionary_block_unit_length_def)
  have b: "block_of es = lf # l @ lf # concat (map entry_line es')" by (simp add: es block_of_def l)
  have f: "find_bytes tw (block_of es) [space] = Some (Suc (length (fst p)))"
    unfolding es by (rule find_space_block [OF tw p_ok])
  have t: "tail_res ?buf (length pre) = Ok (block_of es)" by (simp add: tail_res_def)
  have brk: "length pre + ?u \<ge> length ?buf \<longleftrightarrow> False" using long' by (simp add: b)
  have front: "slice_res ?buf 0 (length pre + ?u) = Ok (pre @ lf # take (?u - 1) l)"
    using long' u0 by (simp add: slice_res_def slice_def b take_Cons')
  have corrected: "rfind_bytes tw (pre @ lf # take (?u - 1) l) [lf] = Some (length pre)"
    using l(2) by (intro rfind_byte_last [OF tw]) (auto dest: in_set_takeD)
  have mid: "slice_res ?buf (length pre + 1) (length pre + Suc (length (fst p))) = Ok (fst p)"
  proof -
    have "slice ((pre @ [lf]) @ fst p @ (space # snd p @ lf # concat (map entry_line es')))
        (length pre + 1) (length pre + Suc (length (fst p))) = fst p"
      by (rule slice_eq_middle) simp_all
    then show ?thesis by (simp only: slice_res_def) (simp add: entry_line_def es block_of_def)
  qed
  have m': "(length ?buf = m) = False" using m(2) by auto
  have n: "next_unit tw ?buf m (length pre) =
      and_then (slice_res ?buf 0 (length pre + m)) (\<lambda>front'.
        case rfind_bytes tw front' [lf] of None \<Rightarrow> Err JisyoRead
        | Some r \<Rightarrow> if r < length pre then Panic else Ok (fst p, r, False))"
    unfolding next_unit_def t and_then.simps f option.case Let_def brk if_False front corrected m'
      mid simp_thms if_True by (rule TrueI)
  show ?thesis
  proof (cases "m \<le> length (block_of es)")
    case True
    from last_newline [OF tw ok es m(1) True, of pre] obtain g h where
      gh: "es = g @ h" "g \<noteq> []"
      "rfind_bytes tw (take (length pre + m) ?buf) [lf] = Some (length pre + lines_length g)" by blast
    have "slice_res ?buf 0 (length pre + m) = Ok (take (length pre + m) ?buf)"
      using True by (simp add: slice_res_def slice_def)
    then have "next_unit tw ?buf m (length pre) = Ok (fst p, length pre + lines_length g, False)"
      unfolding n by (simp add: gh(3) del: take_append)
    then show ?thesis using gh(1,2) by blast
  next
    case False
    then show ?thesis by (simp add: n slice_res_def)
  qed
qed

lemma block_informations_loop_long_last:
  assumes tw: "twoway_documented tw"
  shows "\<forall>p \<in> set es. entry_ok p \<and> length (entry_line p) < m \<Longrightarrow> es \<noteq> [] \<Longrightarrow>
    \<not> short_entry (last es) \<Longrightarrow> m \<noteq> length (pre @ block_of es) \<Longrightarrow>
    block_informations_loop tw (pre @ block_of es) b m (length pre) a infos \<in> {Panic, Err JisyoRead}"
proof (induction "length es" arbitrary: es pre a infos rule: less_induct)
  case less
  let ?buf = "pre @ block_of es"
  obtain p es' where es: "es = p # es'" using less.prems(2) by (cases es) auto
  have ok: "\<forall>p \<in> set es. entry_ok p" using less.prems(1) by simp
  have go: "block_informations_loop tw ?buf b m (length pre) a infos \<in> {Panic, Err JisyoRead}"
    if gh: "es = g @ h" "g \<noteq> []" and n: "next_unit tw ?buf m (length pre) = Ok (x, length pre + lines_length g, False)"
    for g h x
  proof -
    define s where "s = slice ?buf (length pre) (length pre + lines_length g)"
    have s: "?buf = (pre @ s) @ block_of h" "length s = lines_length g"
      using prefix_group [of pre g h] length_slice_group [of pre g h] by (simp_all add: s_def gh(1))
    have g0: "lines_length g \<noteq> 0" using gh(2) by simp
    have "\<exists>a' infos'. block_informations_loop tw ?buf b m (length pre) a infos =
        block_informations_loop tw ?buf b m (length (pre @ s)) a' infos'"
      by (subst block_informations_loop.simps, unfold n) (use g0 in \<open>simp add: s(2) Let_def, blast\<close>)
    then obtain a' infos' where turn: "block_informations_loop tw ?buf b m (length pre) a infos =
        block_informations_loop tw ?buf b m (length (pre @ s)) a' infos'" by blast
    show ?thesis
    proof (cases "h = []")
      case True
      have t: "tail_res ?buf (length (pre @ s)) = Ok [lf]"
        unfolding s(1) by (simp add: tail_res_def True block_of_def)
      have "next_unit tw ?buf m (length (pre @ s)) = Err JisyoRead"
        unfolding next_unit_def t using find_byte_none [OF tw, of space "[lf]"] by simp
      then show ?thesis unfolding turn by (subst block_informations_loop.simps) simp
    next
      case False
      have "block_informations_loop tw ((pre @ s) @ block_of h) b m (length (pre @ s)) a' infos'
          \<in> {Panic, Err JisyoRead}"
        using less.prems gh False s by (intro less.hyps) simp_all
      then show ?thesis unfolding turn by (simp only: s(1) [symmetric])
    qed
  qed
  show ?case
  proof (cases "short_entry p")
    case True
    from next_unit_short [OF tw ok es True, of pre m] obtain g h where
      gh: "es = g @ h" "g \<noteq> []" "length (block_of g) \<le> dictionary_block_unit_length"
      "next_unit tw ?buf m (length pre) = Ok (fst (hd g), length pre + lines_length g, h = [])" by blast
    have "h \<noteq> []"
    proof
      assume "h = []"
      then have g: "g = es" using gh(1) by simp
      have "es = butlast es @ [last es]" using less.prems(2) by simp
      then have "lines_length es = lines_length (butlast es) + length (entry_line (last es))"
        by (metis lines_length_simps add.right_neutral)
      then show False using less.prems(3) gh(3) by (simp add: short_entry_def g)
    qed
    with go gh show ?thesis by simp
  next
    case False
    have "length (entry_line p) < m" using less.prems(1) es by simp
    from next_unit_long [OF tw ok es False this less.prems(4)] show ?thesis
    proof
      assume "next_unit tw ?buf m (length pre) = Panic"
      then show ?thesis by (subst block_informations_loop.simps) simp
    qed (use go in blast)
  qed
qed

lemma max_bounds:
  fixes f :: "'a \<Rightarrow> nat"
  shows "(\<forall>x \<in> set xs. f x \<le> fold max (map f xs) k) \<and> k \<le> fold max (map f xs) k
    \<and> fold max (map f xs) k \<in> insert k (f ` set xs)"
  by (induction xs arbitrary: k) (auto simp: max_def, (meson le_trans nat_le_linear)+)

lemma block_informations_long_last:
  assumes tw: "twoway_documented tw" and ok: "\<forall>p \<in> set (es @ [e]). entry_ok p" and es: "es \<noteq> []"
    and long: "\<not> short_entry e"
  shows "get_dictionary_block_informations tw (block_of (es @ [e])) b \<in> {Panic, Err JisyoRead}"
proof -
  let ?f = "\<lambda>p. Suc (length (entry_line p))"
  define m where "m = fold max (map ?f (es @ [e])) 0"
  have g: "get_max_entry_length tw (block_of (es @ [e])) = Ok m"
    using max_entry_loop_block [OF tw ok, of "[]" 0] by (simp add: get_max_entry_length_def m_def)
  have m: "\<forall>p \<in> set (es @ [e]). ?f p \<le> m" "m \<in> insert 0 (?f ` set (es @ [e]))"
    using max_bounds [of "es @ [e]" ?f 0] unfolding m_def by blast+
  have len: "length (entry_line p) < lines_length (es @ [e])" if "p \<in> set (es @ [e])" for p
  proof (cases "p = e")
    case True
    then show ?thesis using es by simp
  next
    case False
    then have "p \<in> set es" using that by simp
    then obtain xs ys where "es = xs @ p # ys" using split_list [of p es] by blast
    then show ?thesis by (simp add: length_entry_line)
  qed
  have "m \<noteq> length ([] @ block_of (es @ [e]))"
  proof
    assume "m = length ([] @ block_of (es @ [e]))"
    then have "m = Suc (lines_length (es @ [e]))" by simp
    then have "m \<in> ?f ` set (es @ [e])" using m(2) by (metis insertE nat.distinct(1))
    then obtain p where "p \<in> set (es @ [e])" "m = ?f p" by blast
    with len [of p] \<open>m = Suc (lines_length (es @ [e]))\<close> show False by simp
  qed
  with block_informations_loop_long_last [OF tw, of "es @ [e]" m "[]" b "[]" "[]"] ok m(1) long g
  show ?thesis by (auto simp: get_dictionary_block_informations_def Suc_le_eq)
qed

end
