(* ===== verification/Index_Roundtrip.thy ===== *)
theory Index_Roundtrip
  imports Block_Units
begin

text \<open>
  The index data that \<open>create_index_data\<close> writes is read back by \<open>Dictionary::setup\<close>: per unit, per
  block of units, and for the whole dictionary file, with its checksum and the offsets of its header.
\<close>

section \<open>One unit\<close>

definition u32_sized :: "nat \<Rightarrow> bool" where
  "u32_sized n \<longleftrightarrow> n < 2 ^ 32"

lemma unat_of_sized: "u32_sized n \<Longrightarrow> unat (of_nat n :: u32) = n"
  by (simp add: u32_sized_def unsigned_of_nat take_bit_nat_eq_self)

definition infos_ok :: "block_information list \<Rightarrow> bool" where
  "infos_ok infos \<longleftrightarrow> infos \<noteq> [] \<and> list_all (\<lambda>v. space \<notin> set (info_midashi v)) infos
     \<and> u32_sized (length infos) \<and> u32_sized (length (join_with space (map info_midashi infos)))"

definition offsets_of :: "endianness \<Rightarrow> block_information list \<Rightarrow> bytes" where
  "offsets_of e infos = concat (map (offset_length_to_bytes e)
     (map (\<lambda>v. \<lparr>ol_offset = info_offset v, ol_length = info_length v\<rparr>) infos))"

lemma length_offsets_of: "length (offsets_of e infos) = length infos * 8"
  using offset_codec.length_array [of "map (\<lambda>v. \<lparr>ol_offset = info_offset v, ol_length = info_length v\<rparr>) infos" e]
  by (simp add: offsets_of_def)

lemma index_unit_eq:
  "index_unit e key infos = block_heads_to_bytes e \<lparr>information_length = of_nat (length infos),
       information_midashi_length = of_nat (length (join_with space (map info_midashi infos))),
       heads_midashi_key = key\<rparr> @ offsets_of e infos @ join_with space (map info_midashi infos)"
  by (simp add: index_unit_def offsets_of_def Let_def comp_def)

lemma length_index_unit:
  "length key = 4 \<Longrightarrow> length (index_unit e key infos)
     = 12 + length infos * 8 + length (join_with space (map info_midashi infos))"
  using heads_codec.length_to_bytes [of "\<lparr>information_length = of_nat (length infos),
       information_midashi_length = of_nat (length (join_with space (map info_midashi infos))),
       heads_midashi_key = key\<rparr>" e]
  by (simp add: index_unit_eq length_offsets_of block_heads_wf_def)

lemma read_informations_offsets:
  assumes "length pre = p + 12"
  shows "i + length ms = length infos \<Longrightarrow>
    read_informations e (pre @ offsets_of e infos @ rest) p ms i =
      Ok (map2 (\<lambda>m v. \<lparr>info_midashi = m, info_offset = info_offset v, info_length = info_length v\<rparr>)
            ms (drop i infos))"
proof (induction ms arbitrary: i)
  case (Cons m ms)
  let ?ols = "map (\<lambda>v. \<lparr>ol_offset = info_offset v, ol_length = info_length v\<rparr>) infos"
  have i: "i < length infos" using Cons.prems by simp
  have t: "tail_res (pre @ offsets_of e infos @ rest) (p + 12 + i * 8)
      = Ok (drop (i * 8) (offsets_of e infos @ rest))"
    using i by (simp add: tail_res_def assms length_offsets_of)
  have r: "offset_length_from_bytes e (drop (i * 8) (offsets_of e infos @ rest)) = Ok (?ols ! i)"
    unfolding offsets_of_def using offset_codec.read_array [of ?ols i e rest] i by simp
  have d: "drop i infos = infos ! i # drop (Suc i) infos" using i by (simp add: Cons_nth_drop_Suc)
  have IH: "read_informations e (pre @ offsets_of e infos @ rest) p ms (i + 1) =
      Ok (map2 (\<lambda>m v. \<lparr>info_midashi = m, info_offset = info_offset v, info_length = info_length v\<rparr>)
            ms (drop (i + 1) infos))"
    using Cons.prems by (intro Cons.IH) simp
  show ?case
    unfolding read_informations.simps t and_then.simps r IH using i by (simp add: d)
qed simp

lemma map2_midashi:
  "map2 (\<lambda>m v. \<lparr>info_midashi = m, info_offset = info_offset v, info_length = info_length v\<rparr>)
     (map info_midashi infos) infos = (infos :: block_information list)"
  by (induction infos) auto

lemma update_unit:
  assumes key: "length key = 4" and ok: "infos_ok infos"
  shows "update_index_map_and_index_ascii_hiragana_vec e (Suc n)
      (pre @ index_unit e key infos @ rest) (length pre) maps
    = update_index_map_and_index_ascii_hiragana_vec e n (pre @ index_unit e key infos @ rest)
        (length pre + length (index_unit e key infos)) (store_informations key infos maps)"
proof -
  let ?j = "join_with space (map info_midashi infos)"
  let ?h = "\<lparr>information_length = of_nat (length infos), information_midashi_length = of_nat (length ?j),
      heads_midashi_key = key\<rparr> :: block_heads"
  let ?buf = "pre @ index_unit e key infos @ rest"
  have sizes: "unat (information_length ?h) = length infos" "unat (information_midashi_length ?h) = length ?j"
    using ok by (simp_all add: infos_ok_def unat_of_sized)
  have wf: "block_heads_wf ?h" using key by (simp add: block_heads_wf_def)
  have lh: "length (block_heads_to_bytes e ?h) = 12" using heads_codec.length_to_bytes [OF wf] .
  have t: "tail_res ?buf (length pre) = Ok (block_heads_to_bytes e ?h @ offsets_of e infos @ ?j @ rest)"
    by (simp add: tail_res_def index_unit_eq)
  have h: "block_heads_from_bytes e (block_heads_to_bytes e ?h @ offsets_of e infos @ ?j @ rest) = Ok ?h"
    by (rule heads_codec.from_to_bytes [OF wf])
  have nosp: "\<forall>m \<in> set (map info_midashi infos). space \<notin> set m" and ne: "map info_midashi infos \<noteq> []"
    using ok by (simp_all add: infos_ok_def list_all_iff)
  have buf1: "?buf = (pre @ block_heads_to_bytes e ?h @ offsets_of e infos) @ ?j @ rest"
    by (simp add: index_unit_eq)
  have j: "get_joined_midashi ?buf (length pre) (length infos) (length ?j) = Ok (map info_midashi infos)"
  proof -
    have "slice ((pre @ block_heads_to_bytes e ?h @ offsets_of e infos) @ ?j @ rest)
        (length pre + 12 + length infos * 8) (length pre + 12 + length infos * 8 + length ?j) = ?j"
      by (rule slice_eq_middle) (simp_all add: lh length_offsets_of)
    moreover have "length pre + 12 + length infos * 8 + length ?j
        \<le> length ((pre @ block_heads_to_bytes e ?h @ offsets_of e infos) @ ?j @ rest)"
      by (simp add: lh length_offsets_of)
    ultimately show ?thesis
      unfolding get_joined_midashi_def Let_def buf1
      by (simp only: slice_res_def le_add1 simp_thms if_True and_then.simps split_join [OF ne nosp])
  qed
  have buf2: "?buf = (pre @ block_heads_to_bytes e ?h) @ offsets_of e infos @ ?j @ rest"
    by (simp add: index_unit_eq)
  have i: "read_informations e ?buf (length pre) (map info_midashi infos) 0 = Ok infos"
    unfolding buf2
    using read_informations_offsets [of "pre @ block_heads_to_bytes e ?h" "length pre" 0 "map info_midashi infos" infos e "?j @ rest"]
    by (simp add: lh map2_midashi)
  show ?thesis
    unfolding update_index_map_and_index_ascii_hiragana_vec.simps t and_then.simps h sizes j
    by (simp add: i length_index_unit [OF key] sizes ac_simps del: join_with.simps)
qed

type_synonym index_units = "(dictionary_midashi_key \<times> block_information list) list"

definition units_ok :: "index_units \<Rightarrow> bool" where
  "units_ok us \<longleftrightarrow> list_all (\<lambda>u. length (fst u) = 4 \<and> infos_ok (snd u)) us"

definition units_bytes :: "endianness \<Rightarrow> index_units \<Rightarrow> bytes" where
  "units_bytes e us = concat (map (\<lambda>u. index_unit e (fst u) (snd u)) us)"

definition store_units :: "index_units \<Rightarrow> index_maps \<Rightarrow> index_maps" where
  "store_units us maps = fold (\<lambda>u. store_informations (fst u) (snd u)) us maps"

lemma update_units:
  "units_ok us \<Longrightarrow> update_index_map_and_index_ascii_hiragana_vec e (length us)
     (pre @ units_bytes e us @ rest) (length pre) maps = Ok (store_units us maps)"
proof (induction us arbitrary: pre maps)
  case (Cons u us)
  have u: "length (fst u) = 4" "infos_ok (snd u)" and us: "units_ok us"
    using Cons.prems by (simp_all add: units_ok_def)
  let ?u = "index_unit e (fst u) (snd u)"
  have b: "pre @ units_bytes e (u # us) @ rest = pre @ ?u @ (units_bytes e us @ rest)"
    by (simp add: units_bytes_def)
  have b2: "pre @ ?u @ (units_bytes e us @ rest) = (pre @ ?u) @ units_bytes e us @ rest" by simp
  have IH: "update_index_map_and_index_ascii_hiragana_vec e (length us)
      ((pre @ ?u) @ units_bytes e us @ rest) (length (pre @ ?u)) m = Ok (store_units us m)" for m
    by (rule Cons.IH [OF us])
  show ?case
    unfolding b list.size(4) Suc_eq_plus1 [symmetric] One_nat_def add_Suc_right add_0_right
      update_unit [OF u]
    unfolding b2 using IH by (simp add: store_units_def)
qed (simp add: store_units_def)


section \<open>Blocks of units\<close>

fun headers_for :: "endianness \<Rightarrow> nat \<Rightarrow> index_units list \<Rightarrow> block_header list" where
  "headers_for e i [] = []"
| "headers_for e i (g # gs) =
     \<lparr>bh_offset = of_nat i, bh_length = of_nat (length (units_bytes e g)), bh_unit_length = of_nat (length g)\<rparr>
     # headers_for e (i + length (units_bytes e g)) gs"

definition headers_bytes :: "endianness \<Rightarrow> index_units list \<Rightarrow> bytes" where
  "headers_bytes e gs = concat (map (block_header_to_bytes e) (headers_for e 0 gs))"

lemma length_headers_for [simp]: "length (headers_for e i gs) = length gs"
  by (induction gs arbitrary: i) simp_all

lemma units_bytes_simps [simp]:
  "units_bytes e [] = []" "units_bytes e (us @ vs) = units_bytes e us @ units_bytes e vs"
  "units_bytes e (u # us) = index_unit e (fst u) (snd u) @ units_bytes e us"
  by (simp_all add: units_bytes_def)

lemma headers_for_snoc:
  "headers_for e i (gs @ [g]) = headers_for e i gs @
     [\<lparr>bh_offset = of_nat (i + length (units_bytes e (concat gs))),
       bh_length = of_nat (length (units_bytes e g)), bh_unit_length = of_nat (length g)\<rparr>]"
  by (induction gs arbitrary: i) (simp_all add: add.assoc)

text \<open>The state of the writer: closed groups, the current group, and the blocks written so far.\<close>

definition state_of :: "endianness \<Rightarrow> index_units list \<Rightarrow> index_units \<Rightarrow> bytes \<Rightarrow> index_state" where
  "state_of e gs cur blocks = \<lparr>
     st_index_data_header = index_data_header_to_bytes e \<lparr>block_buffer_length = 0, block_header_length = 0\<rparr>
       @ headers_bytes e gs,
     st_block_header_length = of_nat (length gs),
     st_block_offset = length (units_bytes e (concat gs)),
     st_block_length = length (units_bytes e cur),
     st_block_unit_length = of_nat (length cur),
     st_previous_length = length (units_bytes e (concat gs @ cur)),
     st_index_data = units_bytes e (concat gs @ cur),
     st_blocks = blocks\<rparr>"

lemma state_of_new: "index_state_new e = state_of e [] [] []"
  by (simp add: index_state_new_def state_of_def headers_bytes_def)

lemma push_state_of:
  "push_block_header e (state_of e gs cur blocks) =
     (state_of e (gs @ [cur]) [] blocks)\<lparr>st_block_offset := length (units_bytes e (concat gs)),
        st_block_length := length (units_bytes e cur), st_block_unit_length := of_nat (length cur)\<rparr>"
  by (simp add: push_block_header_def state_of_def headers_bytes_def headers_for_snoc)

definition fits :: "endianness \<Rightarrow> index_units \<Rightarrow> bool" where
  "fits e g \<longleftrightarrow> length (units_bytes e g) \<le> index_data_block_length"

text \<open>The units of the blocks, and the bytes of the blocks with their padding.\<close>

fun divide_blocks :: "twoway \<Rightarrow> temporary_block_map \<Rightarrow> nat \<Rightarrow> (index_units \<times> bytes) res" where
  "divide_blocks tw [] b = Ok ([], [])"
| "divide_blocks tw (kb # kbs) b =
     and_then (get_dictionary_block_informations tw (snd kb) b) (\<lambda>(infos, aligned).
     and_then (divide_blocks tw kbs (b + length aligned)) (\<lambda>(us, blocks).
     Ok ((fst kb, infos) # us, aligned @ blocks)))"

lemma index_data_step_state:
  assumes "get_dictionary_block_informations tw (snd kb) (length blocks) = Ok (infos, aligned)"
    and "fits e [(fst kb, infos)]" "fits e cur"
  shows "\<exists>gs' cur'. index_data_step e tw kb (state_of e gs cur blocks) = Ok (state_of e gs' cur' (blocks @ aligned))
    \<and> concat gs' @ cur' = concat gs @ cur @ [(fst kb, infos)] \<and> fits e cur'
    \<and> (\<forall>g \<in> set gs'. g \<in> set gs \<or> g = cur)"
proof (cases "length (units_bytes e cur) + length (index_unit e (fst kb) infos) \<ge> index_data_block_length")
  case True
  then have "index_data_step e tw kb (state_of e gs cur blocks)
      = Ok (state_of e (gs @ [cur]) [(fst kb, infos)] (blocks @ aligned))"
    using assms(1) by (simp add: index_data_step_def state_of_def push_block_header_def headers_bytes_def
        headers_for_snoc Let_def)
  then show ?thesis using assms(2) by (intro exI [of _ "gs @ [cur]"] exI [of _ "[(fst kb, infos)]"]) auto
next
  case False
  then have "index_data_step e tw kb (state_of e gs cur blocks)
      = Ok (state_of e gs (cur @ [(fst kb, infos)]) (blocks @ aligned))"
    using assms(1) by (simp add: index_data_step_def state_of_def Let_def)
  then show ?thesis using False
    by (intro exI [of _ gs] exI [of _ "cur @ [(fst kb, infos)]"]) (auto simp: fits_def)
qed

lemma index_data_loop_state:
  "divide_blocks tw kbs (length blocks) = Ok (us, new) \<Longrightarrow> \<forall>u \<in> set us. fits e [u] \<Longrightarrow>
   \<forall>g \<in> set (cur # gs). fits e g \<Longrightarrow>
   \<exists>gs' cur'. index_data_loop e tw kbs (state_of e gs cur blocks) = Ok (state_of e gs' cur' (blocks @ new))
     \<and> concat gs' @ cur' = concat gs @ cur @ us \<and> (\<forall>g \<in> set (cur' # gs'). fits e g)"
proof (induction kbs arbitrary: blocks us new gs cur)
  case (Cons kb kbs)
  from Cons.prems(1) obtain infos aligned us' new' where d:
      "get_dictionary_block_informations tw (snd kb) (length blocks) = Ok (infos, aligned)"
      "divide_blocks tw kbs (length (blocks @ aligned)) = Ok (us', new')"
      "us = (fst kb, infos) # us'" "new = aligned @ new'"
    by (auto simp: and_then_eq_Ok)
  have "fits e [(fst kb, infos)]" "fits e cur" using Cons.prems(2,3) d(3) by simp_all
  from index_data_step_state [OF d(1) this, of gs] obtain gs1 cur1 where step:
      "index_data_step e tw kb (state_of e gs cur blocks) = Ok (state_of e gs1 cur1 (blocks @ aligned))"
      "concat gs1 @ cur1 = concat gs @ cur @ [(fst kb, infos)]" "fits e cur1"
      "\<forall>g \<in> set gs1. g \<in> set gs \<or> g = cur" by blast
  have "\<forall>g \<in> set (cur1 # gs1). fits e g" using step(3,4) Cons.prems(3) by auto
  from Cons.IH [OF d(2) _ this] obtain gs' cur' where
      "index_data_loop e tw kbs (state_of e gs1 cur1 (blocks @ aligned))
        = Ok (state_of e gs' cur' ((blocks @ aligned) @ new'))"
      "concat gs' @ cur' = concat gs1 @ cur1 @ us'" "\<forall>g \<in> set (cur' # gs'). fits e g"
    using Cons.prems(2) d(3) by auto
  moreover have "concat gs1 @ cur1 @ us' = concat gs @ cur @ us"
    using step(2) d(3) by (metis append.assoc append_Cons append_Nil)
  ultimately show ?case using step(1) d(4) by (intro exI [of _ gs'] exI [of _ cur']) simp
qed auto

lemma create_index_data_units:
  assumes "create_temporary_block_map entries = Ok kbs" "divide_blocks tw kbs 0 = Ok (us, blocks)"
    and "\<forall>u \<in> set us. fits e [u] \<and> length (fst u) = 4"
  shows "\<exists>gs. concat gs = us \<and> (\<forall>g \<in> set gs. fits e g) \<and>
    create_index_data e tw entries = Ok \<lparr>
      cr_index_data_header = index_data_header_to_bytes e
        \<lparr>block_buffer_length = of_nat index_data_block_length, block_header_length = of_nat (length gs)\<rparr>
        @ headers_bytes e gs,
      cr_index_data = units_bytes e us, cr_blocks = blocks\<rparr>"
proof -
  have fits0: "fits e []" by (simp add: fits_def)
  from index_data_loop_state [of tw kbs "[]" us blocks e "[]" "[]"] assms fits0 obtain gs cur where l:
      "index_data_loop e tw kbs (state_of e [] [] []) = Ok (state_of e gs cur blocks)"
      "concat gs @ cur = us" "\<forall>g \<in> set (cur # gs). fits e g" by auto
  define gs' where "gs' = (if cur = [] then gs else gs @ [cur])"
  have hl: "length (index_data_header_to_bytes e x) = 8" for x
    using index_codec.length_to_bytes by simp
  have pos: "0 < length (units_bytes e cur) \<longleftrightarrow> cur \<noteq> []"
  proof (cases cur)
    case (Cons u vs)
    then have "length (fst u) = 4" using l(2) assms(3) by auto
    then show ?thesis using Cons length_index_unit [of "fst u" e "snd u"] by auto
  qed simp
  define st where "st = (if st_block_length (state_of e gs cur blocks) > 0
    then push_block_header e (state_of e gs cur blocks) else state_of e gs cur blocks)"
  have sel: "drop 8 (st_index_data_header st) = headers_bytes e gs' \<and> st_index_data st = units_bytes e us
      \<and> st_blocks st = blocks \<and> st_block_header_length st = of_nat (length gs')"
  proof (cases "cur = []")
    case True
    then have "st = state_of e gs cur blocks" using pos by (simp add: st_def state_of_def)
    then show ?thesis using True l(2) by (simp add: state_of_def gs'_def hl)
  next
    case False
    then have "st = push_block_header e (state_of e gs cur blocks)"
      using pos by (simp add: st_def state_of_def)
    then show ?thesis using False by (simp add: push_state_of) (simp add: state_of_def gs'_def hl flip: l(2))
  qed
  have "create_index_data e tw entries = Ok \<lparr>
      cr_index_data_header = index_data_header_to_bytes e
        \<lparr>block_buffer_length = of_nat index_data_block_length, block_header_length = of_nat (length gs')\<rparr>
        @ headers_bytes e gs',
      cr_index_data = units_bytes e us, cr_blocks = blocks\<rparr>"
    unfolding create_index_data_def assms(1) and_then.simps state_of_new l(1) Let_def st_def [symmetric]
    using sel by simp
  moreover have "concat gs' = us" using l(2) by (auto simp: gs'_def)
  moreover have "\<forall>g \<in> set gs'. fits e g" using l(3) by (simp add: gs'_def)
  ultimately show ?thesis by blast
qed


section \<open>Reading the blocks of units\<close>

lemma length_headers_bytes: "length (headers_bytes e gs) = length gs * 12"
  using block_codec.length_array [of "headers_for e 0 gs" e] by (simp add: headers_bytes_def)

lemma headers_for_nth:
  "i < length gs \<Longrightarrow> headers_for e p gs ! i =
     \<lparr>bh_offset = of_nat (p + length (units_bytes e (concat (take i gs)))),
      bh_length = of_nat (length (units_bytes e (gs ! i))), bh_unit_length = of_nat (length (gs ! i))\<rparr>"
  by (induction gs arbitrary: i p) (auto simp: nth_Cons' take_Cons' add.assoc gr0_conv_Suc)

lemma units_length_bound: "units_ok us \<Longrightarrow> length us \<le> length (units_bytes e us)"
  by (induction us) (auto simp: units_ok_def length_index_unit)

lemma index_blocks_read:
  assumes data: "file = A @ units_bytes e (concat gs) @ Z" "length A = unat data_offset"
    and size: "u32_sized (length A + length (units_bytes e (concat gs)))"
    and hb: "header_buffer = h @ headers_bytes e gs" "length h = 8"
    and ok: "units_ok (concat gs)" and fit: "\<forall>g \<in> set gs. fits e g"
  shows "length buffer = index_data_block_length \<Longrightarrow> i + n = length gs \<Longrightarrow>
    index_blocks_loop e data_offset file header_buffer i n buffer maps
      = Ok (store_units (concat (drop i gs)) maps)"
proof (induction n arbitrary: i buffer maps)
  case 0
  then show ?case by (simp add: store_units_def)
next
  case (Suc n)
  have i: "i < length gs" using Suc.prems(2) by simp
  define g where "g = gs ! i"
  define before where "before = units_bytes e (concat (take i gs))"
  define after where "after = units_bytes e (concat (drop (Suc i) gs)) @ Z"
  let ?g = "units_bytes e g"
  have split: "concat gs = concat (take i gs) @ g @ concat (drop (Suc i) gs)"
    using id_take_nth_drop [OF i] unfolding g_def by (metis concat.simps(2) concat_append)
  have file_eq: "file = (A @ before) @ ?g @ after"
    unfolding data(1) split by (simp add: before_def after_def)
  have size': "u32_sized (length A + length before)" "u32_sized (length before)" "u32_sized (length ?g)"
      "length A + length before + length ?g < 2 ^ 32"
    using size unfolding split by (simp_all add: u32_sized_def before_def)
  have gok: "units_ok g" using ok unfolding split by (simp add: units_ok_def)
  then have lg: "u32_sized (length g)"
    using units_length_bound [of g e] size'(3) by (simp add: u32_sized_def)
  have gfit: "length ?g \<le> length buffer" using fit i Suc.prems(1) by (simp add: g_def fits_def)
  let ?bh = "\<lparr>bh_offset = of_nat (length before), bh_length = of_nat (length ?g),
      bh_unit_length = of_nat (length g)\<rparr> :: block_header"
  have t: "tail_res header_buffer (8 + i * 12) = Ok (drop (i * 12) (headers_bytes e gs))"
    using i hb by (simp add: tail_res_def length_headers_bytes)
  have r: "block_header_from_bytes e (drop (i * 12) (headers_bytes e gs)) = Ok ?bh"
    using block_codec.read_array [of "headers_for e 0 gs" i e "[]"] i
    by (simp add: headers_bytes_def headers_for_nth g_def before_def)
  have off: "unat (data_offset + bh_offset ?bh) = length (A @ before)"
    using size' data(2) by (simp add: unat_word_ariths unat_of_sized u32_sized_def)
  have len: "unat (bh_length ?bh) = length ?g" "unat (bh_unit_length ?bh) = length g"
    using size'(3) lg by (simp_all add: unat_of_sized)
  have read: "read_exact_at file (length (A @ before)) (length ?g) = Ok ?g"
    unfolding file_eq by (rule read_exact_at_middle) simp_all
  let ?buf = "?g @ drop (length ?g) buffer"
  have upd: "update_index_map_and_index_ascii_hiragana_vec e (length g) ?buf 0 maps = Ok (store_units g maps)"
    using update_units [OF gok, of e "[]" "drop (length ?g) buffer" maps] by simp
  have "length ?buf = index_data_block_length" using gfit Suc.prems(1) by simp
  from Suc.IH [OF this, of "i + 1"] Suc.prems(2)
  have IH: "index_blocks_loop e data_offset file header_buffer (i + 1) n ?buf (store_units g maps)
      = Ok (store_units (concat (drop (i + 1) gs)) (store_units g maps))" by simp
  have d: "concat (drop i gs) = g @ concat (drop (i + 1) gs)"
    using i by (simp add: g_def flip: Cons_nth_drop_Suc)
  have nb: "(length ?g > length buffer) = False" using gfit by simp
  show ?case
    unfolding index_blocks_loop.simps t and_then.simps r len nb if_False off read Let_def upd IH d
    by (simp add: store_units_def)
qed

lemma create_index_map_read:
  assumes "file = A @ units_bytes e (concat gs) @ Z" "length A = unat data_offset"
    and "u32_sized (length A + length (units_bytes e (concat gs)))"
    and "units_ok (concat gs)" "\<forall>g \<in> set gs. fits e g" and sz: "u32_sized (length gs)"
  shows "create_index_map_and_index_ascii_hiragana_vec e data_offset file
     (index_data_header_to_bytes e
        \<lparr>block_buffer_length = of_nat index_data_block_length, block_header_length = of_nat (length gs)\<rparr>
      @ headers_bytes e gs)
   = Ok (store_units (concat gs) (Map.empty, replicate index_ascii_hiragana_vec_length []))"
proof -
  let ?x = "\<lparr>block_buffer_length = of_nat index_data_block_length, block_header_length = of_nat (length gs)\<rparr>
    :: index_data_header"
  have b: "unat (block_buffer_length ?x) = index_data_block_length"
    by (simp add: index_data_block_length_def)
  have l: "index_data_block_length < block_buffer_length_limit"
    by (simp add: index_data_block_length_def block_buffer_length_limit_def)
  have n: "unat (block_header_length ?x) = length gs" using sz by (simp add: unat_of_sized)
  have h: "length (index_data_header_to_bytes e ?x) = 8" using index_codec.length_to_bytes by simp
  show ?thesis
    unfolding create_index_map_and_index_ascii_hiragana_vec_def index_codec.from_to_bytes [OF TrueI]
      and_then.simps b n
    using index_blocks_read [OF assms(1-3) refl h assms(4,5), of "replicate index_data_block_length 0" 0 "length gs"] l
    by simp
qed

end
