(* ===== verification/Dictionary_File.thy ===== *)
theory Dictionary_File
  imports Index_Roundtrip
begin

text \<open>
  The file that \<open>DictionaryCreator::create\<close> leaves passes \<open>Dictionary::setup\<close>: the checksum matches,
  the encoding table is set up, the index is the one of the units, and the blocks start where the
  header says. The sizes must fit the \<open>u32\<close> fields, and the digest of \<open>sha1\<close> is 20 bytes.
\<close>

lemma hash_loop_all:
  "0 < n \<Longrightarrow> hash_loop n rest hashed scanned = (hashed @ rest, scanned + length rest)"
proof (induction n rest hashed scanned rule: hash_loop.induct)
  case (1 n rest hashed scanned)
  show ?case
  proof (cases "rest = []")
    case False
    then have "hash_loop n (drop n rest) (hashed @ take n rest) (scanned + length (take n rest))
        = ((hashed @ take n rest) @ drop n rest, scanned + length (take n rest) + length (drop n rest))"
      using 1 by (simp add: Let_def)
    then show ?thesis using False "1.prems" by (subst hash_loop.simps) (simp add: Let_def)
  qed (subst hash_loop.simps, simp)
qed

definition padding_for :: "nat \<Rightarrow> nat" where
  "padding_for n = 4096 - n mod 4096"

lemma header_aligned:
  assumes "n + 4096 < 2 ^ 32"
  shows "unat (get_header_aligned_length (of_nat n)) = n + padding_for n"
    and "unat (get_header_aligned_length (of_nat n) - of_nat n) = padding_for n"
proof -
  have n: "unat (of_nat n :: u32) = n" using assms by (simp add: unsigned_of_nat take_bit_nat_eq_self)
  have m: "unat ((of_nat n :: u32) mod 4096) = n mod 4096" by (simp add: unat_mod n)
  have "n mod 4096 \<le> 4096" by (simp add: less_imp_le)
  then have p: "unat ((4096 :: u32) - of_nat n mod 4096) = padding_for n"
    using m by (subst unat_sub) (simp_all add: word_le_nat_alt padding_for_def)
  have eq: "get_header_aligned_length (of_nat n) - of_nat n = 4096 - of_nat n mod 4096"
    by (simp add: get_header_aligned_length_def header_alignment_length_def)
  show "unat (get_header_aligned_length (of_nat n) - of_nat n) = padding_for n" unfolding eq by (rule p)
  have "unat (of_nat n :: u32) + unat ((4096 :: u32) - of_nat n mod 4096) < 2 ^ 32"
    using assms by (simp add: n p padding_for_def)
  then show "unat (get_header_aligned_length (of_nat n)) = n + padding_for n"
    by (simp add: get_header_aligned_length_def header_alignment_length_def unat_word_ariths n p
        flip: p)
qed

definition dictionary_size :: "nat \<Rightarrow> nat \<Rightarrow> nat \<Rightarrow> nat \<Rightarrow> nat" where
  "dictionary_size table_len header_len index_len blocks_len =
     256 + table_len + header_len + index_len + padding_for (256 + table_len + header_len + index_len)
       + blocks_len"

lemma create_dictionary_fixed_header_values:
  assumes "dictionary_size a b c d < 2 ^ 32" "256 + a + b + c + 4096 < 2 ^ 32"
  shows "create_dictionary_fixed_header a b c d enc =
     (\<lparr>dictionary_version = dictionary_version_number,
       encoding_table_offset = 256, encoding_table_length = of_nat a,
       index_data_header_offset = of_nat (256 + a), index_data_header_length = of_nat b,
       index_data_offset = of_nat (256 + a + b), index_data_length = of_nat c,
       blocks_offset = of_nat (256 + a + b + c + padding_for (256 + a + b + c)),
       blocks_length = of_nat d,
       dictionary_length = of_nat (dictionary_size a b c d),
       header_encoding = encoding_as_u32 enc, sha1sum = sha1sum_zero\<rparr>,
      of_nat (padding_for (256 + a + b + c)))"
proof -
  have u: "unat dictionary_fixed_header_area_length = 256"
    by (simp add: dictionary_fixed_header_area_length_def)
  note h = header_aligned [OF assms(2)]
  have "get_header_aligned_length (of_nat (256 + a + b + c))
      = of_nat (256 + a + b + c + padding_for (256 + a + b + c))"
    using arg_cong [OF h(1), of "of_nat :: nat \<Rightarrow> u32"] by (simp only: of_nat_unat ucast_id)
  moreover have "get_header_aligned_length (of_nat (256 + a + b + c)) - of_nat (256 + a + b + c)
      = of_nat (padding_for (256 + a + b + c))"
    using arg_cong [OF h(2), of "of_nat :: nat \<Rightarrow> u32"] by (simp only: of_nat_unat ucast_id)
  ultimately show ?thesis
    unfolding create_dictionary_fixed_header_def Let_def u h(1)
    by (simp add: dictionary_size_def add.assoc)
qed


lemma length_fixed_header_bytes: "length (sha1sum h) = sha1sum_length \<Longrightarrow> length (fixed_header_to_bytes e h) = 64"
  by (rule fixed_codec.length_to_bytes) (simp add: fixed_header_wf_def)

lemma dictionary_setup_created:
  assumes sha: "\<And>x. length (sha1 x) = sha1sum_length" and n: "0 < n"
    and r: "create_index_data e tw entries = Ok r"
    and ih: "cr_index_data_header r = index_data_header_to_bytes e
       \<lparr>block_buffer_length = of_nat index_data_block_length, block_header_length = of_nat (length gs)\<rparr>
       @ headers_bytes e gs"
    and idx: "cr_index_data r = units_bytes e (concat gs)"
    and ok: "units_ok (concat gs)" "\<forall>g \<in> set gs. fits e g"
    and size: "dictionary_size (length table) (length (cr_index_data_header r))
       (length (cr_index_data r)) (length (cr_blocks r)) + 4096 < 2 ^ 32"
    and once: "once_init_encoding_table e table once = Ok once'"
  shows "\<exists>dict header. create_dictionary e tw sha1 enc table (Ok entries) = Ok dict
    \<and> dictionary_setup e sha1 n (Some dict) once =
        Ok (\<lparr>dictionary_fixed_header = header,
              index_map = fst (store_units (concat gs) (Map.empty, replicate index_ascii_hiragana_vec_length [])),
              index_ascii_hiragana_vec =
                snd (store_units (concat gs) (Map.empty, replicate index_ascii_hiragana_vec_length []))\<rparr>, once')
    \<and> header_encoding header = encoding_as_u32 enc
    \<and> unat (blocks_offset header) + length (cr_blocks r) = length dict
    \<and> drop (unat (blocks_offset header)) dict = cr_blocks r"
proof -
  define a b c d where "a = length table" and "b = length (cr_index_data_header r)"
    and "c = length (cr_index_data r)" and "d = length (cr_blocks r)"
  define pad where "pad = padding_for (256 + a + b + c)"
  have total: "256 + a + b + c + pad + d + 4096 < 2 ^ 32"
    using size by (simp add: dictionary_size_def a_def b_def c_def d_def pad_def)
  define header where "header = fst (create_dictionary_fixed_header a b c d enc)"
  have cf: "create_dictionary_fixed_header a b c d enc = (header, of_nat pad)"
    and hv: "header = \<lparr>dictionary_version = dictionary_version_number,
       encoding_table_offset = 256, encoding_table_length = of_nat a,
       index_data_header_offset = of_nat (256 + a), index_data_header_length = of_nat b,
       index_data_offset = of_nat (256 + a + b), index_data_length = of_nat c,
       blocks_offset = of_nat (256 + a + b + c + pad), blocks_length = of_nat d,
       dictionary_length = of_nat (256 + a + b + c + pad + d),
       header_encoding = encoding_as_u32 enc, sha1sum = sha1sum_zero\<rparr>"
    using create_dictionary_fixed_header_values [of a b c d enc] total
    by (simp_all add: header_def dictionary_size_def pad_def)
  have un: "unat (of_nat k :: u32) = k" if "k < 2 ^ 32" for k
    using that by (simp add: unsigned_of_nat take_bit_nat_eq_self)
  have hb: "length (fixed_header_to_bytes e header) = 64"
    by (rule length_fixed_header_bytes) (simp add: hv sha1sum_zero_def)
  define area where "area = fixed_header_to_bytes e header @ replicate 192 0"
  have la: "length area = 256" by (simp add: area_def hb)
  define dict0 where "dict0 = area @ table @ cr_index_data_header r @ cr_index_data r @ replicate pad 0 @ cr_blocks r"
  have l0: "length dict0 = 256 + a + b + c + pad + d"
    by (simp add: dict0_def la a_def b_def c_def d_def)
  define signed where "signed = header\<lparr>sha1sum := sha1 dict0\<rparr>"
  have hs: "length (fixed_header_to_bytes e signed) = 64"
    by (rule length_fixed_header_bytes) (simp add: signed_def sha)
  define dict where "dict = fixed_header_to_bytes e signed @ drop 64 dict0"
  have create: "create_dictionary e tw sha1 enc table (Ok entries) = Ok dict"
  proof -
    have w: "write_and_calculate_hash area table r (of_nat pad) = dict0"
      using un [of pad] total by (simp add: write_and_calculate_hash_def dict0_def)
    have h: "write_hash e sha1 dict0 header = dict"
      unfolding write_hash_def Let_def signed_def [symmetric] hs dict_def by (rule refl)
    have ar: "fixed_header_to_bytes e header @ replicate (unat dictionary_fixed_header_area_length - 64) 0 = area"
      by (simp add: area_def dictionary_fixed_header_area_length_def)
    show ?thesis
      unfolding create_dictionary_def and_then.simps r Let_def a_def [symmetric] b_def [symmetric]
        c_def [symmetric] d_def [symmetric] cf prod.case hb ar w h by (rule refl)
  qed
  have zero: "signed\<lparr>sha1sum := sha1sum_zero\<rparr> = header" by (simp add: signed_def hv)
  have lf: "length dict = length dict0" by (simp add: dict_def hs l0)
  have dict_eq: "dict = (fixed_header_to_bytes e signed @ replicate 192 0) @ table @ cr_index_data_header r
      @ cr_index_data r @ replicate pad 0 @ cr_blocks r"
    by (simp add: dict_def dict0_def area_def hb)
  have r1: "read_exact_at dict 0 256 = Ok (fixed_header_to_bytes e signed @ replicate 192 0)"
    unfolding dict_eq by (simp add: read_exact_at_def slice_def hs)
  have from_bytes: "fixed_header_from_bytes e (fixed_header_to_bytes e signed @ replicate 192 0) = Ok signed"
    by (rule fixed_codec.from_to_bytes) (simp add: fixed_header_wf_def signed_def sha)
  have zb: "fixed_header_to_bytes e header @ drop 64 (fixed_header_to_bytes e signed @ replicate 192 0) = area"
    by (simp add: hs area_def)
  have dl: "dictionary_length header = of_nat (length dict0)" by (simp add: hv l0)
  have d64: "(ucast (dictionary_length header) :: u64) = of_nat (length dict0)"
  proof -
    have "unat (dictionary_length header) = length dict0"
      unfolding dl using total by (intro un) (simp add: l0)
    then show ?thesis by (metis of_nat_unat)
  qed
  have u64: "unat (of_nat (length dict0) :: u64) = length dict0"
    using total by (simp add: l0 unsigned_of_nat take_bit_nat_eq_self del: of_nat_add)
  have lim: "unat ((of_nat (length dict0) :: u64) - 256) = length dict0 - 256"
    using u64 l0 by (subst unat_sub) (simp_all add: word_le_nat_alt del: of_nat_add)
  have rest: "drop 256 dict = drop 256 dict0" by (simp add: dict_def dict0_def hs la)
  have valid: "validate_except_dictionary_fixed_header sha1 n dict area
      (ucast (dictionary_length header)) (sha1sum signed) = Ok ()"
  proof -
    have whole: "area @ drop 256 dict0 = dict0" by (simp add: dict0_def la)
    have st: "unat dictionary_fixed_header_area_length = 256"
      by (simp add: dictionary_fixed_header_area_length_def)
    have lim': "unat ((of_nat (length dict0) :: u64) - of_nat 256) = length dict0 - 256"
      using lim by (metis of_nat_numeral)
    have tk: "take (length dict0 - 256) (drop 256 dict) = drop 256 dict0" by (simp add: rest)
    have ge: "256 + length (drop 256 dict0) = length dict0" using l0 by simp
    have sg: "sha1sum signed = sha1 dict0" by (simp add: signed_def)
    show ?thesis
      unfolding validate_except_dictionary_fixed_header_def d64 Let_def st lim' tk hash_loop_all [OF n]
        prod.case ge whole u64 sg by simp
  qed
  have A: "dict = ((fixed_header_to_bytes e signed @ replicate 192 0) @ table @ cr_index_data_header r)
      @ units_bytes e (concat gs) @ replicate pad 0 @ cr_blocks r"
    by (simp add: dict_eq idx)
  have r2: "read_exact_at dict (unat (encoding_table_offset header)) (unat (encoding_table_length header)) = Ok table"
    unfolding dict_eq using total by (intro read_exact_at_middle) (simp_all add: hv un hs a_def)
  have r3: "read_exact_at dict (unat (index_data_header_offset header)) (unat (index_data_header_length header))
      = Ok (cr_index_data_header r)"
  proof -
    have "dict = ((fixed_header_to_bytes e signed @ replicate 192 0) @ table) @ cr_index_data_header r
        @ cr_index_data r @ replicate pad 0 @ cr_blocks r" by (simp add: dict_eq)
    moreover have "unat (index_data_header_offset header) = 256 + a" "unat (index_data_header_length header) = b"
      using total by (simp_all add: hv un del: of_nat_add)
    ultimately show ?thesis by (simp only:) (rule read_exact_at_middle; simp add: hs a_def b_def)
  qed
  have r4: "create_index_map_and_index_ascii_hiragana_vec e (index_data_offset header) dict (cr_index_data_header r)
      = Ok (store_units (concat gs) (Map.empty, replicate index_ascii_hiragana_vec_length []))"
    unfolding ih
  proof (rule create_index_map_read [OF A _ _ ok])
    show "length ((fixed_header_to_bytes e signed @ replicate 192 0) @ table @ cr_index_data_header r)
        = unat (index_data_offset header)"
      using total by (simp add: hv un hs a_def b_def del: of_nat_add)
    show "u32_sized (length ((fixed_header_to_bytes e signed @ replicate 192 0) @ table @ cr_index_data_header r)
        + length (units_bytes e (concat gs)))"
      using total by (simp add: u32_sized_def hs a_def b_def c_def idx)
    have "length gs * 12 \<le> b" by (simp add: b_def ih length_headers_bytes)
    then show "u32_sized (length gs)" using total by (simp add: u32_sized_def)
  qed
  have setup_eq: "dictionary_setup e sha1 n (Some dict) once =
        Ok (\<lparr>dictionary_fixed_header = header,
              index_map = fst (store_units (concat gs) (Map.empty, replicate index_ascii_hiragana_vec_length [])),
              index_ascii_hiragana_vec =
                snd (store_units (concat gs) (Map.empty, replicate index_ascii_hiragana_vec_length []))\<rparr>, once')"
  proof -
    have st: "unat dictionary_fixed_header_area_length = 256"
      by (simp add: dictionary_fixed_header_area_length_def)
    show ?thesis
      unfolding dictionary_setup_def option.case st r1 and_then.simps from_bytes Let_def zero hb zb valid r2 once r3 r4 by (rule refl)
  qed
  have "unat (blocks_offset header) = 256 + a + b + c + pad"
    using total by (simp add: hv un del: of_nat_add)
  moreover have "drop (256 + a + b + c + pad) dict = cr_blocks r"
    unfolding dict_eq by (simp add: hs a_def b_def c_def)
  ultimately show ?thesis
    using create setup_eq by (intro exI [of _ dict] exI [of _ header]) (simp add: hv lf l0 d_def)
qed

end
