(* ===== verification/Dictionary_Reader.thy ===== *)
theory Dictionary_Reader
  imports Dictionary Candidates Euc_Codec
begin

text \<open>
  \<open>src/skk/yaskkserv2/dictionary_reader.rs\<close> without the Google part, and \<open>DictionaryFile\<close> of
  \<open>yaskkserv2.rs\<close>: the search for the unit that may hold a midashi, the read of a unit through a
  one-entry cache, the lookup of candidates and the completion of midashi. Lemmas: the search ends
  and finds the unit, and the cache returns the bytes of the file after reads that succeed.
\<close>

section \<open>DictionaryFile\<close>

record dictionary_file =
  df_file :: bytes
  df_seek_position :: nat
  df_read_length :: nat
  df_buffer :: bytes

definition dictionary_file_new :: "bytes \<Rightarrow> nat \<Rightarrow> dictionary_file" where
  "dictionary_file_new file buffer_length = \<lparr>df_file = file, df_seek_position = 0,
     df_read_length = 0, df_buffer = replicate buffer_length 0\<rparr>"

text \<open>
  A read that fails at the end of the file leaves the bytes that were there in the buffer. The
  position and the length are noted before the read.
\<close>

definition dictionary_file_read ::
  "nat \<Rightarrow> nat \<Rightarrow> dictionary_file \<Rightarrow> bytes res \<times> dictionary_file" where
  "dictionary_file_read seek_position read_length df =
     (if df_seek_position df \<noteq> seek_position \<or> df_read_length df \<noteq> read_length then
        let df' = df\<lparr>df_seek_position := seek_position, df_read_length := read_length,
              df_buffer := (if read_length > length (df_buffer df) then replicate read_length 0
                            else df_buffer df)\<rparr>
        in case read_exact_at (df_file df) seek_position read_length of
             Ok bs \<Rightarrow> (Ok bs, df'\<lparr>df_buffer := bs @ drop (length bs) (df_buffer df')\<rparr>)
           | r \<Rightarrow> let partial = drop seek_position (df_file df)
                 in (r, df'\<lparr>df_buffer := partial @ drop (length partial) (df_buffer df')\<rparr>)
      else (slice_res (df_buffer df) 0 read_length, df))"

definition df_valid :: "dictionary_file \<Rightarrow> bool" where
  "df_valid df \<longleftrightarrow> df_read_length df \<le> length (df_buffer df) \<and>
     read_exact_at (df_file df) (df_seek_position df) (df_read_length df)
       = Ok (take (df_read_length df) (df_buffer df))"

lemma dictionary_file_new_valid: "df_valid (dictionary_file_new file n)"
  by (simp add: df_valid_def dictionary_file_new_def read_exact_at_def)

lemma dictionary_file_read_file [simp]: "df_file (snd (dictionary_file_read p n df)) = df_file df"
  by (simp add: dictionary_file_read_def Let_def split: res.splits)

lemma length_read_exact: "read_exact_at file p n = Ok bs \<Longrightarrow> length bs = n"
  by (auto simp: read_exact_at_def split: if_splits)

text \<open>A valid cache returns the bytes of the file, and stays valid after a read that succeeds.\<close>

lemma dictionary_file_read_valid:
  assumes "df_valid df"
  shows "fst (dictionary_file_read p n df) = read_exact_at (df_file df) p n"
    and "read_exact_at (df_file df) p n = Ok bs \<Longrightarrow> df_valid (snd (dictionary_file_read p n df))"
proof -
  show "fst (dictionary_file_read p n df) = read_exact_at (df_file df) p n"
    using assms by (auto simp: dictionary_file_read_def df_valid_def slice_res_def slice_def Let_def
        split: res.splits)
  show "read_exact_at (df_file df) p n = Ok bs \<Longrightarrow> df_valid (snd (dictionary_file_read p n df))"
    using assms length_read_exact [of "df_file df" p n bs]
    by (auto simp: dictionary_file_read_def df_valid_def Let_def)
qed

text \<open>
  What the lookup relies on: reads give the bytes of a file that does not change, and go on doing so after
  each read that succeeds. The cache of one unit of the server provides it, and so does the file without a cache that
  \<open>JisyoCreator\<close> reads.
\<close>

locale file_reads =
  fixes read :: "nat \<Rightarrow> nat \<Rightarrow> 's \<Rightarrow> bytes res \<times> 's"
    and valid :: "'s \<Rightarrow> bool"
    and content :: "'s \<Rightarrow> bytes"
  assumes result: "valid s \<Longrightarrow> fst (read p n s) = read_exact_at (content s) p n"
    and keeps_valid: "valid s \<Longrightarrow> read_exact_at (content s) p n = Ok bs \<Longrightarrow> valid (snd (read p n s))"
    and keeps_content: "content (snd (read p n s)) = content s"
begin

lemma delivers:
  assumes "valid s" and "read_exact_at (content s) p n = Ok bs"
  obtains s' where "read p n s = (Ok bs, s')" "valid s'" "content s' = content s"
  using assms result [OF assms(1), of p n] keeps_valid [OF assms] keeps_content [of p n s]
  by (cases "read p n s") auto

end

interpretation unit_cache: file_reads dictionary_file_read df_valid df_file
  by unfold_locales (simp_all add: dictionary_file_read_valid)

interpretation plain_file: file_reads "\<lambda>p n file. (read_exact_at file p n, file)" "\<lambda>_. True" "\<lambda>file. file"
  by unfold_locales simp_all

text \<open>After a read past the end the same read succeeds, with what is left in the buffer.\<close>

lemma dictionary_file_read_again:
  assumes "read_exact_at (df_file df) p n = Err Io" and "df_seek_position df \<noteq> p \<or> df_read_length df \<noteq> n"
  shows "\<exists>bs. fst (dictionary_file_read p n (snd (dictionary_file_read p n df))) = Ok bs \<and> length bs = n"
  using assms by (auto simp: dictionary_file_read_def Let_def slice_res_def)

section \<open>The search for a unit\<close>

definition binary_search_threshold :: nat where "binary_search_threshold = 30"

text \<open>The loop \<open>while index < len\<close> and the \<open>for\<close> loop over the rest: both stop at the first unit whose
  midashi is not behind the one looked for.\<close>

function forward_search :: "bytes \<Rightarrow> block_information list \<Rightarrow> nat \<Rightarrow> nat" where
  "forward_search midashi infos i =
     (if i < length infos then
        if info_midashi (infos ! i) \<le> midashi then i else forward_search midashi infos (i + 1)
      else i)"
  by pat_completeness auto
termination by (relation "measure (\<lambda>(m, infos, i). length infos - i)") auto

declare forward_search.simps [simp del]

text \<open>
  The binary search. The vector has fewer than \<open>2 ^ 31\<close> elements (64 GB of them), so the casts to \<open>i32\<close>
  and the sums are exact. A direction is \<open>0\<close> or \<open>1\<close>.
\<close>

function hint_loop ::
  "bytes \<Rightarrow> block_information list \<Rightarrow> int \<Rightarrow> nat \<Rightarrow> int \<Rightarrow> nat \<Rightarrow> int res" where
  "hint_loop midashi infos index diff previous_direction diff_zero_count =
     (if index < 0 \<or> index \<ge> int (length infos) then Panic
      else
        let up = \<not> midashi > info_midashi (infos ! nat index);
            direction = (if up then 1 else 0);
            index' = (if up then index + int diff else index - int diff)
        in if \<not> up \<and> index' < 0 then Ok 0
           else if up \<and> index' \<ge> int (length infos) then Ok (int (length infos) - 1)
           else if diff div 2 = 0 then
             if diff_zero_count \<ge> 1 \<and> direction \<noteq> previous_direction then Ok (max 0 (index' - 1))
             else hint_loop midashi infos index' 1 direction (diff_zero_count + 1)
           else hint_loop midashi infos index' (diff div 2) direction diff_zero_count)"
  by pat_completeness auto
termination
  by (relation "measures [\<lambda>(m, infos, index, diff, prev, zc). if zc = 0 then 1 else 0,
      \<lambda>(m, infos, index, diff, prev, zc). if diff = 0 then 2 else diff,
      \<lambda>(m, infos, index, diff, prev, zc). nat (if prev = 0 then index else int (length infos) - index)]")
    (auto split: if_splits)

declare hint_loop.simps [simp del]

definition get_block_informations_loop_start_hint_index ::
  "bytes \<Rightarrow> block_information list \<Rightarrow> nat res" where
  "get_block_informations_loop_start_hint_index midashi infos =
     (let n = length infos in
      if n < 10 then Ok 0
      else if n < binary_search_threshold then
        Ok (if midashi > info_midashi (infos ! (n div 2)) then 0 else n div 2)
      else
        let index = n div 2
        in and_then (hint_loop midashi infos (int index) (index div 2) 0 0) (\<lambda>hint.
           Ok (forward_search midashi infos (nat hint))))"

definition get_block_informations_index :: "bytes \<Rightarrow> block_information list \<Rightarrow> nat res" where
  "get_block_informations_index midashi infos =
     and_then (get_block_informations_loop_start_hint_index midashi infos) (\<lambda>hint.
     if hint \<le> length infos then Ok (forward_search midashi infos hint) else Panic)"

section \<open>The search is right\<close>

definition descending :: "block_information list \<Rightarrow> bool" where
  "descending infos \<longleftrightarrow> sorted_wrt (\<lambda>v w. info_midashi v > info_midashi w) infos"

text \<open>The first unit whose first midashi is not behind the one looked for.\<close>

definition unit_index :: "bytes \<Rightarrow> block_information list \<Rightarrow> nat" where
  "unit_index midashi infos = length (takeWhile (\<lambda>v. info_midashi v > midashi) infos)"

lemma unit_index_le: "unit_index midashi infos \<le> length infos"
  by (simp add: unit_index_def length_takeWhile_le)

lemma before_unit_index: "i < unit_index midashi infos \<Longrightarrow> midashi < info_midashi (infos ! i)"
  unfolding unit_index_def using nth_mem [of i] set_takeWhileD takeWhile_nth by metis

lemma at_unit_index: "unit_index midashi infos < length infos \<Longrightarrow>
    info_midashi (infos ! unit_index midashi infos) \<le> midashi"
  unfolding unit_index_def using nth_length_takeWhile not_less by blast

lemma forward_search_finds:
  assumes "i \<le> unit_index midashi infos"
  shows "forward_search midashi infos i = unit_index midashi infos"
  using assms
proof (induction "unit_index midashi infos - i" arbitrary: i)
  case 0
  then have "i = unit_index midashi infos" by simp
  then show ?case using at_unit_index [of midashi infos] unit_index_le [of midashi infos]
    by (subst forward_search.simps) auto
next
  case (Suc k)
  then have i: "i < unit_index midashi infos" by linarith
  then have "forward_search midashi infos (i + 1) = unit_index midashi infos"
    using Suc by simp
  then show ?case using i before_unit_index [OF i] unit_index_le [of midashi infos]
    by (subst forward_search.simps) (auto simp: not_le)
qed

lemma compare_unit_index:
  assumes "descending infos" "i < length infos"
  shows "midashi > info_midashi (infos ! i) \<Longrightarrow> unit_index midashi infos \<le> i"
    and "\<not> midashi > info_midashi (infos ! i) \<Longrightarrow> i \<le> unit_index midashi infos"
proof -
  show "midashi > info_midashi (infos ! i) \<Longrightarrow> unit_index midashi infos \<le> i"
    using before_unit_index [of i midashi infos] by (meson not_le less_asym)
  assume le: "\<not> midashi > info_midashi (infos ! i)"
  show "i \<le> unit_index midashi infos"
  proof (rule ccontr)
    assume "\<not> i \<le> unit_index midashi infos"
    then have k: "unit_index midashi infos < i" by simp
    then have "info_midashi (infos ! i) < info_midashi (infos ! unit_index midashi infos)"
      using assms sorted_wrt_nth_less [of _ infos "unit_index midashi infos" i] by (simp add: descending_def)
    moreover have "info_midashi (infos ! unit_index midashi infos) \<le> midashi"
      using at_unit_index k assms(2) by (meson less_trans)
    ultimately show False using le by (meson le_less_trans less_le_trans less_imp_le not_less)
  qed
qed

text \<open>
  The invariant of the binary search: steps of two or more stay inside the vector, and once the step
  is one, the index came from a neighbour whose comparison went the way of the last direction.
\<close>

definition hint_inv :: "bytes \<Rightarrow> block_information list \<Rightarrow> int \<Rightarrow> nat \<Rightarrow> int \<Rightarrow> nat \<Rightarrow> bool" where
  "hint_inv midashi infos index diff prev zc \<longleftrightarrow>
     0 \<le> index \<and> index < int (length infos) \<and> 1 \<le> diff \<and>
     (zc = 0 \<longrightarrow> index + 2 * int diff \<le> int (length infos)) \<and>
     (zc \<ge> 1 \<longrightarrow> diff = 1 \<and>
        (prev = 0 \<and> int (unit_index midashi infos) \<le> index + 1 \<or>
         prev = 1 \<and> index - 1 \<le> int (unit_index midashi infos)))"

lemma hint_loop_below:
  "descending infos \<Longrightarrow> hint_inv midashi infos index diff prev zc \<Longrightarrow>
    \<exists>hint. hint_loop midashi infos index diff prev zc = Ok hint \<and> 0 \<le> hint
      \<and> hint \<le> int (unit_index midashi infos)"
proof (induction midashi infos index diff prev zc rule: hint_loop.induct)
  case (1 midashi infos index diff prev zc)
  let ?t = "int (unit_index midashi infos)"
  have inv: "0 \<le> index" "index < int (length infos)" "1 \<le> diff"
    "zc = 0 \<Longrightarrow> index + 2 * int diff \<le> int (length infos)"
    "zc \<ge> 1 \<Longrightarrow> diff = 1 \<and> (prev = 0 \<and> ?t \<le> index + 1 \<or> prev = 1 \<and> index - 1 \<le> ?t)"
    using "1.prems"(2) by (simp_all add: hint_inv_def)
  have range: "\<not> (index < 0 \<or> index \<ge> int (length infos))" using inv(1,2) by simp
  define up where "up \<longleftrightarrow> \<not> midashi > info_midashi (infos ! nat index)"
  define direction :: int where "direction = (if up then 1 else 0)"
  define index' where "index' = (if up then index + int diff else index - int diff)"
  have cmp: "up \<Longrightarrow> index \<le> ?t" "\<not> up \<Longrightarrow> ?t \<le> index"
    using compare_unit_index [OF "1.prems"(1), of "nat index" midashi] inv(1,2)
    by (auto simp: up_def nat_less_iff nat_le_iff le_nat_iff)
  have unfold: "hint_loop midashi infos index diff prev zc =
      (if \<not> up \<and> index' < 0 then Ok 0
       else if up \<and> index' \<ge> int (length infos) then Ok (int (length infos) - 1)
       else if diff div 2 = 0 then
         if zc \<ge> 1 \<and> direction \<noteq> prev then Ok (max 0 (index' - 1))
         else hint_loop midashi infos index' 1 direction (zc + 1)
       else hint_loop midashi infos index' (diff div 2) direction zc)"
    using range by (subst hint_loop.simps) (simp add: up_def direction_def index'_def Let_def)
  have low: "up \<Longrightarrow> 0 \<le> index'" and high: "\<not> up \<Longrightarrow> index' < int (length infos)"
    using inv(1,2) by (simp_all add: index'_def)
  consider "\<not> up \<and> index' < 0" | "up \<and> index' \<ge> int (length infos)"
    | "0 \<le> index'" "index' < int (length infos)" "diff div 2 = 0" "zc \<ge> 1 \<and> direction \<noteq> prev"
    | "0 \<le> index'" "index' < int (length infos)" "diff div 2 = 0" "\<not> (zc \<ge> 1 \<and> direction \<noteq> prev)"
    | "0 \<le> index'" "index' < int (length infos)" "diff div 2 \<noteq> 0"
    using low high by (meson not_le)
  then show ?case
  proof cases
    case 1
    then show ?thesis by (simp add: unfold)
  next
    case 2
    then have "zc \<ge> 1" using inv(3,4) by (cases "zc = 0") (auto simp: index'_def)
    then have "int (length infos) - 1 \<le> ?t" using 2 inv(5) cmp(1) by (auto simp: index'_def)
    moreover have "0 \<le> int (length infos) - 1" using inv(1,2) by linarith
    ultimately show ?thesis using 2 unfolding unfold by auto
  next
    case 3
    then have "diff = 1" using inv(3) by auto
    then have "max 0 (index' - 1) \<le> ?t"
      using 3 inv(5) cmp by (auto simp: index'_def direction_def split: if_splits)
    then show ?thesis using 3 by (simp add: unfold)
  next
    case 4
    then have "diff = 1" using inv(3) by auto
    then have "hint_inv midashi infos index' 1 direction (zc + 1)"
      using 4 cmp by (auto simp: hint_inv_def index'_def direction_def)
    moreover have "hint_loop midashi infos index diff prev zc = hint_loop midashi infos index' 1 direction (zc + 1)"
    proof -
      have "(zc \<ge> 1 \<and> direction \<noteq> prev) = False" "(\<not> up \<and> index' < 0) = False"
        "(up \<and> index' \<ge> int (length infos)) = False" using 4 by auto
      then show ?thesis unfolding unfold by (simp only: 4(3) if_False if_True refl simp_thms)
    qed
    ultimately show ?thesis
      using "1.IH"(1) [OF range up_def direction_def index'_def] 4 "1.prems"(1) by auto
  next
    case 5
    then have "zc = 0" using inv(5) by (cases zc) auto
    moreover have "2 * (diff div 2) \<le> diff" by simp
    ultimately have "hint_inv midashi infos index' (diff div 2) direction zc"
      using 5 inv(4) by (auto simp: hint_inv_def index'_def)
    moreover have "hint_loop midashi infos index diff prev zc = hint_loop midashi infos index' (diff div 2) direction zc"
      using 5 by (simp add: unfold)
    ultimately show ?thesis
      using "1.IH"(2) [OF range up_def direction_def index'_def] 5 "1.prems"(1) by auto
  qed
qed

lemma hint_below:
  assumes d: "descending infos"
  shows "\<exists>hint. get_block_informations_loop_start_hint_index midashi infos = Ok hint
    \<and> hint \<le> unit_index midashi infos"
proof -
  let ?n = "length infos"
  consider "?n < 10" | "10 \<le> ?n" "?n < 30" | "30 \<le> ?n" by linarith
  then show ?thesis
  proof cases
    case 2
    then show ?thesis
      using compare_unit_index(2) [OF d, of "?n div 2" midashi]
      by (auto simp: get_block_informations_loop_start_hint_index_def binary_search_threshold_def Let_def)
  next
    case 3
    define index where "index = ?n div 2"
    have ix: "index * 2 \<le> ?n" "15 \<le> index" "(index div 2) * 2 \<le> index" "1 \<le> index div 2"
      using 3 by (simp_all add: index_def)
    then have "hint_inv midashi infos (int index) (index div 2) 0 0"
      by (simp add: hint_inv_def)
    from hint_loop_below [OF d this] obtain hint where
      "hint_loop midashi infos (int index) (index div 2) 0 0 = Ok hint" "0 \<le> hint"
      "hint \<le> int (unit_index midashi infos)" by blast
    moreover from this have "forward_search midashi infos (nat hint) = unit_index midashi infos"
      by (intro forward_search_finds) simp
    ultimately show ?thesis
      using 3 by (simp add: get_block_informations_loop_start_hint_index_def binary_search_threshold_def
          index_def [symmetric] Let_def)
  qed (simp add: get_block_informations_loop_start_hint_index_def)
qed

lemma get_block_informations_index_eq:
  assumes "descending infos"
  shows "get_block_informations_index midashi infos = Ok (unit_index midashi infos)"
  using hint_below [OF assms, of midashi] unit_index_le [of midashi infos]
  by (auto simp: get_block_informations_index_def forward_search_finds)


section \<open>Reading candidates and completions\<close>

definition is_empty_candidates :: "bytes \<Rightarrow> bool" where
  "is_empty_candidates candidates \<longleftrightarrow> length candidates = 1"

definition get_block_information_vectors ::
  "on_memory \<Rightarrow> dictionary_midashi_key \<Rightarrow> block_information list option res" where
  "get_block_information_vectors om key =
     (case get_ascii_hiragana_vec_index key of
        None \<Rightarrow> Ok (index_map om key)
      | Some i \<Rightarrow> and_then (index_res (index_ascii_hiragana_vec om) i) (\<lambda>infos.
          Ok (if infos = [] then None else Some infos)))"

text \<open>The buffer without the protocol byte in front and the space behind.\<close>

definition get_midashi :: "bytes \<Rightarrow> bytes res" where
  "get_midashi buffer = slice_res buffer 1 (length buffer - 1)"

definition is_okuri_ari :: "bytes \<Rightarrow> bool" where
  "is_okuri_ari midashi \<longleftrightarrow>
     (let n = length midashi in
      n \<ge> 3 \<and> in_range 0x61 0x7a (midashi ! (n - 1)) \<and> in_range 0xa1 0xf3 (midashi ! (n - 2))
      \<and> midashi ! (n - 3) = 0xa4)"

text \<open>What is done with the bytes of the unit.\<close>

definition lookup_candidates :: "twoway \<Rightarrow> bytes \<Rightarrow> bytes \<Rightarrow> bytes \<Rightarrow> bytes res" where
  "lookup_candidates tw midashi buffer result =
     (let midashi_search_bytes = [lf] @ midashi @ [space, slash]
      in case find_bytes tw buffer midashi_search_bytes of
           None \<Rightarrow> Ok result
         | Some midashi_find \<Rightarrow>
             let candidates_start = midashi_find + length midashi_search_bytes
             in and_then (tail_res buffer candidates_start) (\<lambda>rest.
                case find_bytes tw rest [lf] of
                  None \<Rightarrow> Err BrokenDictionary
                | Some lf_find \<Rightarrow>
                    and_then (slice_res buffer candidates_start (candidates_start + lf_find))
                      (\<lambda>candidates.
                      Ok (if is_empty_candidates result then result @ [slash] @ candidates
                          else [0x31] @ merge_trimmed_slash_candidates
                                 (trim_one_slash (drop 1 result)) (trim_one_slash candidates)))))"

definition read_dictionary_for_read_candidates ::
  "twoway \<Rightarrow> bytes \<Rightarrow> block_information list \<Rightarrow> u32 \<Rightarrow> dictionary_file \<Rightarrow> bytes
     \<Rightarrow> bytes res \<times> dictionary_file" where
  "read_dictionary_for_read_candidates tw midashi infos offset_of_blocks df result =
     (case get_block_informations_index midashi infos of
        Ok i \<Rightarrow>
          if i \<ge> length infos then (Ok result, df)
          else
            let unit = infos ! i;
                (r, df') = dictionary_file_read
                  (unat offset_of_blocks + unat (info_offset unit)) (unat (info_length unit)) df
            in (and_then r (\<lambda>buffer. lookup_candidates tw midashi buffer result), df')
      | e \<Rightarrow> (and_then e (\<lambda>_. Ok result), df))"

text \<open>
  The inner loop of the completion: \<open>True\<close> when it ends with \<open>break 'outer\<close>, the number found so far
  and the output.
\<close>

function abbrev_inner ::
  "twoway \<Rightarrow> bytes \<Rightarrow> bytes \<Rightarrow> nat \<Rightarrow> nat \<Rightarrow> nat \<Rightarrow> bytes \<Rightarrow> (bool \<times> nat \<times> bytes) res" where
  "abbrev_inner tw midashi buffer max_completions i found_count result =
     (let midashi_search_bytes = [lf] @ midashi in
      case tail_res buffer i of
        Ok rest \<Rightarrow>
          (case find_bytes tw rest midashi_search_bytes of
             None \<Rightarrow> Ok (found_count = 0, found_count, result)
           | Some midashi_find \<Rightarrow>
               let midashi_start = i + midashi_find + 1;
                   space_start = i + midashi_find + length midashi_search_bytes
               in (case tail_res buffer space_start of
                     Ok rest' \<Rightarrow>
                       (case find_bytes tw rest' [space] of
                          None \<Rightarrow> Err BrokenDictionary
                        | Some space_find \<Rightarrow>
                            (case slice_res buffer midashi_start (space_start + space_find) of
                               Ok found \<Rightarrow>
                                 if is_okuri_ari found then
                                   abbrev_inner tw midashi buffer max_completions
                                     (space_start + space_find) found_count result
                                 else
                                   let result' = result @ quote_and_add_prefix found (Some slash)
                                   in if found_count + 1 \<ge> max_completions
                                      then Ok (True, found_count + 1, result')
                                      else abbrev_inner tw midashi buffer max_completions
                                             (space_start + space_find) (found_count + 1) result'
                             | _ \<Rightarrow> Panic))
                   | _ \<Rightarrow> Panic))
      | _ \<Rightarrow> Panic)"
  by pat_completeness auto
termination
  by (relation "measure (\<lambda>(tw, m, buffer, k, i, n, r). Suc (length buffer) - i)")
    (auto simp: slice_res_def split: if_splits)

declare abbrev_inner.simps [simp del]

function abbrev_outer ::
  "twoway \<Rightarrow> bytes \<Rightarrow> block_information list \<Rightarrow> u32 \<Rightarrow> nat \<Rightarrow> nat \<Rightarrow> nat \<Rightarrow> dictionary_file \<Rightarrow> bytes
     \<Rightarrow> bytes res \<times> dictionary_file" where
  "abbrev_outer tw midashi infos offset_of_blocks max_completions i found_count df result =
     (if i \<ge> length infos then (Panic, df)
      else
        let unit = infos ! i in
        if found_count > 0 \<and> take (length midashi) (info_midashi unit) \<noteq> midashi then (Ok result, df)
        else
          let (r, df') = dictionary_file_read
                (unat offset_of_blocks + unat (info_offset unit)) (unat (info_length unit)) df
          in case and_then r (\<lambda>buffer.
                    abbrev_inner tw midashi buffer max_completions 0 found_count result) of
               Ok (break_outer, found_count', result') \<Rightarrow>
                 if break_outer \<or> i = 0 then (Ok result', df')
                 else abbrev_outer tw midashi infos offset_of_blocks max_completions (i - 1)
                        found_count' df' result'
             | e \<Rightarrow> (and_then e (\<lambda>_. Ok result), df'))"
  by pat_completeness auto
termination by (relation "measure (\<lambda>(tw, m, infos, b, k, i, n, df, r). i)") auto

declare abbrev_outer.simps [simp del]

definition read_dictionary_for_read_abbrev ::
  "tables \<Rightarrow> twoway \<Rightarrow> bytes \<Rightarrow> block_information list \<Rightarrow> u32 \<Rightarrow> dictionary_file \<Rightarrow> bytes \<Rightarrow> nat
     \<Rightarrow> encoding \<Rightarrow> bytes res \<times> dictionary_file" where
  "read_dictionary_for_read_abbrev t tw midashi infos offset_of_blocks df result max_completions enc =
     (case get_block_informations_index midashi infos of
        Ok i \<Rightarrow>
          let i' = (if i \<ge> length infos then i - 1 else i);
              (r, df') = abbrev_outer tw midashi infos offset_of_blocks max_completions i' 0 df result
          in (and_then r (\<lambda>result'. if enc = Utf8 then decode t result' else Ok result'), df')
      | e \<Rightarrow> (and_then e (\<lambda>_. Ok result), df))"

text \<open>\<open>read_abbrev\<close>.\<close>

definition read_abbrev ::
  "tables \<Rightarrow> twoway \<Rightarrow> config \<Rightarrow> on_memory \<Rightarrow> dictionary_file \<Rightarrow> bytes \<Rightarrow> bytes res \<times> dictionary_file" where
  "read_abbrev t tw cfg om df midashi_buffer =
     (let finish = (\<lambda>r. and_then r (\<lambda>result. Ok (if length result > 1 then result @ [slash] else result)))
      in case and_then (get_midashi midashi_buffer) (\<lambda>midashi.
                and_then (tail_res midashi_buffer 1) (\<lambda>rest.
                and_then (get_dictionary_midashi_key rest) (\<lambda>key. Ok (midashi, key)))) of
           Ok (midashi, key) \<Rightarrow>
             (case get_block_information_vectors om key of
                Ok None \<Rightarrow> (finish (Ok [0x31]), df)
              | Ok (Some infos) \<Rightarrow>
                  (case encoding_from_u32 (header_encoding (dictionary_fixed_header om)) of
                     Ok enc \<Rightarrow>
                       let (r, df') = read_dictionary_for_read_abbrev t tw midashi infos
                             (blocks_offset (dictionary_fixed_header om)) df [0x31]
                             (unat (max_server_completions cfg)) enc
                       in (finish r, df')
                   | _ \<Rightarrow> (Panic, df))
              | _ \<Rightarrow> (Panic, df))
         | e \<Rightarrow> (and_then e (\<lambda>_. Ok []), df))"

end
