(* ===== verification/Google_Cache.thy ===== *)
theory Google_Cache
  imports Skk_Types Std_Text Ordered_Map
begin

text \<open>
  The cache of the online candidates (\<open>src/skk/yaskkserv2/google_cache.rs\<close>): the map from a midashi to
  the time of its entry, written as decimal text, followed by the candidates; lookup, insertion with
  expiry and eviction, and the cache file, a SHA-1 digest followed by the serialized map. The
  packages \<open>bincode\<close> and \<open>sha1\<close>, the clock and the outcome of the writes are parameters.
\<close>

section \<open>State and parameters\<close>

type_synonym google_cache_map = "(bytes \<times> bytes list) list"

text \<open>The map behind the lock, and the content of the cache file, \<open>None\<close> when it cannot be opened.\<close>

record google_cache_object =
  cache_map :: google_cache_map
  cache_file :: "bytes option"

definition google_cache_object_new :: "bytes option \<Rightarrow> google_cache_object" where
  "google_cache_object_new f = \<lparr>cache_map = [], cache_file = f\<rparr>"

record bincode =
  bincode_serialize :: "google_cache_map \<Rightarrow> bytes res"
  bincode_deserialize :: "bytes \<Rightarrow> google_cache_map res"

text \<open>
  What the cache relies on: a map serializes, what it serializes to is read back as the same map and
  is not shorter than the serialized empty map.
\<close>

definition bincode_documented :: "bincode \<Rightarrow> bool" where
  "bincode_documented bc \<longleftrightarrow>
     (\<forall>m. \<exists>b e. bincode_serialize bc m = Ok b \<and> bincode_deserialize bc b = Ok m
        \<and> bincode_serialize bc [] = Ok e \<and> length e \<le> length b)"

text \<open>How the writes of the file end: the last one stops after a number of bytes.\<close>

datatype disk = Disk_Ok | Create_Fails | Write_Fails nat

section \<open>Operations\<close>

definition get_candidates :: "google_cache_map \<Rightarrow> bytes \<Rightarrow> bytes list" where
  "get_candidates m midashi =
     (case map_of m midashi of
        Some v \<Rightarrow> if length v \<ge> 2 then drop 1 v else []
      | None \<Rightarrow> [])"

definition parse_or_zero_u64 :: "bytes \<Rightarrow> u64 res" where
  "parse_or_zero_u64 bs =
     (if utf8_valid bs
      then Ok (case from_str_radix 10 (2 ^ 64 - 1) bs of Some n \<Rightarrow> of_nat n | None \<Rightarrow> 0)
      else Panic)"

definition entry_time :: "bytes list \<Rightarrow> u64 res" where
  "entry_time v = and_then (index_res v 0) parse_or_zero_u64"

fun unexpired :: "u64 \<Rightarrow> google_cache_map \<Rightarrow> google_cache_map res" where
  "unexpired limit [] = Ok []"
| "unexpired limit ((k, v) # m) =
     and_then (entry_time v) (\<lambda>time.
     and_then (unexpired limit m) (\<lambda>m'.
     Ok (if time > limit then (k, v) # m' else m')))"

text \<open>\<open>min_by\<close> returns the first of the least elements.\<close>

fun min_by_time :: "bytes \<Rightarrow> u64 \<Rightarrow> google_cache_map \<Rightarrow> bytes res" where
  "min_by_time best_key best [] = Ok best_key"
| "min_by_time best_key best ((k, v) # m) =
     and_then (entry_time v) (\<lambda>time.
     if time < best then min_by_time k time m else min_by_time best_key best m)"

definition remove_oldest :: "google_cache_map \<Rightarrow> google_cache_map res" where
  "remove_oldest m =
     (case m of
        [] \<Rightarrow> Ok []
      | (k, v) # rest \<Rightarrow>
          and_then (entry_time v) (\<lambda>time.
          and_then (min_by_time k time rest) (\<lambda>oldest.
          Ok (filter (\<lambda>e. fst e \<noteq> oldest) m))))"

definition google_cache_write ::
  "disk \<Rightarrow> bincode \<Rightarrow> (bytes \<Rightarrow> bytes) \<Rightarrow> google_cache_map \<Rightarrow> bytes option \<Rightarrow> unit res \<times> bytes option" where
  "google_cache_write disk bc sha1 m f =
     (if disk = Create_Fails then (Err Io, f)
      else case bincode_serialize bc m of
             Ok serialized_map \<Rightarrow>
               let content = sha1 serialized_map @ serialized_map
               in (case disk of
                     Write_Fails n \<Rightarrow> (Err Io, Some (take n content))
                   | _ \<Rightarrow> (Ok (), Some content))
           | e \<Rightarrow> (and_then e (\<lambda>_. Ok ()), Some []))"

definition google_cache_read ::
  "bincode \<Rightarrow> (bytes \<Rightarrow> bytes) \<Rightarrow> bytes option \<Rightarrow> google_cache_map res" where
  "google_cache_read bc sha1 f =
     (case f of
        None \<Rightarrow> Err CacheOpen
      | Some buffer \<Rightarrow>
          and_then (bincode_serialize bc []) (\<lambda>serialized_empty_map.
          if length buffer \<ge> sha1sum_length + length serialized_empty_map
             \<and> sha1 (drop sha1sum_length buffer) = take sha1sum_length buffer
          then bincode_deserialize bc (drop sha1sum_length buffer)
          else Err BrokenCache))"

definition setup_use_rwlock_internally ::
  "bincode \<Rightarrow> (bytes \<Rightarrow> bytes) \<Rightarrow> google_cache_object \<Rightarrow> google_cache_object" where
  "setup_use_rwlock_internally bc sha1 g =
     g\<lparr>cache_map := (case google_cache_read bc sha1 (cache_file g) of Ok m \<Rightarrow> m | _ \<Rightarrow> [])\<rparr>"

text \<open>
  The map after an insertion: the new entry gets the time in front, expired entries go, and the oldest
  one goes when there are more than \<open>cache_entries\<close>. The subtraction of two \<open>u64\<close> wraps.
\<close>

definition updated_map ::
  "u64 \<Rightarrow> nat \<Rightarrow> u64 \<Rightarrow> bytes \<Rightarrow> bytes list \<Rightarrow> google_cache_map \<Rightarrow> google_cache_map res" where
  "updated_map now cache_entries cache_expire_seconds midashi candidates m =
     (let cache_candidates = to_decimal (unat now) # candidates
      in and_then (unexpired (now - cache_expire_seconds) (btree_insert midashi cache_candidates m))
           (\<lambda>expired_map. if length expired_map > cache_entries then remove_oldest expired_map
                          else Ok expired_map))"

definition write_candidates ::
  "disk \<Rightarrow> bincode \<Rightarrow> (bytes \<Rightarrow> bytes) \<Rightarrow> u64 \<Rightarrow> bytes \<Rightarrow> bytes list \<Rightarrow> nat \<Rightarrow> u64 \<Rightarrow> google_cache_object
     \<Rightarrow> unit res \<times> google_cache_object" where
  "write_candidates disk bc sha1 now midashi candidates cache_entries cache_expire_seconds g =
     (let should_write = (case map_of (cache_map g) midashi of
                            Some v \<Rightarrow> candidates \<noteq> v | None \<Rightarrow> True)
      in if \<not> should_write then (Ok (), g)
         else case updated_map now cache_entries cache_expire_seconds midashi candidates (cache_map g) of
                Ok m \<Rightarrow>
                  let (r, f) = google_cache_write disk bc sha1 m (cache_file g)
                  in (r, g\<lparr>cache_map := m, cache_file := f\<rparr>)
              | e \<Rightarrow> (and_then e (\<lambda>_. Ok ()),
                      g\<lparr>cache_map := btree_insert midashi (to_decimal (unat now) # candidates)
                                       (cache_map g)\<rparr>))"


section \<open>The time of an entry\<close>

text \<open>An entry as the cache writes it: its time in decimal digits, then the candidates.\<close>

definition timed :: "u64 \<Rightarrow> bytes list \<Rightarrow> bool" where
  "timed t v \<longleftrightarrow> entry_time v = Ok t"

definition cache_wf :: "google_cache_map \<Rightarrow> bool" where
  "cache_wf m \<longleftrightarrow> btree_sorted m \<and> (\<forall>(k, v) \<in> set m. \<exists>t. timed t v)"

lemma utf8_valid_digits: "\<forall>b \<in> set bs. in_range 0x30 0x39 b \<Longrightarrow> utf8_valid bs"
proof (induction bs)
  case (Cons b bs)
  then have "b \<le> 0x7f" by (auto simp: in_range_def word_le_nat_alt)
  with Cons show ?case by (simp add: utf8_valid_ascii)
qed simp

lemma timed_to_decimal [simp]: "timed t (to_decimal (unat t) # cs)"
proof -
  have "unat t < 2 ^ LENGTH(64)" by (rule unsigned_less)
  then have "unat t \<le> 2 ^ 64 - 1" by simp
  then show ?thesis
    using from_str_radix_to_decimal [of "unat t" "2 ^ 64 - 1"] to_decimal_digits
    by (simp add: timed_def entry_time_def parse_or_zero_u64_def utf8_valid_digits)
qed

lemma entry_time_timed: "timed t v \<Longrightarrow> entry_time v = Ok t"
  by (simp add: timed_def)

definition time_of :: "bytes list \<Rightarrow> u64" where
  "time_of v = the_ok (entry_time v)"

lemma time_of_timed [simp]: "timed t v \<Longrightarrow> time_of v = t"
  by (simp add: time_of_def timed_def)

lemma time_of_new [simp]: "time_of (to_decimal (unat t) # cs) = t"
  by (rule time_of_timed [OF timed_to_decimal])

lemma unexpired_filter:
  "\<forall>(k, v) \<in> set m. \<exists>t. timed t v \<Longrightarrow> unexpired limit m = Ok (filter (\<lambda>(k, v). time_of v > limit) m)"
  by (induction limit m rule: unexpired.induct) (auto simp: entry_time_timed)

lemma min_by_time_mem:
  "\<forall>e \<in> set m. \<exists>t. timed t (snd e) \<Longrightarrow>
   \<exists>k t. min_by_time bk b m = Ok k \<and> t \<le> b \<and> (\<forall>e \<in> set m. t \<le> time_of (snd e))
      \<and> (k = bk \<and> t = b \<or> (\<exists>v. (k, v) \<in> set m \<and> time_of v = t))"
proof (induction m arbitrary: bk b)
  case (Cons e m)
  obtain k v where e: "e = (k, v)" by (cases e)
  then obtain t where t: "timed t v" using Cons.prems by auto
  let ?k = "if t < b then k else bk" and ?b = "if t < b then t else b"
  obtain k' t' where *: "min_by_time ?k ?b m = Ok k'" "t' \<le> ?b" "\<forall>e \<in> set m. t' \<le> time_of (snd e)"
    "k' = ?k \<and> t' = ?b \<or> (\<exists>v. (k', v) \<in> set m \<and> time_of v = t')"
    using Cons.IH [of ?k ?b] Cons.prems by auto
  have "min_by_time bk b (e # m) = Ok k'"
    using *(1) t by (simp add: e entry_time_timed split: if_splits)
  moreover have "t' \<le> b" and "t' \<le> t"
    using *(2) by (auto split: if_splits)
  moreover have "k' = bk \<and> t' = b \<or> (\<exists>v. (k', v) \<in> set (e # m) \<and> time_of v = t')"
  proof (cases "k' = ?k \<and> t' = ?b")
    case True
    then show ?thesis using t by (cases "t < b") (auto simp: e intro!: exI [of _ v])
  next
    case False
    then show ?thesis using *(4) by auto
  qed
  ultimately show ?case using *(3) t by (intro exI [of _ k'] exI [of _ t']) (simp add: e)
qed simp

lemma btree_sorted_filter: "btree_sorted m \<Longrightarrow> btree_sorted (filter P m)"
  by (simp add: btree_sorted_def sorted_wrt_filter sorted_wrt_map)

lemma btree_insert_mem:
  "x \<in> set (btree_insert k v m) \<Longrightarrow> x = (k, v) \<or> x \<in> set m"
  by (induction k v m rule: btree_insert.induct) (auto split: if_splits)

lemma length_btree_insert: "length (btree_insert k v m) \<le> Suc (length m)"
  by (induction k v m rule: btree_insert.induct) auto

lemma cache_wf_insert: "cache_wf m \<Longrightarrow> timed t v \<Longrightarrow> cache_wf (btree_insert k v m)"
  by (fastforce simp: cache_wf_def btree_sorted_insert dest: btree_insert_mem)

lemma cache_wf_filter: "cache_wf m \<Longrightarrow> cache_wf (filter P m)"
  by (auto simp: cache_wf_def btree_sorted_filter)

lemma map_of_filter_key: "distinct (map fst m) \<Longrightarrow>
   map_of (filter P m) k = (case map_of m k of Some v \<Rightarrow> if P (k, v) then Some v else None | None \<Rightarrow> None)"
  by (induction m) (auto split: option.splits dest: map_of_SomeD simp: rev_image_eqI)

text \<open>The eviction removes one entry, and no entry is older.\<close>

lemma remove_oldest_eq:
  assumes "cache_wf m" and "m \<noteq> []"
  shows "\<exists>k v. (k, v) \<in> set m \<and> (\<forall>(k', v') \<in> set m. time_of v \<le> time_of v')
    \<and> remove_oldest m = Ok (filter (\<lambda>e. fst e \<noteq> k) m)"
proof -
  obtain k v rest where m: "m = (k, v) # rest" using assms(2) by (cases m) auto
  then obtain t where t: "timed t v" using assms(1) by (auto simp: cache_wf_def)
  have "\<forall>e \<in> set rest. \<exists>t. timed t (snd e)" using assms(1) m by (auto simp: cache_wf_def)
  from min_by_time_mem [OF this, of k t]
  obtain o1 t' where o1: "min_by_time k t rest = Ok o1" and le: "t' \<le> t"
    and least: "\<forall>e \<in> set rest. t' \<le> time_of (snd e)"
    and alt: "o1 = k \<and> t' = t \<or> (\<exists>v. (o1, v) \<in> set rest \<and> time_of v = t')"
    by blast
  have "remove_oldest m = Ok (filter (\<lambda>e. fst e \<noteq> o1) m)"
    using t o1 by (simp add: remove_oldest_def m entry_time_timed)
  moreover have "\<exists>v. (o1, v) \<in> set m \<and> (\<forall>(k', v') \<in> set m. time_of v \<le> time_of v')"
    using alt
  proof
    assume "o1 = k \<and> t' = t"
    then show ?thesis using t m least by (intro exI [of _ v]) auto
  next
    assume "\<exists>v. (o1, v) \<in> set rest \<and> time_of v = t'"
    then obtain v' where "(o1, v') \<in> set rest" and "time_of v' = t'" by blast
    then show ?thesis using t m le least by (intro exI [of _ v']) auto
  qed
  ultimately show ?thesis by blast
qed

lemma length_remove_key:
  assumes "btree_sorted m" and "(k, v) \<in> set m"
  shows "Suc (length (filter (\<lambda>e. fst e \<noteq> k) m)) = length m"
proof -
  obtain xs ys where m: "m = xs @ (k, v) # ys" using assms(2) by (auto dest: split_list)
  then have "k \<notin> fst ` set xs" and "k \<notin> fst ` set ys"
    using btree_distinct [OF assms(1)] by auto
  then have "filter (\<lambda>e. fst e \<noteq> k) xs = xs" and "filter (\<lambda>e. fst e \<noteq> k) ys = ys"
    by (auto simp: filter_id_conv)
  then show ?thesis by (simp add: m)
qed


text \<open>The map after an insertion, without the evaluation of times.\<close>

definition kept :: "u64 \<Rightarrow> u64 \<Rightarrow> bytes \<Rightarrow> bytes list \<Rightarrow> google_cache_map \<Rightarrow> google_cache_map" where
  "kept now expire midashi cs m =
     filter (\<lambda>(k, v). time_of v > now - expire) (btree_insert midashi (to_decimal (unat now) # cs) m)"

lemma cache_wf_kept: "cache_wf m \<Longrightarrow> cache_wf (kept now expire midashi cs m)"
  unfolding kept_def by (rule cache_wf_filter) (rule cache_wf_insert [OF _ timed_to_decimal])

lemma length_kept: "length (kept now expire midashi cs m) \<le> Suc (length m)"
  unfolding kept_def by (rule le_trans [OF length_filter_le length_btree_insert])

lemma updated_map_eq:
  assumes "cache_wf m"
  shows "updated_map now n expire midashi cs m =
    (if length (kept now expire midashi cs m) > n then remove_oldest (kept now expire midashi cs m)
     else Ok (kept now expire midashi cs m))"
proof -
  have "\<forall>(k, v) \<in> set (btree_insert midashi (to_decimal (unat now) # cs) m). \<exists>t. timed t v"
    using cache_wf_insert [OF assms timed_to_decimal] by (simp add: cache_wf_def)
  then show ?thesis by (simp add: updated_map_def unexpired_filter kept_def)
qed

lemma updated_map_cases:
  assumes "cache_wf m"
  obtains m' where "updated_map now n expire midashi cs m = Ok m'" and "cache_wf m'"
    and "set m' \<subseteq> set (kept now expire midashi cs m)" and "length m' \<le> max n (length m)"
proof (cases "length (kept now expire midashi cs m) > n")
  case False
  then show ?thesis
    using that [of "kept now expire midashi cs m"] assms by (simp add: updated_map_eq cache_wf_kept)
next
  case True
  then have "kept now expire midashi cs m \<noteq> []" by auto
  then obtain k v where kv: "(k, v) \<in> set (kept now expire midashi cs m)"
    and eq: "remove_oldest (kept now expire midashi cs m)
      = Ok (filter (\<lambda>e. fst e \<noteq> k) (kept now expire midashi cs m))"
    using remove_oldest_eq [OF cache_wf_kept [OF assms]] by blast
  have "Suc (length (filter (\<lambda>e. fst e \<noteq> k) (kept now expire midashi cs m)))
      = length (kept now expire midashi cs m)"
    using cache_wf_kept [OF assms] kv by (intro length_remove_key) (auto simp: cache_wf_def)
  then show ?thesis
    using that [of "filter (\<lambda>e. fst e \<noteq> k) (kept now expire midashi cs m)"] True assms eq
      length_kept [of now expire midashi cs m]
    by (simp add: updated_map_eq cache_wf_kept cache_wf_filter)
qed

lemma write_candidates_Ok:
  assumes "bincode_documented bc" and "updated_map now n expire midashi cs (cache_map g) = Ok m'"
    and "map_of (cache_map g) midashi \<noteq> Some cs"
  obtains s where "bincode_serialize bc m' = Ok s" and "bincode_deserialize bc s = Ok m'"
    and "write_candidates Disk_Ok bc sha1 now midashi cs n expire g
      = (Ok (), g\<lparr>cache_map := m', cache_file := Some (sha1 s @ s)\<rparr>)"
proof -
  obtain s where s: "bincode_serialize bc m' = Ok s" "bincode_deserialize bc s = Ok m'"
    using assms(1) unfolding bincode_documented_def by metis
  have "write_candidates Disk_Ok bc sha1 now midashi cs n expire g
      = (Ok (), g\<lparr>cache_map := m', cache_file := Some (sha1 s @ s)\<rparr>)"
    using assms(2,3) s
    by (auto simp: write_candidates_def google_cache_write_def Let_def split: option.splits)
  then show ?thesis using that s by blast
qed

lemma google_cache_read_content:
  assumes "bincode_documented bc" and "bincode_serialize bc m = Ok s"
    and "length (sha1 s) = sha1sum_length"
  shows "google_cache_read bc sha1 (Some (sha1 s @ s)) = Ok m"
proof -
  obtain e where "bincode_serialize bc [] = Ok e" and "length e \<le> length s"
    and "bincode_deserialize bc s = Ok m"
    using assms(1,2) unfolding bincode_documented_def by (metis res.inject(1))
  then show ?thesis using assms(3) by (simp add: google_cache_read_def)
qed


section \<open>Properties\<close>

lemma sub_less_self: "0 < e \<Longrightarrow> e \<le> n \<Longrightarrow> n - e < n" for n e :: u64
  by (simp add: word_less_nat_alt unat_sub word_le_nat_alt)

lemma sub_wraps: "n < e \<Longrightarrow> t \<le> n \<Longrightarrow> \<not> t > n - e" for n e t :: u64
proof -
  assume "n < e" and "t \<le> n"
  have "unat (n - e) = unat n + 2 ^ 64 - unat e"
    using \<open>n < e\<close> by (simp add: unat_sub_if_size size_word_def word_less_nat_alt)
  moreover have "unat e < 2 ^ LENGTH(64)" by (rule unsigned_less)
  ultimately show ?thesis
    using \<open>t \<le> n\<close> \<open>n < e\<close> by (simp add: word_less_nat_alt word_le_nat_alt not_less)
qed


text \<open>C16: The number of entries never grows beyond the configured number, and the map stays sorted with readable times, whatever the clock, the expiry time and the outcome of the file writes are.\<close>

theorem google_cache_bounded:
  assumes "cache_wf (cache_map g)" and "length (cache_map g) \<le> n"
    and "write_candidates disk bc sha1 now midashi cs n expire g = (r, g')"
  shows "cache_wf (cache_map g') \<and> length (cache_map g') \<le> n"
proof -
  obtain m' where m': "updated_map now n expire midashi cs (cache_map g) = Ok m'" "cache_wf m'"
    "length m' \<le> max n (length (cache_map g))"
    using updated_map_cases [OF assms(1)] by metis
  have "cache_map g' = cache_map g \<or> cache_map g' = m'"
    using assms(3) m'(1)
    by (auto simp: write_candidates_def Let_def split: if_splits prod.splits option.splits)
  then show ?thesis using assms(1,2) m' by auto
qed

text \<open>C25: After a successful insertion a restarted server reads the same map from the cache file.\<close>

theorem google_cache_restart:
  assumes "bincode_documented bc" and "\<And>bs. length (sha1 bs) = sha1sum_length"
    and "cache_wf (cache_map g)" and "map_of (cache_map g) midashi \<noteq> Some cs"
    and "write_candidates Disk_Ok bc sha1 now midashi cs n expire g = (r, g')"
  shows "r = Ok () \<and> setup_use_rwlock_internally bc sha1 (google_cache_object_new (cache_file g')) = g'"
proof -
  obtain m' where m': "updated_map now n expire midashi cs (cache_map g) = Ok m'"
    using updated_map_cases [OF assms(3)] by metis
  obtain s where s: "bincode_serialize bc m' = Ok s"
    "write_candidates Disk_Ok bc sha1 now midashi cs n expire g
      = (Ok (), g\<lparr>cache_map := m', cache_file := Some (sha1 s @ s)\<rparr>)"
    using write_candidates_Ok [OF assms(1) m' assms(4)] by metis
  then show ?thesis
    using assms(5) google_cache_read_content [of bc m' s sha1, OF assms(1) s(1) assms(2)]
    by (auto simp: setup_use_rwlock_internally_def google_cache_object_new_def)
qed

text \<open>C26: With an expiry time longer than the time since 1970 the subtraction wraps, and an insertion empties the cache, the new entry included.\<close>

theorem google_cache_expire_underflow:
  assumes "bincode_documented bc" and "cache_wf (cache_map g)" and "now < expire"
    and "\<forall>(k, v) \<in> set (cache_map g). time_of v \<le> now" and "map_of (cache_map g) midashi \<noteq> Some cs"
    and "write_candidates Disk_Ok bc sha1 now midashi cs n expire g = (r, g')"
  shows "r = Ok () \<and> cache_map g' = []"
proof -
  have "\<not> time_of v > now - expire"
    if "(k, v) \<in> set (btree_insert midashi (to_decimal (unat now) # cs) (cache_map g))" for k v
    using btree_insert_mem [OF that] assms(4)
    by (intro sub_wraps [OF assms(3)]) auto
  then have empty: "kept now expire midashi cs (cache_map g) = []"
    by (auto simp: kept_def filter_empty_conv)
  then have up: "updated_map now n expire midashi cs (cache_map g) = Ok []"
    using updated_map_eq [OF assms(2)] by (simp add: remove_oldest_def)
  show ?thesis
    by (rule write_candidates_Ok [OF assms(1) up assms(5), of sha1]) (use assms(6) in simp)
qed

lemma length_btree_insert_present:
  "k \<in> fst ` set m \<Longrightarrow> btree_sorted m \<Longrightarrow> length (btree_insert k v m) = length m"
  by (induction k v m rule: btree_insert.induct) (auto simp: btree_sorted_def)

text \<open>C27: Candidates equal to the cached ones are never recognised as a repetition, as the stored value starts with its time: the entry gets the new time and the file is written again.\<close>

theorem google_cache_repeat_rewrites:
  assumes "bincode_documented bc" and "cache_wf (cache_map g)" and "length (cache_map g) \<le> n"
    and "0 < expire" and "expire \<le> now" and "map_of (cache_map g) midashi = Some (time # cs)"
    and "write_candidates Disk_Ok bc sha1 now midashi cs n expire g = (r, g')"
  shows "map_of (cache_map g') midashi = Some (to_decimal (unat now) # cs)
    \<and> (\<exists>s. cache_file g' = Some (sha1 s @ s) \<and> bincode_serialize bc (cache_map g') = Ok s)"
proof -
  let ?m = "btree_insert midashi (to_decimal (unat now) # cs) (cache_map g)"
  let ?m' = "kept now expire midashi cs (cache_map g)"
  have sorted: "btree_sorted (cache_map g)" using assms(2) by (simp add: cache_wf_def)
  have "midashi \<in> fst ` set (cache_map g)" using map_of_SomeD [OF assms(6)] by force
  then have "length ?m = length (cache_map g)"
    using sorted by (rule length_btree_insert_present)
  then have "length ?m' \<le> n"
    using length_filter_le [of "\<lambda>(k, v). time_of v > now - expire" ?m] assms(3) by (simp add: kept_def)
  then have "updated_map now n expire midashi cs (cache_map g) = Ok ?m'"
    by (simp add: updated_map_eq [OF assms(2)])
  moreover have "map_of (cache_map g) midashi \<noteq> Some cs"
    using assms(6) not_Cons_self [of cs] by auto
  ultimately obtain s where s: "bincode_serialize bc ?m' = Ok s"
    "g' = g\<lparr>cache_map := ?m', cache_file := Some (sha1 s @ s)\<rparr>"
    using write_candidates_Ok [OF assms(1)] assms(7) by (metis prod.inject)
  moreover have "map_of ?m' midashi = Some (to_decimal (unat now) # cs)"
    unfolding kept_def
    by (subst map_of_filter_key)
      (simp_all add: btree_distinct btree_sorted_insert btree_lookup_insert sorted sub_less_self
        assms(4,5))
  ultimately show ?thesis by auto
qed

section \<open>Witnesses\<close>

text \<open>
  A serializer with the documented behaviour: a byte is marked by 1, a string ended by 2, the strings of
  an entry by 3.
\<close>

definition mark_string :: "bytes \<Rightarrow> bytes" where
  "mark_string s = concat (map (\<lambda>b. [1, b]) s) @ [2]"

definition mark_entry :: "bytes \<times> bytes list \<Rightarrow> bytes" where
  "mark_entry e = concat (map mark_string (fst e # snd e)) @ [3]"

fun read_marked :: "google_cache_map \<Rightarrow> bytes list \<Rightarrow> bytes \<Rightarrow> bytes \<Rightarrow> google_cache_map" where
  "read_marked m ss s [] = m"
| "read_marked m ss s (b # bs) =
     (if b = 1 then (case bs of [] \<Rightarrow> m | c # cs \<Rightarrow> read_marked m ss (s @ [c]) cs)
      else if b = 2 then read_marked m (ss @ [s]) [] bs
      else read_marked (m @ [(hd ss, tl ss)]) [] [] bs)"

definition sample_bincode :: bincode where
  "sample_bincode = \<lparr>bincode_serialize = (\<lambda>m. Ok (concat (map mark_entry m))),
                     bincode_deserialize = (\<lambda>b. Ok (read_marked [] [] [] b))\<rparr>"

definition sample_sha1 :: "bytes \<Rightarrow> bytes" where
  "sample_sha1 bs = replicate 20 (of_nat (length bs))"

lemma read_marked_bytes:
  "read_marked m ss s (concat (map (\<lambda>b. [1, b]) t) @ bs) = read_marked m ss (s @ t) bs"
  by (induction t arbitrary: s) simp_all

lemma read_marked_strings:
  "read_marked m ss [] (concat (map mark_string ts) @ bs) = read_marked m (ss @ ts) [] bs"
  by (induction ts arbitrary: ss) (simp_all add: mark_string_def read_marked_bytes)

lemma read_marked_entries: "read_marked m [] [] (concat (map mark_entry es)) = m @ es"
proof (induction es arbitrary: m)
  case (Cons e es)
  have "read_marked m [] [] (concat (map mark_entry (e # es)))
      = read_marked m (fst e # snd e) [] (3 # concat (map mark_entry es))"
    using read_marked_strings [of m "[]" "fst e # snd e" "3 # concat (map mark_entry es)"]
    by (simp add: mark_entry_def)
  then show ?case using Cons.IH by simp
qed simp

lemma sample_bincode_documented: "bincode_documented sample_bincode"
  by (simp add: bincode_documented_def sample_bincode_def read_marked_entries)

lemma length_sample_sha1: "length (sample_sha1 bs) = sha1sum_length"
  by (simp add: sample_sha1_def sha1sum_length_def)

definition sample_cache :: google_cache_object where
  "sample_cache = \<lparr>cache_map = [([0x61], [[0x35, 0x30], [0x62]])], cache_file = None\<rparr>"

lemma timed_50: "timed 50 [[0x35, 0x30], [0x62]]"
  using timed_to_decimal [of 50 "[[0x62]]"] by (simp add: to_decimal.simps)

lemma sample_cache_wf: "cache_wf (cache_map sample_cache)"
  using timed_50 by (auto simp: cache_wf_def sample_cache_def btree_sorted_def)


theorem google_cache_bounded_witness:
  "length (cache_map (snd (write_candidates (Write_Fails 3) sample_bincode sample_sha1 100 [0x63] [[0x64]] 1 60
     sample_cache))) \<le> 1"
  using google_cache_bounded [OF sample_cache_wf _ surjective_pairing, where n = 1 and now = 100
      and disk = "Write_Fails 3" and bc = sample_bincode and ?sha1.0 = sample_sha1 and midashi = "[0x63]"
      and cs = "[[0x64]]" and expire = 60]
  by (simp add: sample_cache_def)

theorem google_cache_restart_witness:
  "fst (write_candidates Disk_Ok sample_bincode sample_sha1 100 [0x63] [[0x64]] 2 60 sample_cache) = Ok ()"
  using google_cache_restart [OF sample_bincode_documented length_sample_sha1 sample_cache_wf _ surjective_pairing,
      where midashi = "[0x63]" and cs = "[[0x64]]" and now = 100 and n = 2 and expire = 60]
  by (simp add: sample_cache_def)

theorem google_cache_expire_underflow_witness:
  "cache_map (snd (write_candidates Disk_Ok sample_bincode sample_sha1 100 [0x63] [[0x64]] 2 101 sample_cache)) = []"
  using google_cache_expire_underflow [OF sample_bincode_documented sample_cache_wf _ _ _ surjective_pairing,
      where midashi = "[0x63]" and cs = "[[0x64]]" and now = 100 and n = 2 and expire = 101
      and ?sha1.0 = sample_sha1] timed_50
  by (simp add: sample_cache_def)

theorem google_cache_repeat_rewrites_witness:
  "map_of (cache_map (snd (write_candidates Disk_Ok sample_bincode sample_sha1 100 [0x61] [[0x62]] 2 60 sample_cache)))
     [0x61] = Some (to_decimal 100 # [[0x62]])"
  using google_cache_repeat_rewrites [OF sample_bincode_documented sample_cache_wf _ _ _ _ surjective_pairing,
      where midashi = "[0x61]" and time = "[0x35, 0x30]" and cs = "[[0x62]]" and now = 100 and n = 2
      and expire = 60 and ?sha1.0 = sample_sha1]
  by (simp add: sample_cache_def)

end
