(* ===== verification/Request.thy ===== *)
theory Request
  imports Encoding_Table
begin

text \<open>
  The online candidates (\<open>src/skk/yaskkserv2/request.rs\<close>): which kana strings are left out, how the
  segments of the answer of the transliteration service are combined, how the suggestions are cut out
  of the answer of the suggestion service, and the two requests. The packages \<open>reqwest\<close>, \<open>json\<close>,
  \<open>url\<close> and \<open>regex\<close> are the fields of one parameter.
\<close>

section \<open>Kana\<close>

definition is_utf8_hiragana :: "u8 \<Rightarrow> u8 \<Rightarrow> u8 \<Rightarrow> bool" where
  "is_utf8_hiragana l0 l1 l2 =
     (if l0 \<noteq> 0xe3 then False
      else if l1 = 0x81 then in_range 0x81 0xbf l2
      else if l1 = 0x82 then
        (if in_range 0x9b 0x9e l2 then True
         else if \<not> in_range 0x80 0x93 l2 then False else True)
      else False)"

definition is_utf8_katakana :: "u8 \<Rightarrow> u8 \<Rightarrow> u8 \<Rightarrow> bool" where
  "is_utf8_katakana l0 l1 l2 =
     (if l0 \<noteq> 0xe3 then False
      else if l1 = 0x82 then in_range 0xa1 0xbf l2
      else if l1 = 0x83 then
        (if in_range 0xbb 0xbe l2 then True
         else if \<not> in_range 0x80 0xb6 l2 then False else True)
      else False)"

definition is_utf8_hankaku_katakana :: "u8 \<Rightarrow> u8 \<Rightarrow> u8 \<Rightarrow> bool" where
  "is_utf8_hankaku_katakana l0 l1 l2 =
     (if l0 \<noteq> 0xef then False
      else if l1 = 0xbd then in_range 0xa1 0xbf l2
      else if l1 = 0xbe then (if \<not> in_range 0x80 0x9f l2 then False else True)
      else False)"

text \<open>The loop over a candidate in steps of three bytes.\<close>

fun letters_of_3 :: "(u8 \<Rightarrow> u8 \<Rightarrow> u8 \<Rightarrow> bool) \<Rightarrow> bytes \<Rightarrow> bool" where
  "letters_of_3 P (a # b # c # bs) = (if \<not> P a b c then False else letters_of_3 P bs)"
| "letters_of_3 P bs = True"

definition only_letters :: "(u8 \<Rightarrow> u8 \<Rightarrow> u8 \<Rightarrow> bool) \<Rightarrow> bytes \<Rightarrow> bool" where
  "only_letters P candidate =
     (if length candidate mod 3 \<noteq> 0 \<or> length candidate < 3 then False else letters_of_3 P candidate)"

definition is_utf8_hiragana_only :: "bytes \<Rightarrow> bool" where
  "is_utf8_hiragana_only = only_letters is_utf8_hiragana"

definition is_utf8_katakana_only :: "bytes \<Rightarrow> bool" where
  "is_utf8_katakana_only = only_letters is_utf8_katakana"

definition is_utf8_hankaku_katakana_only :: "bytes \<Rightarrow> bool" where
  "is_utf8_hankaku_katakana_only = only_letters is_utf8_hankaku_katakana"

definition should_add_tail_candidates :: "bytes \<Rightarrow> bool" where
  "should_add_tail_candidates midashi_tail =
     (if length midashi_tail < 1 then False
      else \<not> in_range 0x61 0x7a (midashi_tail ! (length midashi_tail - 1)))"

text \<open>The three options: may a candidate in hiragana, in katakana, in half-width katakana only stay?\<close>

record insert_options =
  is_insert_hiragana_only :: bool
  is_insert_katakana_only :: bool
  is_insert_hankaku_katakana_only :: bool

fun should_add :: "bytes list \<Rightarrow> insert_options \<Rightarrow> bool" where
  "should_add [] opts = True"
| "should_add (candidate # candidates) opts =
     (if \<not> is_insert_hiragana_only opts \<and> is_utf8_hiragana_only candidate then False
      else if \<not> is_insert_katakana_only opts \<and> is_utf8_katakana_only candidate then False
      else if \<not> is_insert_hankaku_katakana_only opts \<and> is_utf8_hankaku_katakana_only candidate then False
      else should_add candidates opts)"

section \<open>What the packages give\<close>

record http_response =
  http_status :: nat
  http_text :: "bytes res"

record 'j web =
  client_build :: "u64 \<Rightarrow> unit res"
  client_get :: "u64 \<Rightarrow> bytes \<Rightarrow> http_response res"
  byte_serialize :: "bytes \<Rightarrow> bytes"
  json_parse :: "bytes \<Rightarrow> 'j res"
  json_is_array :: "'j \<Rightarrow> bool"
  json_len :: "'j \<Rightarrow> nat"
  json_index :: "'j \<Rightarrow> nat \<Rightarrow> 'j"
  json_members :: "'j \<Rightarrow> 'j list"
  json_as_str :: "'j \<Rightarrow> bytes option"
  before_white_space :: "bytes \<Rightarrow> bytes option"

section \<open>Combining the segments\<close>

text \<open>The members of \<open>json[i][1]\<close> that are strings, in the order of the loops.\<close>

definition segment :: "'j web \<Rightarrow> 'j \<Rightarrow> nat \<Rightarrow> bytes list" where
  "segment w j i = List.map_filter (json_as_str w) (json_members w (json_index w (json_index w j i) 1))"

definition segment_midashi :: "'j web \<Rightarrow> 'j \<Rightarrow> nat \<Rightarrow> bytes option" where
  "segment_midashi w j i = json_as_str w (json_index w (json_index w j i) 0)"

definition get_google_japanese_input_result_2 :: "'j web \<Rightarrow> 'j \<Rightarrow> insert_options \<Rightarrow> bytes list" where
  "get_google_japanese_input_result_2 w j opts =
     (case segment_midashi w j 1 of
        None \<Rightarrow> []
      | Some midashi_tail \<Rightarrow>
          [b0 @ (if should_add_tail_candidates midashi_tail then b1 else []).
             b0 \<leftarrow> segment w j 0, b1 \<leftarrow> segment w j 1, should_add [b0, b1] opts])"

definition get_google_japanese_input_result_3 :: "'j web \<Rightarrow> 'j \<Rightarrow> insert_options \<Rightarrow> bytes list" where
  "get_google_japanese_input_result_3 w j opts =
     (case segment_midashi w j 2 of
        None \<Rightarrow> []
      | Some midashi_tail \<Rightarrow>
          [b0 @ b1 @ (if should_add_tail_candidates midashi_tail then b2 else []).
             b0 \<leftarrow> segment w j 0, b1 \<leftarrow> segment w j 1, b2 \<leftarrow> segment w j 2,
             should_add [b0, b1, b2] opts])"

definition get_google_japanese_input_result_4 :: "'j web \<Rightarrow> 'j \<Rightarrow> insert_options \<Rightarrow> bytes list" where
  "get_google_japanese_input_result_4 w j opts =
     (case segment_midashi w j 3 of
        None \<Rightarrow> []
      | Some midashi_tail \<Rightarrow>
          [b0 @ b1 @ b2 @ (if should_add_tail_candidates midashi_tail then b3 else []).
             b0 \<leftarrow> segment w j 0, b1 \<leftarrow> segment w j 1, b2 \<leftarrow> segment w j 2, b3 \<leftarrow> segment w j 3,
             should_add [b0, b1, b2, b3] opts])"

definition get_google_japanese_input_result :: "'j web \<Rightarrow> 'j \<Rightarrow> nat \<Rightarrow> insert_options \<Rightarrow> bytes list" where
  "get_google_japanese_input_result w j max_candidates_length opts =
     (let result =
        (if json_len w j = 2 then get_google_japanese_input_result_2 w j opts
         else if json_len w j = 3 then get_google_japanese_input_result_3 w j opts
         else if json_len w j = 4 then get_google_japanese_input_result_4 w j opts
         else [b. b \<leftarrow> segment w j 0, should_add [b] opts])
      in if length result > max_candidates_length then take max_candidates_length result else result)"

section \<open>The requests\<close>

definition google_japanese_input_url :: bytes where
  "google_japanese_input_url = ascii ''://www.google.com/transliterate?langpair=ja-Hira|ja&text=''"

definition google_suggest_url :: bytes where
  "google_suggest_url = ascii ''://www.google.com/complete/search?hl=ja&output=toolbar&q=''"

definition request :: "'j web \<Rightarrow> bytes \<Rightarrow> u64 \<Rightarrow> bytes res" where
  "request w url timeout =
     and_then (client_build w timeout) (\<lambda>_.
     and_then (client_get w timeout url) (\<lambda>response.
     if http_status response = 200 then http_text response else Err Request))"

definition request_google_japanese_input ::
  "'j web \<Rightarrow> bytes \<Rightarrow> bytes \<Rightarrow> u64 \<Rightarrow> nat \<Rightarrow> insert_options \<Rightarrow> bytes list res" where
  "request_google_japanese_input w protocol midashi timeout max_candidates_length opts =
     and_then (request w (protocol @ google_japanese_input_url @ byte_serialize w midashi) timeout) (\<lambda>content.
     and_then (json_parse w content) (\<lambda>j.
     let result =
       (if json_is_array w j \<and> json_is_array w (json_index w j 0) \<and> json_len w (json_index w j 0) \<ge> 2
        then get_google_japanese_input_result w j max_candidates_length opts
        else [])
     in if result = [] then Err Request else Ok result))"

text \<open>\<open>trim_start_matches\<close> and \<open>trim_end_matches\<close> take the pattern away as often as it is there.\<close>

function trim_start_matches :: "bytes \<Rightarrow> bytes \<Rightarrow> bytes" where
  "trim_start_matches pat s =
     (if pat \<noteq> [] \<and> take (length pat) s = pat then trim_start_matches pat (drop (length pat) s) else s)"
  by pat_completeness auto
termination
proof (relation "measure (\<lambda>(pat, s). length s)", goal_cases)
  case (2 pat s)
  then have "0 < length pat" and "length pat \<le> length s"
    by (auto simp: min_def dest: arg_cong [where f = length] split: if_splits)
  then show ?case unfolding in_measure prod.case length_drop by linarith
qed simp

declare trim_start_matches.simps [simp del]

definition trim_end_matches :: "bytes \<Rightarrow> bytes \<Rightarrow> bytes" where
  "trim_end_matches pat s = rev (trim_start_matches (rev pat) (rev s))"

definition suggestion_prefix :: bytes where
  "suggestion_prefix = ascii ''suggestion data='' @ [0x22]"

definition suggestion_suffix :: bytes where
  "suggestion_suffix = [0x22, 0x2f, 0x3e]"

definition suggestion_of :: "'j web \<Rightarrow> bytes \<Rightarrow> bytes option" where
  "suggestion_of w splited =
     (if take (length suggestion_prefix) splited = suggestion_prefix
      then let trimmed = trim_end_matches suggestion_suffix (trim_start_matches suggestion_prefix splited)
           in Some (case before_white_space w trimmed of Some m \<Rightarrow> m | None \<Rightarrow> trimmed)
      else None)"

definition request_google_suggest :: "'j web \<Rightarrow> bytes \<Rightarrow> bytes \<Rightarrow> u64 \<Rightarrow> bytes list res" where
  "request_google_suggest w protocol midashi timeout =
     and_then (request w (protocol @ google_suggest_url @ byte_serialize w midashi) timeout) (\<lambda>content.
     let result = List.map_filter (suggestion_of w) (split_on 0x3c content)
     in if result = [] then Err Request else Ok result)"


section \<open>Properties\<close>

text \<open>C28: On well-formed three-byte sequences the three tests are the ranges of code points U+3041-U+3093 and U+309B-U+309E, U+30A1-U+30F6 and U+30FB-U+30FE, and U+FF61-U+FF9F.\<close>

theorem kana_code_points:
  assumes "utf8_3_shape [a, b, c]" and "cp = utf8_3_code_point [a, b, c]"
  shows "(is_utf8_hiragana a b c \<longleftrightarrow> cp \<in> {0x3041..0x3093} \<union> {0x309b..0x309e})
    \<and> (is_utf8_katakana a b c \<longleftrightarrow> cp \<in> {0x30a1..0x30f6} \<union> {0x30fb..0x30fe})
    \<and> (is_utf8_hankaku_katakana a b c \<longleftrightarrow> cp \<in> {0xff61..0xff9f})"
proof -
  define x where "x = unat a - 0xe0"
  define y where "y = unat b - 0x80"
  define z where "z = unat c - 0x80"
  have ranges: "unat a \<in> {0xe0..0xef}" "unat b \<in> {0x80..0xbf}" "unat c \<in> {0x80..0xbf}"
    using assms(1) by (simp_all add: utf8_3_shape_def in_range_def word_le_nat_alt)
  then have un: "unat a = 0xe0 + x" "unat b = 0x80 + y" "unat c = 0x80 + z"
    and le: "x \<le> 15" "y \<le> 63" "z \<le> 63"
    by (auto simp: x_def y_def z_def)
  have cp: "cp = x * 4096 + y * 64 + z"
    by (simp add: assms(2) utf8_3_code_point_def x_def y_def z_def)
  have eqs: "a = 0xe3 \<longleftrightarrow> x = 3" "a = 0xef \<longleftrightarrow> x = 15" "b = 0x81 \<longleftrightarrow> y = 1" "b = 0x82 \<longleftrightarrow> y = 2"
    "b = 0x83 \<longleftrightarrow> y = 3" "b = 0xbd \<longleftrightarrow> y = 61" "b = 0xbe \<longleftrightarrow> y = 62"
    using un by (auto simp flip: word_unat_eq_iff simp: word_unat_eq_iff)
  have rng: "in_range lo hi c \<longleftrightarrow> unat lo \<le> 0x80 + z \<and> 0x80 + z \<le> unat hi" for lo hi
    by (simp add: in_range_def word_le_nat_alt un)
  have "is_utf8_hiragana a b c \<longleftrightarrow> cp \<in> {0x3041..0x3093} \<union> {0x309b..0x309e}"
    unfolding is_utf8_hiragana_def eqs rng cp using le by auto
  moreover have "is_utf8_katakana a b c \<longleftrightarrow> cp \<in> {0x30a1..0x30f6} \<union> {0x30fb..0x30fe}"
    unfolding is_utf8_katakana_def eqs rng cp using le by auto
  moreover have "is_utf8_hankaku_katakana a b c \<longleftrightarrow> cp \<in> {0xff61..0xff9f}"
    unfolding is_utf8_hankaku_katakana_def eqs rng cp using le by auto
  ultimately show ?thesis by simp
qed

theorem kana_code_points_witness:
  "is_utf8_hiragana 0xe3 0x81 0x82 \<longleftrightarrow> utf8_3_code_point [0xe3, 0x81, 0x82] \<in> {0x3041..0x3093} \<union> {0x309b..0x309e}"
  using kana_code_points [of "0xe3" "0x81" "0x82", OF _ refl]
  by (simp add: utf8_3_shape_def in_range_def)

text \<open>
  The reference for the combination: all ways to choose one string of each of the \<open>n\<close> segments, in
  lexicographic order of the choices, without those that have a string that may not stay.
\<close>

definition combined :: "'j web \<Rightarrow> 'j \<Rightarrow> nat \<Rightarrow> insert_options \<Rightarrow> bytes list" where
  "combined w j n opts =
     (case segment_midashi w j (n - 1) of
        None \<Rightarrow> []
      | Some midashi_tail \<Rightarrow>
          map (\<lambda>choice. concat (if should_add_tail_candidates midashi_tail then choice else butlast choice))
            (filter (\<lambda>choice. should_add choice opts) (product_lists (map (segment w j) [0..<n]))))"

lemma concat_map_if: "concat (map (\<lambda>x. if P x then [f x] else []) xs) = map f (filter P xs)"
  by (induction xs) auto

lemma filter_concat_map: "filter P (concat (map f xs)) = concat (map (\<lambda>x. filter P (f x)) xs)"
  by (induction xs) auto

lemma map_concat_map: "map g (concat (map f xs)) = concat (map (\<lambda>x. map g (f x)) xs)"
  by (induction xs) auto

lemmas unfold_choices = concat_map_if filter_concat_map map_concat_map filter_map comp_def

lemma choices_2:
  "[b0 @ (if t then b1 else []). b0 \<leftarrow> s0, b1 \<leftarrow> s1, P [b0, b1]]
    = map (\<lambda>c. concat (if t then c else butlast c)) (filter P (product_lists [s0, s1]))"
  by (cases t) (simp_all add: unfold_choices)

lemma choices_3:
  "[b0 @ b1 @ (if t then b2 else []). b0 \<leftarrow> s0, b1 \<leftarrow> s1, b2 \<leftarrow> s2, P [b0, b1, b2]]
    = map (\<lambda>c. concat (if t then c else butlast c)) (filter P (product_lists [s0, s1, s2]))"
  by (cases t) (simp_all add: unfold_choices)

lemma choices_4:
  "[b0 @ b1 @ b2 @ (if t then b3 else []). b0 \<leftarrow> s0, b1 \<leftarrow> s1, b2 \<leftarrow> s2, b3 \<leftarrow> s3, P [b0, b1, b2, b3]]
    = map (\<lambda>c. concat (if t then c else butlast c)) (filter P (product_lists [s0, s1, s2, s3]))"
  by (cases t) (simp_all add: unfold_choices)

lemma upt_segments:
  "map f [0..<2] = [f 0, f 1]" "map f [0..<3] = [f 0, f 1, f 2]" "map f [0..<4] = [f 0, f 1, f 2, f 3]"
  by (simp_all add: upt_rec numeral_eq_Suc)

text \<open>C29: For answers of two, three and four segments the nested loops give the combinations of the reference, cut to the allowed number.\<close>

theorem google_segments_combined:
  assumes "json_len w j \<in> {2, 3, 4}"
  shows "get_google_japanese_input_result w j n opts = take n (combined w j (json_len w j) opts)"
proof -
  have two: "get_google_japanese_input_result_2 w j opts = combined w j 2 opts"
    unfolding get_google_japanese_input_result_2_def combined_def upt_segments
      choices_2 [where P = "\<lambda>c. should_add c opts"] by simp
  have three: "get_google_japanese_input_result_3 w j opts = combined w j 3 opts"
    unfolding get_google_japanese_input_result_3_def combined_def upt_segments
      choices_3 [where P = "\<lambda>c. should_add c opts"] by simp
  have four: "get_google_japanese_input_result_4 w j opts = combined w j 4 opts"
    unfolding get_google_japanese_input_result_4_def combined_def upt_segments
      choices_4 [where P = "\<lambda>c. should_add c opts"] by simp
  show ?thesis
    using assms two three four by (auto simp: get_google_japanese_input_result_def Let_def)
qed


text \<open>C30: An answer is either an error or a list of candidates that is not empty and not longer than allowed; it comes from a response with status 200 whose body is JSON.\<close>

theorem google_japanese_input_Ok:
  assumes "request_google_japanese_input w protocol midashi timeout n opts = Ok cs"
  shows "cs \<noteq> [] \<and> length cs \<le> n
    \<and> (\<exists>response content j. client_get w timeout (protocol @ google_japanese_input_url @ byte_serialize w midashi)
          = Ok response \<and> http_status response = 200 \<and> http_text response = Ok content
        \<and> json_parse w content = Ok j \<and> json_is_array w j)"
  using assms
  by (auto simp: request_google_japanese_input_def request_def and_then_eq_Ok Let_def
      get_google_japanese_input_result_def split: if_splits)

section \<open>Witnesses\<close>

text \<open>A JSON value with arrays and strings only, and an answer of two segments.\<close>

datatype sample_json = Str bytes | Arr "sample_json list"

fun sample_members :: "sample_json \<Rightarrow> sample_json list" where
  "sample_members (Str s) = []"
| "sample_members (Arr js) = js"

definition sample_answer :: sample_json where
  "sample_answer = Arr [Arr [Str [0x61], Arr [Str [0x41], Str [0x42]]], Arr [Str [0x2e], Arr [Str [0x31]]]]"

definition sample_web :: "sample_json web" where
  "sample_web =
     \<lparr>client_build = (\<lambda>_. Ok ()), client_get = (\<lambda>_ _. Ok \<lparr>http_status = 200, http_text = Ok []\<rparr>),
      byte_serialize = (\<lambda>bs. bs), json_parse = (\<lambda>_. Ok sample_answer),
      json_is_array = (\<lambda>j. case j of Arr _ \<Rightarrow> True | _ \<Rightarrow> False), json_len = (\<lambda>j. length (sample_members j)),
      json_index = (\<lambda>j i. if i < length (sample_members j) then sample_members j ! i else Str []),
      json_members = sample_members, json_as_str = (\<lambda>j. case j of Str s \<Rightarrow> Some s | _ \<Rightarrow> None),
      before_white_space = (\<lambda>_. None)\<rparr>"

definition sample_options :: insert_options where
  "sample_options = \<lparr>is_insert_hiragana_only = False, is_insert_katakana_only = False,
                     is_insert_hankaku_katakana_only = False\<rparr>"

lemma sample_web_simps [simp]:
  "client_build sample_web t = Ok ()"
  "client_get sample_web t url = Ok \<lparr>http_status = 200, http_text = Ok []\<rparr>"
  "byte_serialize sample_web bs = bs"
  "json_parse sample_web bs = Ok sample_answer"
  "json_is_array sample_web (Arr js) = True"
  "json_len sample_web (Arr js) = length js"
  "json_index sample_web (Arr js) i = (if i < length js then js ! i else Str [])"
  "json_members sample_web (Arr js) = js"
  "json_as_str sample_web (Str s) = Some s"
  by (simp_all add: sample_web_def)

lemmas sample_evaluation = sample_answer_def sample_options_def segment_def segment_midashi_def
  List.map_filter_def is_utf8_hiragana_only_def is_utf8_katakana_only_def
  is_utf8_hankaku_katakana_only_def only_letters_def should_add_tail_candidates_def in_range_def

lemma sample_result:
  "get_google_japanese_input_result sample_web sample_answer 1 sample_options = [[0x41, 0x31]]"
  by (simp add: get_google_japanese_input_result_def get_google_japanese_input_result_2_def
      sample_evaluation)

theorem google_segments_combined_witness:
  "take 1 (combined sample_web sample_answer 2 sample_options) = [[0x41, 0x31]]"
  using google_segments_combined [of sample_web sample_answer 1 sample_options] sample_result
  by (simp add: sample_answer_def numeral_2_eq_2)

lemma sample_request:
  "request_google_japanese_input sample_web protocol midashi timeout 1 sample_options = Ok [[0x41, 0x31]]"
  using sample_result by (simp add: request_google_japanese_input_def request_def sample_answer_def)

theorem google_japanese_input_Ok_witness:
  "request_google_japanese_input sample_web [] [] 1 1 sample_options = Ok [[0x41, 0x31]]
    \<and> length [[0x41 :: u8, 0x31]] \<le> 1"
  using google_japanese_input_Ok [OF sample_request] sample_request by auto

end
