(* ===== verification/Free_Text.thy ===== *)
theory Free_Text
  imports Euc_Codec Candidates
begin

text \<open>
  Bytes that no conversion and no merge makes: a control character or a space that is not in the input
  and not in the encoding tables is not in the output of \<open>Euc::encode\<close>, \<open>Euc::decode\<close> or the operations on
  candidates.
\<close>

text \<open>
  No text of the tables holds \<open>c\<close>, a control character or the space: true of every table whose codes and
  characters have the shape of EUC and UTF-8 sequences.
\<close>

definition free_of :: "u8 \<Rightarrow> tables \<Rightarrow> bool" where
  "free_of c t \<longleftrightarrow> c \<le> 0x20 \<and> c \<noteq> 0
     \<and> (\<forall>v \<in> set (utf8_3_to_euc_vec t). c \<notin> set v)
     \<and> (\<forall>v \<in> set (euc_2_to_utf8_vec t). c \<notin> set v)
     \<and> (\<forall>x v. utf8_2_4_to_euc_map t x = Some v \<or> combine_utf8_4_to_euc_map t x = Some v
         \<or> combine_utf8_6_to_euc_map t x = Some v \<or> euc_3_to_utf8_map t x = Some v
         \<or> combine_euc_to_utf8_map t x = Some v \<longrightarrow> c \<notin> set v)"

lemma hex_digit_not_control: "n < 16 \<Longrightarrow> 0x20 < hex_digit n"
proof -
  assume "n < 16"
  then have "unat n < 16" by (simp add: word_less_nat_alt)
  then have "unat n \<in> {0..<16}" by simp
  then show ?thesis
    by (auto simp: hex_digit_def word_less_nat_alt word_le_nat_alt word_unat_eq_iff unat_word_ariths)
qed

lemma escape_no_control: "c \<le> 0x20 \<Longrightarrow> c \<notin> set (escape bs)"
proof -
  assume c: "c \<le> 0x20"
  have "drop_bit 4 b < 16" for b :: u8
    by (simp add: word_less_nat_alt unat_drop_bit_eq drop_bit_eq_div unat_div)
      (use unsigned_less [where ?'a = nat and w = b] in simp)
  moreover have "b AND 0x0f < 16" for b :: u8
    using word_and_le1 [of b "0x0f"] by (simp add: word_le_nat_alt word_less_nat_alt)
  ultimately have "0x20 < hex_digit (drop_bit 4 b)" "0x20 < hex_digit (b AND 0x0f)" for b :: u8
    by (simp_all add: hex_digit_not_control)
  then have "c \<noteq> hex_digit (drop_bit 4 b)" "c \<noteq> hex_digit (b AND 0x0f)" for b :: u8
    using c by (metis not_le)+
  then show ?thesis using c by (auto simp: escape_def hex2_def ascii_def word_le_nat_alt)
qed

lemma set_euc_part: "v \<noteq> [] \<Longrightarrow> set (euc_part v) \<subseteq> set v"
  by (auto simp: euc_part_def push_to_buffer_euc_def dest: in_set_takeD)

lemma set_utf8_part: "v \<noteq> [] \<Longrightarrow> set (utf8_part v) \<subseteq> set v"
  by (auto simp: utf8_part_def push_to_buffer_utf8_def dest: in_set_takeD)

lemma part_no_control:
  "c \<notin> set v \<Longrightarrow> v \<noteq> [] \<Longrightarrow> c \<notin> set (euc_part v)"
  "c \<notin> set v \<Longrightarrow> v \<noteq> [] \<Longrightarrow> c \<notin> set (utf8_part v)"
  using set_euc_part [of v] set_utf8_part [of v] by auto

lemma map_sizes:
  assumes "tables_wf t"
  shows "utf8_2_4_to_euc_map t x = Some v \<Longrightarrow> length v = 3"
    and "combine_utf8_4_to_euc_map t x = Some v \<Longrightarrow> length v = 3"
    and "combine_utf8_6_to_euc_map t x = Some v \<Longrightarrow> length v = 3"
    and "euc_3_to_utf8_map t x = Some v \<Longrightarrow> length v = 4"
    and "combine_euc_to_utf8_map t x = Some v \<Longrightarrow> length v = 8"
  using assms by (auto simp: tables_wf_def maps_wf_def sized_map_def)

lemma free_parts:
  assumes wf: "tables_wf t" and free: "free_of c t"
  shows "utf8_2_4_to_euc_map t x = Some v \<Longrightarrow> c \<notin> set (euc_part v)"
    and "combine_utf8_4_to_euc_map t x = Some v \<Longrightarrow> c \<notin> set (euc_part v)"
    and "combine_utf8_6_to_euc_map t x = Some v \<Longrightarrow> c \<notin> set (euc_part v)"
    and "euc_3_to_utf8_map t x = Some v \<Longrightarrow> c \<notin> set (utf8_part v)"
proof -
  have ne: "length v = Suc n \<Longrightarrow> v \<noteq> []" for n by auto
  have 3: "c \<notin> set v \<Longrightarrow> length v = 3 \<Longrightarrow> c \<notin> set (euc_part v)"
    and 4: "c \<notin> set v \<Longrightarrow> length v = 4 \<Longrightarrow> c \<notin> set (utf8_part v)"
    using part_no_control [of c v] ne [of 2] ne [of 3] by simp_all
  have free': "\<And>x v. utf8_2_4_to_euc_map t x = Some v \<Longrightarrow> c \<notin> set v"
    "\<And>x v. combine_utf8_4_to_euc_map t x = Some v \<Longrightarrow> c \<notin> set v"
    "\<And>x v. combine_utf8_6_to_euc_map t x = Some v \<Longrightarrow> c \<notin> set v"
    "\<And>x v. euc_3_to_utf8_map t x = Some v \<Longrightarrow> c \<notin> set v"
    using free by (simp_all add: free_of_def)
  show "utf8_2_4_to_euc_map t x = Some v \<Longrightarrow> c \<notin> set (euc_part v)"
    by (rule 3 [OF free'(1) map_sizes(1) [OF wf]])
  show "combine_utf8_4_to_euc_map t x = Some v \<Longrightarrow> c \<notin> set (euc_part v)"
    by (rule 3 [OF free'(2) map_sizes(2) [OF wf]])
  show "combine_utf8_6_to_euc_map t x = Some v \<Longrightarrow> c \<notin> set (euc_part v)"
    by (rule 3 [OF free'(3) map_sizes(3) [OF wf]])
  show "euc_3_to_utf8_map t x = Some v \<Longrightarrow> c \<notin> set (utf8_part v)"
    by (rule 4 [OF free'(4) map_sizes(4) [OF wf]])
qed

lemma vec_values:
  assumes "tables_wf t"
  shows "v \<in> set (utf8_3_to_euc_vec t) \<Longrightarrow> v \<noteq> []" and "v' \<in> set (euc_2_to_utf8_vec t) \<Longrightarrow> v' \<noteq> []"
  using assms by (auto simp: tables_wf_def)

lemma encode_unit_no_control:
  assumes wf: "tables_wf t" and free: "free_of c t" and "bs \<noteq> []" and "c \<notin> set bs"
  shows "c \<notin> set (fst (encode_unit t bs))"
proof -
  have c: "c \<le> 0x20" using free by (simp add: free_of_def)
  have vec: "utf8_3_to_euc_vec t ! get_utf8_3_to_euc_vec_index u \<in> set (utf8_3_to_euc_vec t)" for u
    using wf get_utf8_3_to_euc_vec_index_bound [of u] by (simp add: tables_wf_def)
  then have "utf8_3_to_euc_vec t ! get_utf8_3_to_euc_vec_index u \<noteq> []" for u
    by (rule vec_values(1) [OF wf])
  then have m3: "c \<notin> set (or_escape u (utf8_3_meaning t u'))" for u u'
    using free vec c
    by (auto simp: or_escape_def utf8_3_meaning_def Let_def escape_no_control free_of_def
        dest: part_no_control(1))
  have m24: "c \<notin> set (or_escape u (map_option euc_part (utf8_2_4_to_euc_map t k)))" for u k
    using free_parts(1) [OF wf free, of k] c by (auto simp: or_escape_def escape_no_control split: option.split)
  have cs: "combine_utf8_4_to_euc_map t k = Some v \<Longrightarrow> c \<notin> set (euc_part v)"
    "combine_utf8_6_to_euc_map t k = Some v \<Longrightarrow> c \<notin> set (euc_part v)" for k v
    by (rule free_parts(2,3) [OF wf free], assumption)+
  have "bs ! 0 \<noteq> c" using assms(3,4) by (cases bs) auto
  then show ?thesis
    using m3 m24 cs c by (auto simp: encode_unit_def Let_def escape_no_control)
qed

lemma decode_unit_no_control:
  assumes wf: "tables_wf t" and free: "free_of c t" and "bs \<noteq> []" and "c \<notin> set bs"
  shows "c \<notin> set (fst (decode_unit t bs))"
proof -
  have c: "c \<le> 0x20" using free by (simp add: free_of_def)
  have vec: "euc_2_to_utf8_vec t ! get_euc_2_to_utf8_vec_index h l \<in> set (euc_2_to_utf8_vec t)" for h l
    using wf get_euc_2_to_utf8_vec_index_bound [of h l] by (simp add: tables_wf_def)
  then have ne: "euc_2_to_utf8_vec t ! get_euc_2_to_utf8_vec_index h l \<noteq> []" for h l
    by (rule vec_values(2) [OF wf])
  have vec_free: "c \<notin> set (utf8_part (euc_2_to_utf8_vec t ! get_euc_2_to_utf8_vec_index h l))" for h l
    using free vec [of h l] ne [of h l] by (intro part_no_control(2)) (auto simp: free_of_def)
  have pair: "c \<notin> set (utf8_part (take 4 v)) \<and> c \<notin> set (utf8_part (drop 4 v))"
    if "combine_euc_to_utf8_map t k = Some v" for k v
  proof -
    have "c \<notin> set v" using free that by (auto simp: free_of_def)
    then have "c \<notin> set (take 4 v)" "c \<notin> set (drop 4 v)" by (auto dest: in_set_takeD in_set_dropD)
    then show ?thesis using map_sizes(5) [OF wf that] by (intro conjI part_no_control(2)) auto
  qed
  have m2: "c \<notin> set (or_escape u (euc_2_meaning t h l))" for u h l
    using vec_free c pair
    by (auto simp: or_escape_def euc_2_meaning_def Let_def escape_no_control split: option.split)
  have m3: "c \<notin> set (or_escape u (map_option utf8_part (euc_3_to_utf8_map t k)))" for u k
    using free_parts(4) [OF wf free, of k] c by (auto simp: or_escape_def escape_no_control split: option.split)
  have "bs ! 0 \<noteq> c" using assms(3,4) by (cases bs) auto
  then show ?thesis
    using m2 m3 c by (auto simp: decode_unit_def Let_def escape_no_control)
qed

text \<open>A conversion whose characters are free of a byte is free of it.\<close>

lemma scan_no_byte:
  assumes "\<And>bs. bs \<noteq> [] \<Longrightarrow> c \<notin> set bs \<Longrightarrow> c \<notin> set (fst (char bs))"
  shows "c \<notin> set bs \<Longrightarrow> c \<notin> set (scan char bs)"
proof (induction bs rule: length_induct)
  case (1 bs)
  show ?case
  proof (cases "bs = []")
    case False
    have "c \<notin> set (drop (max 1 (snd (char bs))) bs)"
      using 1(2) by (auto dest: in_set_dropD)
    then have "c \<notin> set (scan char (drop (max 1 (snd (char bs))) bs))"
      using 1(1) False by (auto simp: diff_less)
    then show ?thesis
      using assms [OF False 1(2)] False by (subst scan.simps) simp
  qed simp
qed

lemma encode_no_control:
  "tables_wf t \<Longrightarrow> free_of c t \<Longrightarrow> c \<notin> set bs \<Longrightarrow> c \<notin> set (scan (encode_unit t) bs)"
  by (rule scan_no_byte) (auto dest: encode_unit_no_control)

lemma decode_no_control:
  "tables_wf t \<Longrightarrow> free_of c t \<Longrightarrow> c \<notin> set bs \<Longrightarrow> c \<notin> set (scan (decode_unit t) bs)"
  by (rule scan_no_byte) (auto dest: decode_unit_no_control)

lemma merge_no_byte:
  assumes "c \<notin> set base" and "c \<notin> set new" and "c \<noteq> slash"
  shows "c \<notin> set (merge_trimmed_slash_candidates base new)"
proof -
  obtain cs where "merge_trimmed_slash_candidates base new = candidates_bytes_of cs"
    and "set cs \<subseteq> set (units base) \<union> set (split_on slash new)"
    using merge_shape by blast
  then show ?thesis
    using assms by (auto simp: candidates_bytes_of_def units_def split: if_splits dest!: subsetD split_on_subset)
qed

lemma merge_no_lf:
  "lf \<notin> set base \<Longrightarrow> lf \<notin> set new \<Longrightarrow> lf \<notin> set (merge_trimmed_slash_candidates base new)"
  by (rule merge_no_byte) simp_all

lemma set_join_with: "set (join_with s ps) \<subseteq> insert s (\<Union> (set ` set ps))"
  by (induction s ps rule: join_with.induct) auto

lemma remove_duplicates_bytes_no_byte: "c \<notin> set bs \<Longrightarrow> c \<noteq> slash \<Longrightarrow> c \<notin> set (remove_duplicates_bytes bs)"
  using set_join_with [of slash "remove_duplicates (split_on slash bs)"]
  by (fastforce simp: remove_duplicates_bytes_def dest!: split_on_subset)

lemma trim_one_slash_subset: "set (trim_one_slash xs) \<subseteq> set xs"
  by (auto simp: trim_one_slash_def Let_def slice_def dest: in_set_takeD in_set_dropD split: if_splits)

lemma fresh_free_of: "c \<le> 0x20 \<Longrightarrow> c \<noteq> 0 \<Longrightarrow> free_of c (fresh_vecs tables_new)"
  by (simp add: free_of_def fresh_vecs_def tables_new_def del: replicate_Suc)

lemma fresh_tables_wf: "tables_wf (fresh_vecs tables_new)"
  by (rule fresh_vecs_wf) (simp add: maps_wf_def tables_new_def)

end
