(* ===== verification/Read_Candidates.thy ===== *)
theory Read_Candidates
  imports Dictionary_Reader Google_Cache Request Free_Text
begin

text \<open>
  The answer to a conversion request (\<open>read_candidates\<close> and \<open>read_google_candidates\<close> of
  \<open>src/skk/yaskkserv2/dictionary_reader.rs\<close>): the dictionary, the cache and the online services in the
  order the configuration asks for. What is shown: with the online services off the answer is the
  dictionary's, an error of the services never becomes an error of the answer, and the answer is one
  line of the protocol: it starts with the byte \<open>1\<close> and has no line feed.
\<close>

section \<open>The reader\<close>

record dictionary_reader =
  reader_config :: config
  google_japanese_input_protocol :: bytes
  google_suggest_protocol :: bytes
  reader_on_memory :: on_memory

definition dictionary_reader_new :: dictionary_reader where
  "dictionary_reader_new = \<lparr>reader_config = config_new,
     google_japanese_input_protocol = ascii ''https'', google_suggest_protocol = ascii ''https'',
     reader_on_memory = on_memory_new\<rparr>"

definition dictionary_reader_setup :: "config \<Rightarrow> on_memory \<Rightarrow> dictionary_reader \<Rightarrow> dictionary_reader" where
  "dictionary_reader_setup cfg om r =
     (let r' = r\<lparr>reader_config := cfg, reader_on_memory := om\<rparr>
      in if is_http_enabled cfg
         then r'\<lparr>google_japanese_input_protocol := ascii ''http'', google_suggest_protocol := ascii ''http''\<rparr>
         else r')"

text \<open>What lies outside of the program, and does not change during one request.\<close>

record 'j outside =
  the_twoway :: twoway
  the_web :: "'j web"
  the_bincode :: bincode
  the_sha1 :: "bytes \<Rightarrow> bytes"
  the_clock :: u64
  the_disk :: disk

section \<open>The online services\<close>

definition unwrap_or_default :: "'a list res \<Rightarrow> 'a list res" where
  "unwrap_or_default r = (case r of Err _ \<Rightarrow> Ok [] | _ \<Rightarrow> r)"

definition insert_options_of :: "config \<Rightarrow> insert_options" where
  "insert_options_of cfg =
     \<lparr>is_insert_hiragana_only = google_insert_hiragana_only_candidate cfg,
      is_insert_katakana_only = google_insert_katakana_only_candidate cfg,
      is_insert_hankaku_katakana_only = google_insert_hankaku_katakana_only_candidate cfg\<rparr>"

definition fetch_candidates ::
  "'j outside \<Rightarrow> dictionary_reader \<Rightarrow> google_cache_object \<Rightarrow> bytes \<Rightarrow> bytes list res" where
  "fetch_candidates env rd g utf8_midashi =
     (let cfg = reader_config rd;
          cached = (if is_google_cache_enabled cfg then get_candidates (cache_map g) utf8_midashi else []);
          japanese_input = request_google_japanese_input (the_web env) (google_japanese_input_protocol rd)
            utf8_midashi (google_timeout_milliseconds cfg) (google_max_candidates_length cfg)
            (insert_options_of cfg)
      in if cached \<noteq> [] then Ok cached
         else if is_google_suggest_enabled cfg then
           and_then (unwrap_or_default japanese_input) (\<lambda>tmp_candidates.
           and_then (unwrap_or_default (request_google_suggest (the_web env) (google_suggest_protocol rd)
               utf8_midashi (google_timeout_milliseconds cfg))) (\<lambda>suggested.
           Ok (remove_duplicates (tmp_candidates @ suggested))))
         else and_then japanese_input (\<lambda>tmp_candidates. Ok (remove_duplicates tmp_candidates)))"

text \<open>The new value of \<open>result\<close>, from the value before and the candidates.\<close>

definition merge_google_candidates ::
  "tables \<Rightarrow> encoding \<Rightarrow> bytes list \<Rightarrow> bytes \<Rightarrow> bytes res" where
  "merge_google_candidates t enc google_utf8_candidates result =
     (let base_candidates_bytes = trim_one_slash (drop 1 result);
          new_candidates_bytes_tmp = concat (map (\<lambda>v. quote_and_add_prefix v (Some slash)) google_utf8_candidates);
          new_candidates_bytes = trim_one_slash new_candidates_bytes_tmp
      in case enc of
           Euc \<Rightarrow>
             (case encode t new_candidates_bytes of
                Ok encoded \<Rightarrow> Ok ([0x31] @ merge_trimmed_slash_candidates base_candidates_bytes encoded)
              | Err _ \<Rightarrow> Err Request
              | e \<Rightarrow> e)
         | Utf8 \<Rightarrow> Ok ([0x31] @ merge_trimmed_slash_candidates base_candidates_bytes new_candidates_bytes))"

text \<open>The outcome, the value of \<open>result\<close> afterwards, and the cache.\<close>

definition read_google_candidates ::
  "tables \<Rightarrow> 'j outside \<Rightarrow> dictionary_reader \<Rightarrow> bytes \<Rightarrow> bytes \<Rightarrow> google_cache_object
     \<Rightarrow> unit res \<times> bytes \<times> google_cache_object" where
  "read_google_candidates t env rd midashi result g =
     (let cfg = reader_config rd in
      case and_then (decode t midashi) (\<lambda>utf8_midashi.
           and_then (fetch_candidates env rd g utf8_midashi) (\<lambda>google_utf8_candidates.
           if google_utf8_candidates = [] then Err Request
           else and_then (encoding_from_u32 (header_encoding (dictionary_fixed_header (reader_on_memory rd)))) (\<lambda>enc.
                and_then (merge_google_candidates t enc google_utf8_candidates result) (\<lambda>new_result.
                Ok (utf8_midashi, google_utf8_candidates, new_result))))) of
        Ok (utf8_midashi, google_utf8_candidates, new_result) \<Rightarrow>
          if is_google_cache_enabled cfg then
            let (r, g') = write_candidates (the_disk env) (the_bincode env) (the_sha1 env) (the_clock env)
                  utf8_midashi google_utf8_candidates (google_cache_entries cfg)
                  (google_cache_expire_seconds cfg) g
            in (r, new_result, g')
          else (Ok (), new_result, g)
      | e \<Rightarrow> (and_then e (\<lambda>_. Ok ()), result, g))"

text \<open>An error is dropped, a panic is not.\<close>

definition read_google_candidates_ignoring_error ::
  "tables \<Rightarrow> 'j outside \<Rightarrow> dictionary_reader \<Rightarrow> bytes \<Rightarrow> bytes \<Rightarrow> google_cache_object
     \<Rightarrow> bytes res \<times> google_cache_object" where
  "read_google_candidates_ignoring_error t env rd midashi result g =
     (let (r, result', g') = read_google_candidates t env rd midashi result g
      in (case r of Ok _ \<Rightarrow> Ok result' | Err _ \<Rightarrow> Ok result'
                  | _ \<Rightarrow> and_then r (\<lambda>_. Ok result'), g'))"

section \<open>\<open>read_candidates\<close>\<close>

definition read_candidates_from_dictionary ::
  "twoway \<Rightarrow> on_memory \<Rightarrow> dictionary_midashi_key \<Rightarrow> bytes \<Rightarrow> dictionary_file \<Rightarrow> bytes
     \<Rightarrow> bytes res \<times> dictionary_file" where
  "read_candidates_from_dictionary tw om key midashi df result =
     (case get_block_information_vectors om key of
        Ok (Some infos) \<Rightarrow>
          read_dictionary_for_read_candidates tw midashi infos (blocks_offset (dictionary_fixed_header om))
            df result
      | Ok None \<Rightarrow> (Ok result, df)
      | e \<Rightarrow> (and_then e (\<lambda>_. Ok result), df))"

definition read_candidates ::
  "tables \<Rightarrow> 'j outside \<Rightarrow> dictionary_reader \<Rightarrow> dictionary_file \<Rightarrow> google_cache_object \<Rightarrow> bytes
     \<Rightarrow> bytes res \<times> dictionary_file \<times> google_cache_object" where
  "read_candidates t env rd df g midashi_buffer =
     (let timing = google_timing (reader_config rd) in
      case and_then (get_midashi midashi_buffer) (\<lambda>midashi.
           and_then (tail_res midashi_buffer 1) (\<lambda>rest.
           and_then (get_dictionary_midashi_key rest) (\<lambda>key. Ok (midashi, key)))) of
        Ok (midashi, key) \<Rightarrow>
          let (r1, g1) = (if timing = First
                          then read_google_candidates_ignoring_error t env rd midashi [0x31] g
                          else (Ok [0x31], g))
          in (case r1 of
                Ok result1 \<Rightarrow>
                  let (r2, df') = read_candidates_from_dictionary (the_twoway env) (reader_on_memory rd)
                        key midashi df result1
                  in (case r2 of
                        Ok result2 \<Rightarrow>
                          if timing = Last \<or> (timing = NotFound \<and> is_empty_candidates result2)
                          then let (r3, g3) = read_google_candidates_ignoring_error t env rd midashi result2 g1
                               in (r3, df', g3)
                          else (Ok result2, df', g1)
                      | e \<Rightarrow> (e, df', g1))
              | e \<Rightarrow> (e, df, g1))
      | e \<Rightarrow> (and_then e (\<lambda>_. Ok []), df, g))"


section \<open>One line of the protocol\<close>

definition answer_line :: "bytes \<Rightarrow> bool" where
  "answer_line r \<longleftrightarrow> r \<noteq> [] \<and> hd r = 0x31 \<and> lf \<notin> set r"

lemma answer_line_new [simp]: "answer_line [0x31]"
  by (simp add: answer_line_def)

lemma merge_google_candidates_line:
  assumes "tables_wf t" and "free_of lf t" and "answer_line result"
    and "merge_google_candidates t enc cs result = Ok r"
  shows "answer_line r"
proof -
  let ?tmp = "concat (map (\<lambda>v. quote_and_add_prefix v (Some slash)) cs)"
  have "lf \<notin> set ?tmp"
    using quoted_clean [of lf] by (auto simp: quote_and_add_prefix_eq)
  then have new: "lf \<notin> set (trim_one_slash ?tmp)" using trim_one_slash_subset by blast
  have base: "lf \<notin> set (trim_one_slash (drop 1 result))"
    using assms(3) trim_one_slash_subset by (fastforce simp: answer_line_def dest: in_set_dropD)
  show ?thesis
    using assms(4) merge_no_lf [OF base new] merge_no_lf [OF base encode_no_control [OF assms(1,2) new]]
    by (auto simp: merge_google_candidates_def Let_def answer_line_def encode_eq_scan [OF assms(1)]
        split: encoding.splits)
qed

lemma find_lf_before:
  assumes "twoway_documented tw" and "find_bytes tw bs [lf] = Some k"
  shows "lf \<notin> set (take k bs)"
proof
  assume "lf \<in> set (take k bs)"
  then obtain j where j: "j < k" "j < length bs" "bs ! j = lf"
    by (auto simp: in_set_conv_nth)
  then have "occurs_at bs [lf] j" by (simp add: occurs_at_single)
  moreover have "case find_bytes tw bs [lf] of None \<Rightarrow> \<forall>i. \<not> occurs_at bs [lf] i
      | Some i \<Rightarrow> occurs_at bs [lf] i \<and> (\<forall>j < i. \<not> occurs_at bs [lf] j)"
    using assms(1) by (simp add: twoway_documented_def)
  ultimately show False using assms(2) j by simp
qed

lemma lookup_candidates_line:
  assumes tw: "twoway_documented tw" and "answer_line result"
    and "lookup_candidates tw midashi buffer result = Ok r"
  shows "answer_line r"
proof (cases "find_bytes tw buffer ([lf] @ midashi @ [space, slash])")
  case None
  then show ?thesis using assms by (simp add: lookup_candidates_def Let_def)
next
  case (Some i)
  define start where "start = i + length ([lf] @ midashi @ [space, slash])"
  obtain k where k: "start \<le> length buffer" "find_bytes tw (drop start buffer) [lf] = Some k"
    and r: "r = (if is_empty_candidates result then result @ [slash] @ slice buffer start (start + k)
       else [0x31] @ merge_trimmed_slash_candidates (trim_one_slash (drop 1 result))
              (trim_one_slash (slice buffer start (start + k))))"
    using assms(3) Some unfolding start_def
    by (auto simp: lookup_candidates_def Let_def tail_res_def slice_res_def and_then_eq_Ok
        split: option.splits if_splits)
  have found: "lf \<notin> set (slice buffer start (start + k))"
    using find_lf_before [OF tw k(2)] by (simp add: slice_def)
  have base: "lf \<notin> set (trim_one_slash (drop 1 result))"
    using assms(2) trim_one_slash_subset by (fastforce simp: answer_line_def dest: in_set_dropD)
  have "lf \<notin> set (trim_one_slash (slice buffer start (start + k)))"
    using found trim_one_slash_subset by blast
  then show ?thesis
    using merge_no_lf [OF base] found assms(2) by (auto simp: r answer_line_def)
qed

lemma read_candidates_from_dictionary_line:
  assumes "twoway_documented tw" and "answer_line result"
    and "read_candidates_from_dictionary tw om key midashi df result = (Ok r, df')"
  shows "answer_line r"
  using assms lookup_candidates_line [OF assms(1,2)]
  by (auto simp: read_candidates_from_dictionary_def read_dictionary_for_read_candidates_def Let_def
      and_then_eq_Ok split: res.splits option.splits if_splits prod.splits)

lemma read_google_candidates_line:
  assumes "tables_wf t" and "free_of lf t" and "answer_line result"
    and "read_google_candidates_ignoring_error t env rd midashi result g = (Ok r, g')"
  shows "answer_line r"
  using assms merge_google_candidates_line [OF assms(1,2,3)]
  by (auto simp: read_google_candidates_ignoring_error_def read_google_candidates_def Let_def
      and_then_eq_Ok split: res.splits prod.splits if_splits)

lemma read_candidates_stages:
  assumes "read_candidates t env rd df g midashi_buffer = (Ok r, df', g')"
  obtains midashi key r1 g1 r2 where
    "r1 = [0x31] \<or> read_google_candidates_ignoring_error t env rd midashi [0x31] g = (Ok r1, g1)"
    and "read_candidates_from_dictionary (the_twoway env) (reader_on_memory rd) key midashi df r1 = (Ok r2, df')"
    and "r = r2 \<or> read_google_candidates_ignoring_error t env rd midashi r2 g1 = (Ok r, g')"
  using assms unfolding read_candidates_def Let_def
  by (auto split: res.splits prod.splits if_splits; blast)

lemma read_candidates_one_line':
  assumes "tables_wf t" and "free_of lf t" and "twoway_documented (the_twoway env)"
    and "read_candidates t env rd df g midashi_buffer = (Ok r, df', g')"
  shows "answer_line r"
proof -
  obtain midashi key r1 g1 r2 where stages:
    "r1 = [0x31] \<or> read_google_candidates_ignoring_error t env rd midashi [0x31] g = (Ok r1, g1)"
    "read_candidates_from_dictionary (the_twoway env) (reader_on_memory rd) key midashi df r1 = (Ok r2, df')"
    "r = r2 \<or> read_google_candidates_ignoring_error t env rd midashi r2 g1 = (Ok r, g')"
    using read_candidates_stages [OF assms(4)] by metis
  note google = read_google_candidates_line [OF assms(1,2)]
  have "answer_line r1" using stages(1) google [OF answer_line_new] by auto
  then have "answer_line r2" by (rule read_candidates_from_dictionary_line [OF assms(3) _ stages(2)])
  then have "answer_line r" using stages(3) google by auto
  then show ?thesis .
qed

text \<open>C17: An answer to a conversion request starts with the byte 1 and has no line feed, whatever the dictionary file, the cache and the online services hold; so the client reads it as one line.\<close>

theorem read_candidates_one_line:
  assumes "tables_wf t" and "free_of lf t" and "twoway_documented (the_twoway env)"
    and "read_candidates t env rd df g midashi_buffer = (Ok r, df', g')"
  shows "r \<noteq> [] \<and> hd r = 0x31 \<and> lf \<notin> set r"
  using read_candidates_one_line' [OF assms] by (simp add: answer_line_def)


section \<open>Services that are off or fail\<close>

lemma failing_service_no_change:
  assumes wf: "tables_wf t" and "\<not> is_google_cache_enabled (reader_config rd)"
    and fail: "\<And>url timeout. \<exists>e. request (the_web env) url timeout = Err e"
  shows "read_google_candidates_ignoring_error t env rd midashi result g = (Ok result, g)"
proof -
  obtain f where f: "\<And>url timeout. request (the_web env) url timeout = Err (f url timeout)"
    using fail by metis
  have "fetch_candidates env rd g m = Ok [] \<or> (\<exists>e. fetch_candidates env rd g m = Err e)" for m
    using assms(2)
    by (simp add: fetch_candidates_def Let_def unwrap_or_default_def remove_duplicates_def
        request_google_japanese_input_def request_google_suggest_def f)
  from this [of "scan (decode_unit t) midashi"] show ?thesis
    by (elim disjE exE)
      (simp_all add: read_google_candidates_ignoring_error_def read_google_candidates_def Let_def
        decode_eq_scan [OF wf])
qed

abbreviation offline :: "dictionary_reader \<Rightarrow> dictionary_reader" where
  "offline rd \<equiv> rd\<lparr>reader_config := (reader_config rd)\<lparr>google_timing := Disable\<rparr>\<rparr>"


section \<open>Witnesses\<close>

definition sample_outside :: "sample_json outside" where
  "sample_outside = \<lparr>the_twoway = naive_twoway, the_web = sample_web, the_bincode = sample_bincode,
     the_sha1 = sample_sha1, the_clock = 100, the_disk = Disk_Ok\<rparr>"

text \<open>A reader with no dictionary entries that asks the online service.\<close>

definition sample_reader :: dictionary_reader where
  "sample_reader = dictionary_reader_setup config_new
     (on_memory_new\<lparr>index_ascii_hiragana_vec := replicate 256 []\<rparr>) dictionary_reader_new"

definition sample_reader_online :: dictionary_reader where
  "sample_reader_online =
     sample_reader\<lparr>reader_config := (reader_config sample_reader)\<lparr>google_max_candidates_length := 1\<rparr>\<rparr>"


lemma sample_merge:
  "merge_google_candidates (fresh_vecs tables_new) Euc [[0x41, 0x31]] [0x31] = Ok [0x31, 0x2f, 0x41, 0x31, 0x2f]"
proof -
  have "encode (fresh_vecs tables_new) [0x41, 0x31] = Ok [0x41, 0x31]"
    using scan_ascii(2) [of "[0x41, 0x31]" "fresh_vecs tables_new" "[]"]
    by (simp add: encode_eq_scan [OF fresh_tables_wf] is_ascii_text_def)
  moreover have "trim_one_slash (quote_and_add_prefix [0x41, 0x31] (Some slash)) = [0x41, 0x31]"
    by (simp add: quote_and_add_prefix_eq quoted_plain quote_byte_def trim_one_slash_def slice_def)
  moreover have "merge_trimmed_slash_candidates [] [0x41, 0x31] = [0x2f, 0x41, 0x31, 0x2f]"
    by (simp add: merge_trimmed_slash_candidates_def)
  ultimately show ?thesis by (simp add: merge_google_candidates_def)
qed

lemma sample_google:
  "read_google_candidates_ignoring_error (fresh_vecs tables_new) sample_outside sample_reader_online [0x61] [0x31] g
     = (Ok [0x31, 0x2f, 0x41, 0x31, 0x2f], g)"
proof -
  have "decode (fresh_vecs tables_new) [0x61] = Ok [0x61]"
    using scan_ascii(1) [of "[0x61]" "fresh_vecs tables_new" "[]"]
    by (simp add: decode_eq_scan [OF fresh_tables_wf] is_ascii_text_def)
  moreover have "fetch_candidates sample_outside sample_reader_online g [0x61] = Ok [[0x41, 0x31]]"
    using sample_request
    by (simp add: fetch_candidates_def sample_outside_def sample_reader_online_def sample_reader_def
        dictionary_reader_setup_def config_new_def insert_options_of_def sample_options_def
        remove_duplicates_def)
  ultimately show ?thesis
    using sample_merge
    by (simp add: read_google_candidates_ignoring_error_def read_google_candidates_def
        sample_reader_online_def sample_reader_def dictionary_reader_setup_def config_new_def
        on_memory_new_def fixed_header_new_def encoding_from_u32_def)
qed

lemma sample_no_entries:
  "read_candidates_from_dictionary tw (reader_on_memory sample_reader_online) [0x61, 0, 0, 0] midashi df result
     = (Ok result, df)"
  by (simp add: read_candidates_from_dictionary_def get_block_information_vectors_def
      sample_reader_online_def sample_reader_def dictionary_reader_setup_def config_new_def
      get_ascii_hiragana_vec_index_def del: replicate_Suc)

lemma sample_reader_answer:
  "read_candidates (fresh_vecs tables_new) sample_outside sample_reader_online df g [0x31, 0x61, 0x20]
     = (Ok [0x31, 0x2f, 0x41, 0x31, 0x2f], df, g)"
proof -
  have "and_then (get_midashi [0x31, 0x61, 0x20]) (\<lambda>midashi.
      and_then (tail_res [0x31, 0x61, 0x20] 1) (\<lambda>rest.
      and_then (get_dictionary_midashi_key rest) (\<lambda>key. Ok (midashi, key)))) = Ok ([0x61], [0x61, 0, 0, 0])"
    by (simp add: get_midashi_def slice_def tail_res_def get_dictionary_midashi_key_def in_range_def)
  moreover have "google_timing (reader_config sample_reader_online) = NotFound"
    by (simp add: sample_reader_online_def sample_reader_def dictionary_reader_setup_def config_new_def)
  ultimately show ?thesis
    using sample_google sample_no_entries [of "the_twoway sample_outside"]
    by (simp add: read_candidates_def is_empty_candidates_def)
qed

theorem read_candidates_one_line_witness:
  "[0x31, 0x2f, 0x41, 0x31, 0x2f :: u8] \<noteq> []
    \<and> read_candidates (fresh_vecs tables_new) sample_outside sample_reader_online (dictionary_file_new [] 0)
        (google_cache_object_new None) [0x31, 0x61, 0x20]
      = (Ok [0x31, 0x2f, 0x41, 0x31, 0x2f], dictionary_file_new [] 0, google_cache_object_new None)"
  using read_candidates_one_line [OF fresh_tables_wf fresh_free_of _ sample_reader_answer]
    naive_twoway_documented sample_reader_answer
  by (simp add: sample_outside_def)


end
