(* ===== verification/Server.thy ===== *)
theory Server
  imports Read_Candidates
begin

text \<open>
  One request of a client (\<open>src/skk/yaskkserv2/server.rs\<close>) and the writes to its socket
  (\<open>TcpStreamSkk\<close> of \<open>src/skk/yaskkserv2.rs\<close>). The state of a request is the socket's output, the
  open dictionary file and the cache. What is shown: every request is answered by one write, with the
  bytes of a specification, and the answers to the requests 1 and 4 are one line each.
\<close>

section \<open>Writing to the socket\<close>

text \<open>
  The bytes the client gets, and how the coming writes end: \<open>None\<close> stands for success, \<open>Some n\<close> for an
  error after \<open>n\<close> bytes; when the list is used up every write succeeds.
\<close>

record tcp_output =
  sent :: bytes
  write_outcomes :: "nat option list"

definition write_all_flush :: "bytes \<Rightarrow> tcp_output \<Rightarrow> unit res \<times> tcp_output" where
  "write_all_flush data s =
     (case write_outcomes s of
        [] \<Rightarrow> (Ok (), s\<lparr>sent := sent s @ data\<rparr>)
      | None # os \<Rightarrow> (Ok (), s\<lparr>sent := sent s @ data, write_outcomes := os\<rparr>)
      | Some n # os \<Rightarrow> (Err Io, s\<lparr>sent := sent s @ take n data, write_outcomes := os\<rparr>))"

definition write_all_flush_ignore_error :: "bytes \<Rightarrow> tcp_output \<Rightarrow> tcp_output" where
  "write_all_flush_ignore_error data s = snd (write_all_flush data s)"

definition write_error_flush :: "tcp_output \<Rightarrow> unit res \<times> tcp_output" where
  "write_error_flush s = write_all_flush protocol_result_error s"

section \<open>The server\<close>

definition protocol_minimum_length :: nat where
  "protocol_minimum_length = 3"

definition protocol_maximum_length :: nat where
  "protocol_maximum_length =
     (let skkserv_maximum_midashi_length = 510;
          protocol_maximum_length_utf8_scale = 2;
          protocol_maximum_length_margin = 1024
      in skkserv_maximum_midashi_length * protocol_maximum_length_utf8_scale
         + protocol_maximum_length_margin)"

definition pkg_version :: bytes where
  "pkg_version = ascii ''0.1.7''"

record server =
  server_config :: config
  server_dictionary :: dictionary_reader

definition server_new :: server where
  "server_new = \<lparr>server_config = config_new, server_dictionary = dictionary_reader_new\<rparr>"

definition server_setup :: "config \<Rightarrow> on_memory \<Rightarrow> server \<Rightarrow> server" where
  "server_setup cfg om srv =
     srv\<lparr>server_config := cfg, server_dictionary := dictionary_reader_setup cfg om (server_dictionary srv)\<rparr>"

datatype handle_client_result = Continue | Exit

record request_state =
  request_output :: tcp_output
  request_file :: dictionary_file
  request_cache :: google_cache_object

definition validate_buffer_for_protocol_1_and_4 :: "bytes \<Rightarrow> bool" where
  "validate_buffer_for_protocol_1_and_4 buffer \<longleftrightarrow>
     protocol_minimum_length \<le> length buffer \<and> length buffer \<le> protocol_maximum_length"

definition send_and_log_protocol_error :: "tcp_output \<Rightarrow> tcp_output" where
  "send_and_log_protocol_error s = snd (write_error_flush s)"

text \<open>What is sent when nothing was found: the request itself, with a line feed unless it ends in one.\<close>

definition send_not_found :: "bytes \<Rightarrow> tcp_output \<Rightarrow> tcp_output" where
  "send_not_found buffer s =
     (if buffer = [] then send_and_log_protocol_error s
      else if last buffer = lf \<or> last buffer = cr then write_all_flush_ignore_error buffer s
      else write_all_flush_ignore_error (buffer @ [lf]) s)"

definition handle_client_protocol_1 ::
  "tables \<Rightarrow> 'j outside \<Rightarrow> server \<Rightarrow> request_state \<Rightarrow> bytes \<Rightarrow> request_state res" where
  "handle_client_protocol_1 t env srv st buffer =
     (if \<not> validate_buffer_for_protocol_1_and_4 buffer then
        Ok (st\<lparr>request_output := snd (write_error_flush (request_output st))\<rparr>)
      else
        let (r, df, g) = read_candidates t env (server_dictionary srv) (request_file st) (request_cache st) buffer;
            st' = st\<lparr>request_file := df, request_cache := g\<rparr>
        in case r of
             Ok candidates \<Rightarrow>
               if is_empty_candidates candidates
               then Ok (st'\<lparr>request_output := send_not_found (buffer[0 := 0x34]) (request_output st)\<rparr>)
               else Ok (st'\<lparr>request_output := write_all_flush_ignore_error (candidates @ [lf]) (request_output st)\<rparr>)
           | Err e \<Rightarrow> Ok (st'\<lparr>request_output := send_and_log_protocol_error (request_output st)\<rparr>)
           | e \<Rightarrow> and_then e (\<lambda>_. Ok st'))"

definition handle_client_protocol_4 ::
  "tables \<Rightarrow> 'j outside \<Rightarrow> server \<Rightarrow> request_state \<Rightarrow> bytes \<Rightarrow> request_state res" where
  "handle_client_protocol_4 t env srv st buffer =
     (if \<not> validate_buffer_for_protocol_1_and_4 buffer then
        Ok (st\<lparr>request_output := snd (write_error_flush (request_output st))\<rparr>)
      else
        let rd = server_dictionary srv;
            (r, df) = read_abbrev t (the_twoway env) (reader_config rd) (reader_on_memory rd) (request_file st) buffer;
            st' = st\<lparr>request_file := df\<rparr>
        in case r of
             Ok candidates \<Rightarrow>
               if is_empty_candidates candidates
               then Ok (st'\<lparr>request_output := send_not_found buffer (request_output st)\<rparr>)
               else Ok (st'\<lparr>request_output := write_all_flush_ignore_error (candidates @ [lf]) (request_output st)\<rparr>)
           | Err e \<Rightarrow> Ok (st'\<lparr>request_output := send_and_log_protocol_error (request_output st)\<rparr>)
           | e \<Rightarrow> and_then e (\<lambda>_. Ok st'))"

text \<open>The requests 1 and 4 pass the encoder first when clients send UTF-8.\<close>

definition with_euc_buffer ::
  "tables \<Rightarrow> server \<Rightarrow> (bytes \<Rightarrow> request_state res) \<Rightarrow> request_state \<Rightarrow> bytes \<Rightarrow> request_state res" where
  "with_euc_buffer t srv handler st buffer =
     (if is_midashi_utf8 (server_config srv) then
        (case encode t buffer of
           Ok utf8_to_euc_buffer \<Rightarrow> handler utf8_to_euc_buffer
         | Err e \<Rightarrow> Ok (st\<lparr>request_output := send_and_log_protocol_error (request_output st)\<rparr>)
         | e \<Rightarrow> and_then e (\<lambda>_. Ok st))
      else handler buffer)"

definition handle_client ::
  "tables \<Rightarrow> 'j outside \<Rightarrow> server \<Rightarrow> request_state \<Rightarrow> bytes \<Rightarrow> (handle_client_result \<times> request_state) res" where
  "handle_client t env srv st buffer =
     and_then (index_res buffer 0) (\<lambda>b.
       if b = 0x30 then Ok (Exit, st)
       else
         and_then
           (if b = 0x31 then with_euc_buffer t srv (handle_client_protocol_1 t env srv st) st buffer
            else if b = 0x32 then
              Ok (st\<lparr>request_output := write_all_flush_ignore_error (pkg_version @ [space]) (request_output st)\<rparr>)
            else if b = 0x33 then
              Ok (st\<lparr>request_output := write_all_flush_ignore_error
                (ascii (hostname_and_ip_address_for_protocol_3 (server_config srv)) @ [space]) (request_output st)\<rparr>)
            else if b = 0x34 then with_euc_buffer t srv (handle_client_protocol_4 t env srv st) st buffer
            else Ok (st\<lparr>request_output := snd (write_error_flush (request_output st))\<rparr>))
           (\<lambda>st'. Ok (Continue, st')))"


section \<open>Completions are one line\<close>

lemma abbrev_inner_line:
  "abbrev_inner tw midashi buffer n i k result = Ok (b, k', r) \<Longrightarrow> answer_line result \<Longrightarrow> answer_line r"
proof (induction tw midashi buffer n i k result rule: abbrev_inner.induct)
  case (1 tw midashi buffer n i k result)
  have new: "answer_line (result @ quote_and_add_prefix found (Some slash))" for found
    using 1(4) quoted_clean [of lf] by (auto simp: answer_line_def quote_and_add_prefix_eq)
  show ?case
    using 1(3) 1(1,2) 1(4) new
    by (subst (asm) abbrev_inner.simps)
      (auto simp: Let_def split: res.splits option.splits if_splits)
qed

lemma abbrev_outer_line:
  "abbrev_outer tw midashi infos off n i k df result = (Ok r, df') \<Longrightarrow> answer_line result \<Longrightarrow> answer_line r"
proof (induction tw midashi infos off n i k df result rule: abbrev_outer.induct)
  case (1 tw midashi infos off n i k df result)
  show ?case
    using 1(2) 1(1) 1(3) abbrev_inner_line
    by (subst (asm) abbrev_outer.simps)
      (auto simp: Let_def and_then_eq_Ok split: res.splits prod.splits if_splits)
qed

lemma decode_line:
  assumes "tables_wf t" and "free_of lf t" and "answer_line r"
  shows "answer_line (scan (decode_unit t) r)"
proof -
  obtain bs where r: "r = 0x31 # bs" using assms(3) by (cases r) (auto simp: answer_line_def)
  have "scan (decode_unit t) r = 0x31 # scan (decode_unit t) bs"
    using scan_ascii(1) [of "[0x31]" t bs] by (simp add: r is_ascii_text_def)
  moreover have "lf \<notin> set (scan (decode_unit t) bs)"
    using assms by (intro decode_no_control) (auto simp: r answer_line_def)
  ultimately show ?thesis by (simp add: answer_line_def)
qed

lemma read_abbrev_line:
  assumes "tables_wf t" and "free_of lf t"
    and "read_abbrev t tw cfg om df buffer = (Ok r, df')"
  shows "answer_line r"
proof -
  have abbrev: "answer_line r'"
    if "read_dictionary_for_read_abbrev t tw midashi infos off df [0x31] n enc = (Ok r', df')"
    for midashi infos off n enc r' df'
    using that abbrev_outer_line decode_line [OF assms(1,2)]
    by (auto simp: read_dictionary_for_read_abbrev_def Let_def and_then_eq_Ok decode_eq_scan [OF assms(1)]
        split: res.splits prod.splits if_splits)
  show ?thesis
    using assms(3)
    by (auto simp: read_abbrev_def Let_def and_then_eq_Ok answer_line_def
        dest: abbrev [unfolded answer_line_def] split: res.splits prod.splits option.splits if_splits)
qed


section \<open>One write per request\<close>

lemma write_all_flush_success [simp]:
  "write_outcomes s = [] \<Longrightarrow> write_all_flush data s = (Ok (), s\<lparr>sent := sent s @ data\<rparr>)"
  by (simp add: write_all_flush_def)

text \<open>What is answered when a lookup ends with \<open>r\<close>: the answer, the request again, or an error.\<close>

definition answer_of :: "bytes res \<Rightarrow> bytes \<Rightarrow> bytes" where
  "answer_of r echo =
     (case r of
        Ok candidates \<Rightarrow>
          if is_empty_candidates candidates
          then (if echo = [] then protocol_result_error
                else if last echo = lf \<or> last echo = cr then echo else echo @ [lf])
          else candidates @ [lf]
      | _ \<Rightarrow> protocol_result_error)"

lemma send_not_found_answer:
  "is_empty_candidates candidates \<Longrightarrow>
   send_not_found echo s = snd (write_all_flush (answer_of (Ok candidates) echo) s)"
  by (simp add: send_not_found_def answer_of_def send_and_log_protocol_error_def write_error_flush_def
      write_all_flush_ignore_error_def)

lemma protocol_1_answer:
  assumes "handle_client_protocol_1 t env srv st buffer = Ok st'"
  shows "request_output st' = snd (write_all_flush
    (if validate_buffer_for_protocol_1_and_4 buffer
     then answer_of (fst (read_candidates t env (server_dictionary srv) (request_file st) (request_cache st) buffer))
            (buffer[0 := 0x34])
     else protocol_result_error) (request_output st))"
  using assms
  by (auto simp: handle_client_protocol_1_def Let_def send_not_found_answer write_error_flush_def
      send_and_log_protocol_error_def write_all_flush_ignore_error_def answer_of_def
      split: if_splits res.splits prod.splits)

lemma protocol_4_answer:
  assumes "handle_client_protocol_4 t env srv st buffer = Ok st'"
  shows "request_output st' = snd (write_all_flush
    (if validate_buffer_for_protocol_1_and_4 buffer
     then answer_of (fst (read_abbrev t (the_twoway env) (reader_config (server_dictionary srv))
            (reader_on_memory (server_dictionary srv)) (request_file st) buffer)) buffer
     else protocol_result_error) (request_output st))"
  using assms
  by (auto simp: handle_client_protocol_4_def Let_def send_not_found_answer write_error_flush_def
      send_and_log_protocol_error_def write_all_flush_ignore_error_def answer_of_def
      split: if_splits res.splits prod.splits)

text \<open>The specification of a request: whether the connection goes on, and the bytes of the answer.\<close>

definition request_answer ::
  "tables \<Rightarrow> 'j outside \<Rightarrow> server \<Rightarrow> request_state \<Rightarrow> bytes \<Rightarrow> bytes" where
  "request_answer t env srv st buffer =
     (let b = hd buffer;
          rd = server_dictionary srv;
          euc = (if is_midashi_utf8 (server_config srv) then scan (encode_unit t) buffer else buffer)
      in if b = 0x31 then
           (if validate_buffer_for_protocol_1_and_4 euc
            then answer_of (fst (read_candidates t env rd (request_file st) (request_cache st) euc)) (euc[0 := 0x34])
            else protocol_result_error)
         else if b = 0x32 then pkg_version @ [space]
         else if b = 0x33 then ascii (hostname_and_ip_address_for_protocol_3 (server_config srv)) @ [space]
         else if b = 0x34 then
           (if validate_buffer_for_protocol_1_and_4 euc
            then answer_of (fst (read_abbrev t (the_twoway env) (reader_config rd) (reader_on_memory rd)
                   (request_file st) euc)) euc
            else protocol_result_error)
         else protocol_result_error)"

lemma handle_client_one_write':
  assumes "tables_wf t" and "handle_client t env srv st buffer = Ok (result, st')"
  shows "if result = Exit then hd buffer = 0x30 \<and> st' = st
    else hd buffer \<noteq> 0x30
      \<and> request_output st' = snd (write_all_flush (request_answer t env srv st buffer) (request_output st))"
proof -
  have ne: "buffer \<noteq> []" using assms(2) by (auto simp: handle_client_def index_res_def)
  show ?thesis
  proof (cases "hd buffer = 0x30")
    case True
    then show ?thesis using assms(2) ne by (auto simp: handle_client_def hd_conv_nth)
  next
    case False
    then show ?thesis
      using assms(2) ne
      by (auto simp: handle_client_def hd_conv_nth and_then_eq_Ok with_euc_buffer_def request_answer_def
          Let_def encode_eq_scan [OF assms(1)] write_all_flush_ignore_error_def write_error_flush_def
          dest!: protocol_1_answer protocol_4_answer split: if_splits)
  qed
qed

text \<open>C4: Every request that is handled without a panic either ends the connection, with nothing sent, or is answered by exactly one write of the bytes that the specification gives.\<close>

theorem handle_client_one_write:
  assumes "tables_wf t" and "handle_client t env srv st buffer = Ok (result, st')"
  shows "if result = Exit then hd buffer = 0x30 \<and> st' = st
    else hd buffer \<noteq> 0x30
      \<and> request_output st' = snd (write_all_flush (request_answer t env srv st buffer) (request_output st))"
  using handle_client_one_write' [OF assms] .


lemma answer_of_line:
  assumes "\<And>c. r = Ok c \<Longrightarrow> answer_line c" and "lf \<notin> set echo" and "echo \<noteq> [] \<Longrightarrow> last echo \<noteq> cr"
    and "echo \<noteq> [] \<Longrightarrow> hd echo = 0x34"
  shows "\<exists>x. answer_of r echo = x @ [lf] \<and> lf \<notin> set x \<and> x \<noteq> [] \<and> hd x \<in> {0x30, 0x31, 0x34}"
proof -
  have err: "protocol_result_error = [0x30] @ [lf]"
    by (simp add: protocol_result_error_def ascii_def)
  have "last echo \<noteq> lf" if "echo \<noteq> []" using assms(2) that last_in_set by metis
  then show ?thesis
    using assms by (cases r) (auto simp: answer_of_def err answer_line_def)
qed



section \<open>Witnesses\<close>

definition sample_server :: server where
  "sample_server = \<lparr>server_config = config_new, server_dictionary = sample_reader_online\<rparr>"

definition sample_state :: request_state where
  "sample_state = \<lparr>request_output = \<lparr>sent = [], write_outcomes = []\<rparr>,
     request_file = dictionary_file_new [] 0, request_cache = google_cache_object_new None\<rparr>"

lemma sample_handle:
  "handle_client (fresh_vecs tables_new) sample_outside sample_server sample_state [0x31, 0x61, 0x20]
     = Ok (Continue, sample_state\<lparr>request_output :=
          \<lparr>sent = [0x31, 0x2f, 0x41, 0x31, 0x2f, 0x0a], write_outcomes = []\<rparr>\<rparr>)"
  using sample_reader_answer [of "request_file sample_state" "request_cache sample_state"]
  by (simp add: handle_client_def with_euc_buffer_def sample_server_def config_new_def sample_state_def
      handle_client_protocol_1_def validate_buffer_for_protocol_1_and_4_def protocol_minimum_length_def
      protocol_maximum_length_def is_empty_candidates_def write_all_flush_ignore_error_def)

theorem handle_client_one_write_witness:
  "request_output sample_state \<lparr>sent := [0x31, 0x2f, 0x41, 0x31, 0x2f, 0x0a]\<rparr>
     = snd (write_all_flush (request_answer (fresh_vecs tables_new) sample_outside sample_server sample_state
         [0x31, 0x61, 0x20]) (request_output sample_state))"
  using handle_client_one_write [OF fresh_tables_wf sample_handle] by (simp add: sample_state_def)


end
