(* ===== verification/Dictionary_Lookup.thy ===== *)
theory Dictionary_Lookup
  imports Dictionary_File Server
begin

text \<open>
  From the creation of a dictionary to the answers of the server: the creator groups the entries by
  key, divides each group into units and writes index, units and checksum; the setup reads the index
  back; the lookup finds the unit that may hold a midashi, reads it and cuts the candidates out. The
  two properties say that the whole way is the lookup in the list of entries.
\<close>

section \<open>The blocks of the keys\<close>

definition entries_with :: "dictionary_midashi_key \<Rightarrow> (bytes \<times> bytes) list \<Rightarrow> (bytes \<times> bytes) list" where
  "entries_with k es = filter (\<lambda>p. get_dictionary_midashi_key (fst p) = Ok k) es"

lemma entries_with_simps [simp]:
  "entries_with k [] = []"
  "entries_with k (p # es) = (if get_dictionary_midashi_key (fst p) = Ok k then p # entries_with k es
     else entries_with k es)"
  by (simp_all add: entries_with_def)

lemma temporary_block_loop_lookup:
  "btree_sorted m \<Longrightarrow> \<forall>p \<in> set es. \<exists>k. get_dictionary_midashi_key (fst p) = Ok k \<Longrightarrow>
   \<exists>m'. temporary_block_loop es m = Ok m' \<and> btree_sorted m' \<and>
     (\<forall>k. map_of m' k =
        (if entries_with k es = [] then map_of m k
         else Some ((case map_of m k of None \<Rightarrow> [lf] | Some b \<Rightarrow> b) @ concat (map entry_line (entries_with k es)))))"
proof (induction es arbitrary: m)
  case (Cons p es)
  obtain k where k: "get_dictionary_midashi_key (fst p) = Ok k" using Cons.prems(2) by auto
  define b where "b = (case map_of m k of None \<Rightarrow> [lf] | Some b \<Rightarrow> b)"
  have "\<forall>p \<in> set es. \<exists>k. get_dictionary_midashi_key (fst p) = Ok k" using Cons.prems(2) by simp
  from Cons.IH [OF btree_sorted_insert [OF Cons.prems(1)] this, of k "b @ entry_line p"] obtain m' where m':
    "temporary_block_loop es (btree_insert k (b @ entry_line p) m) = Ok m'" "btree_sorted m'"
    "\<And>k'. map_of m' k' = (if entries_with k' es = [] then ((map_of m)(k \<mapsto> b @ entry_line p)) k'
       else Some ((case ((map_of m)(k \<mapsto> b @ entry_line p)) k' of None \<Rightarrow> [lf] | Some b \<Rightarrow> b)
              @ concat (map entry_line (entries_with k' es))))"
    unfolding btree_lookup_insert [OF Cons.prems(1)] by blast
  have "temporary_block_loop (p # es) m = Ok m'"
    using m'(1) k by (simp add: Let_def flip: b_def)
  then show ?case
    using m'(2,3) k by (intro exI [of _ m']) (auto simp: b_def split: option.splits)
qed simp

lemma temporary_block_map_blocks:
  assumes "\<forall>p \<in> set es. \<exists>k. get_dictionary_midashi_key (fst p) = Ok k"
  obtains ks where "create_temporary_block_map es = Ok (map (\<lambda>k. (k, block_of (entries_with k es))) ks)"
    "distinct ks" "\<And>k. k \<in> set ks \<longleftrightarrow> entries_with k es \<noteq> []"
proof -
  from temporary_block_loop_lookup [of "[]" es] assms obtain m where
    m: "create_temporary_block_map es = Ok m" "btree_sorted m"
      "\<And>k. map_of m k = (if entries_with k es = [] then None else Some (block_of (entries_with k es)))"
    by (auto simp: create_temporary_block_map_def block_of_def btree_sorted_def)
  have d: "distinct (map fst m)" using btree_distinct [OF m(2)] .
  have "map (\<lambda>k. (k, block_of (entries_with k es))) (map fst m) = map (\<lambda>x. x) m"
    unfolding map_map
  proof (rule map_cong [OF refl])
    fix x assume "x \<in> set m"
    then have "map_of m (fst x) = Some (snd x)" using d by simp
    then show "((\<lambda>k. (k, block_of (entries_with k es))) \<circ> fst) x = x"
      using m(3) [of "fst x"] by (cases x) (auto split: if_splits)
  qed
  moreover have "k \<in> set (map fst m) \<longleftrightarrow> entries_with k es \<noteq> []" for k
    using m(3) [of k] map_of_eq_None_iff [of m k] by (auto split: if_splits)
  ultimately show ?thesis using that [of "map fst m"] m(1) d by simp
qed

section \<open>The units of the keys\<close>

definition good_groups :: "(bytes \<times> bytes) list list \<Rightarrow> bool" where
  "good_groups gs \<longleftrightarrow> (\<forall>g \<in> set gs. g \<noteq> [] \<and> length (block_of g) \<le> dictionary_block_unit_length)"

lemma divide_blocks_groups:
  assumes tw: "twoway_documented tw"
  shows "\<forall>k \<in> set ks. f k \<noteq> [] \<and> (\<forall>p \<in> set (f k). entry_ok p \<and> short_entry p) \<Longrightarrow>
    \<exists>us blocks. divide_blocks tw (map (\<lambda>k. (k, block_of (f k))) ks) b = Ok (us, blocks)
      \<and> map fst us = ks
      \<and> (\<forall>(k, infos) \<in> set us. \<exists>gs pre post. concat gs = f k \<and> good_groups gs
            \<and> infos = rev (infos_for (b + length pre) 0 gs) \<and> blocks = pre @ padded (block_of (f k)) @ post)"
proof (induction ks arbitrary: b)
  case (Cons k ks)
  have "\<forall>p \<in> set (f k). entry_ok p \<and> short_entry p" "f k \<noteq> []" using Cons.prems by simp_all
  from block_informations_short [OF tw this, of b] obtain gs where gs: "concat gs = f k" "good_groups gs"
    "get_dictionary_block_informations tw (block_of (f k)) b
       = Ok (rev (infos_for b 0 gs), padded (block_of (f k)))"
    unfolding good_groups_def by metis
  from Cons.IH [of "b + length (padded (block_of (f k)))"] Cons.prems obtain us blocks where us:
    "divide_blocks tw (map (\<lambda>k. (k, block_of (f k))) ks) (b + length (padded (block_of (f k)))) = Ok (us, blocks)"
    "map fst us = ks"
    "\<And>k' infos. (k', infos) \<in> set us \<Longrightarrow> \<exists>gs pre post. concat gs = f k' \<and> good_groups gs
       \<and> infos = rev (infos_for (b + length (padded (block_of (f k))) + length pre) 0 gs)
       \<and> blocks = pre @ padded (block_of (f k')) @ post"
    by fastforce
  have all: "\<exists>gs pre post. concat gs = f k' \<and> good_groups gs \<and> infos = rev (infos_for (b + length pre) 0 gs)
      \<and> padded (block_of (f k)) @ blocks = pre @ padded (block_of (f k')) @ post"
    if "(k', infos) \<in> set ((k, rev (infos_for b 0 gs)) # us)" for k' infos
  proof (cases "(k', infos) \<in> set us")
    case True
    from us(3) [OF this] obtain gs' pre post where "concat gs' = f k'" "good_groups gs'"
      "infos = rev (infos_for (b + length (padded (block_of (f k))) + length pre) 0 gs')"
      "blocks = pre @ padded (block_of (f k')) @ post" by blast
    then show ?thesis
      by (intro exI [of _ gs'] exI [of _ "padded (block_of (f k)) @ pre"] exI [of _ post]) (simp add: add.assoc)
  next
    case False
    then show ?thesis using that gs(1,2) by (intro exI [of _ gs] exI [of _ "[]"] exI [of _ blocks]) simp
  qed
  have "divide_blocks tw (map (\<lambda>k. (k, block_of (f k))) (k # ks)) b
      = Ok ((k, rev (infos_for b 0 gs)) # us, padded (block_of (f k)) @ blocks)"
    using gs(3) us(1) by simp
  moreover have "map fst ((k, rev (infos_for b 0 gs)) # us) = k # ks" using us(2) by simp
  ultimately show ?case using all by (intro exI conjI) (assumption, assumption, blast)
qed simp


section \<open>The index in memory\<close>

text \<open>
  Keys that do not share a place of the vector: a key of one byte has no other bytes, and the second
  byte of a key of the hiragana row is not an ASCII character.
\<close>

definition indexed_key :: "dictionary_midashi_key \<Rightarrow> bool" where
  "indexed_key k \<longleftrightarrow> length k = 4 \<and> (k ! 0 < 0x80 \<longrightarrow> drop 1 k = [0, 0, 0])
     \<and> (k ! 0 = 0xa4 \<longrightarrow> 0x80 \<le> k ! 1 \<and> drop 2 k = [0, 0])"

definition good_midashi :: "bytes \<Rightarrow> bool" where
  "good_midashi m \<longleftrightarrow> (\<exists>k. get_dictionary_midashi_key m = Ok k \<and> indexed_key k)
     \<and> space \<notin> set m \<and> lf \<notin> set m"

lemma key_not_Nil: "get_dictionary_midashi_key m = Ok k \<Longrightarrow> m \<noteq> []"
  by (auto simp: get_dictionary_midashi_key_def index_res_def)

lemma length_4_cases:
  assumes "length (k :: 'a list) = 4"
  obtains a b c d where "k = [a, b, c, d]"
  using assms by (auto simp: numeral_eq_Suc length_Suc_conv)

lemma vec_index_inj:
  assumes "indexed_key k" "indexed_key k'"
    "get_ascii_hiragana_vec_index k = Some i" "get_ascii_hiragana_vec_index k' = Some i"
  shows "k = k'"
proof -
  have "length k = 4" "length k' = 4" using assms(1,2) by (simp_all add: indexed_key_def)
  then obtain a b c d a' b' c' d' where k: "k = [a, b, c, d]" and k': "k' = [a', b', c', d']"
    by (elim length_4_cases)
  show ?thesis
    using assms unfolding k k'
    by (auto simp: indexed_key_def get_ascii_hiragana_vec_index_def in_range_def word_less_nat_alt word_le_nat_alt
        dest: unsigned_word_eqI split: if_splits)
qed

definition stored :: "index_maps \<Rightarrow> dictionary_midashi_key \<Rightarrow> block_information list option" where
  "stored maps k =
     (case get_ascii_hiragana_vec_index k of
        None \<Rightarrow> fst maps k
      | Some i \<Rightarrow> if snd maps ! i = [] then None else Some (snd maps ! i))"

lemma stored_informations:
  assumes "indexed_key k" "indexed_key k'" "length (snd maps) = index_ascii_hiragana_vec_length" "infos \<noteq> []"
  shows "stored (store_informations k infos maps) k' = (if k' = k then Some infos else stored maps k')"
    and "length (snd (store_informations k infos maps)) = index_ascii_hiragana_vec_length"
  using vec_index_inj [OF assms(1,2)] get_ascii_hiragana_vec_index_less assms(3,4)
  by (auto simp: stored_def store_informations_def nth_list_update split: option.splits)

lemma stored_units:
  "\<forall>u \<in> set us. indexed_key (fst u) \<and> snd u \<noteq> [] \<Longrightarrow> distinct (map fst us) \<Longrightarrow> indexed_key k \<Longrightarrow>
   length (snd maps) = index_ascii_hiragana_vec_length \<Longrightarrow>
   stored (store_units us maps) k = (case map_of us k of Some infos \<Rightarrow> Some infos | None \<Rightarrow> stored maps k)
   \<and> length (snd (store_units us maps)) = index_ascii_hiragana_vec_length"
proof (induction us arbitrary: maps)
  case (Cons u us)
  note s = stored_informations [where k = "fst u" and infos = "snd u" and maps = maps and k' = k]
  have "stored (store_units us (store_informations (fst u) (snd u) maps)) k
      = (case map_of us k of Some infos \<Rightarrow> Some infos | None \<Rightarrow> stored (store_informations (fst u) (snd u) maps) k)
    \<and> length (snd (store_units us (store_informations (fst u) (snd u) maps))) = index_ascii_hiragana_vec_length"
    using Cons.prems s(2) by (intro Cons.IH) simp_all
  moreover have "map_of us (fst u) = None" using Cons.prems(2) by (simp add: map_of_eq_None_iff)
  ultimately show ?case
    using s(1) Cons.prems by (auto simp: store_units_def split: option.splits)
qed (simp add: store_units_def)

lemma vectors_stored:
  assumes "length (snd maps) = index_ascii_hiragana_vec_length"
  shows "get_block_information_vectors
      \<lparr>dictionary_fixed_header = h, index_map = fst maps, index_ascii_hiragana_vec = snd maps\<rparr> k = Ok (stored maps k)"
  using get_ascii_hiragana_vec_index_less [of k] assms
  by (auto simp: get_block_information_vectors_def stored_def index_res_def split: option.splits)


section \<open>The units of one key\<close>

definition ascending :: "(bytes \<times> bytes) list \<Rightarrow> bool" where
  "ascending es \<longleftrightarrow> sorted_wrt (\<lambda>p q. fst p < fst q) es"

lemma length_infos_for [simp]: "length (infos_for b i gs) = length gs"
  by (induction gs arbitrary: i) simp_all

lemma infos_for_nth:
  "j < length gs \<Longrightarrow> infos_for b i gs ! j =
     \<lparr>info_midashi = fst (hd (gs ! j)), info_offset = of_nat (b + i + lines_length (concat (take j gs))),
      info_length = of_nat (Suc (lines_length (gs ! j)))\<rparr>"
  by (induction gs arbitrary: i j) (auto simp: nth_Cons' take_Cons' add.assoc)

lemma groups_ordered:
  assumes "ascending (concat gs)" "i < j" "j < length gs" "p \<in> set (gs ! i)" "q \<in> set (gs ! j)"
  shows "fst p < fst q"
proof -
  have "concat gs = concat (take j gs) @ concat (drop j gs)"
    by (metis append_take_drop_id concat_append)
  moreover have "gs ! i \<in> set (take j gs)"
    using assms(2,3) by (auto simp: in_set_conv_nth intro!: exI [of _ i])
  then have "p \<in> set (concat (take j gs))" using assms(4) by auto
  moreover have "q \<in> set (concat (drop j gs))"
    using assms(3,5) by (auto simp: Cons_nth_drop_Suc [symmetric])
  ultimately show ?thesis using assms(1) by (auto simp: ascending_def sorted_wrt_append)
qed

lemma in_group: "p \<in> set (concat gs) \<Longrightarrow> \<exists>j < length gs. p \<in> set (gs ! j)"
  unfolding set_concat by (metis UN_iff in_set_conv_nth)

lemma hd_group: "good_groups gs \<Longrightarrow> j < length gs \<Longrightarrow> hd (gs ! j) \<in> set (gs ! j)"
  by (auto simp: good_groups_def)

lemma infos_descending:
  assumes "ascending (concat gs)" "good_groups gs"
  shows "descending (rev (infos_for b i gs))"
proof -
  have "sorted_wrt (\<lambda>v w. info_midashi v < info_midashi w) (infos_for b i gs)"
    using groups_ordered [OF assms(1)] hd_group [OF assms(2)]
    by (auto simp: sorted_wrt_iff_nth_less infos_for_nth)
  then show ?thesis by (simp add: descending_def sorted_wrt_rev)
qed

text \<open>The group that the search ends in is the one that holds the midashi, if any does.\<close>

lemma group_of_midashi:
  fixes b i :: nat
  assumes "ascending (concat gs)" "good_groups gs"
  defines "infos \<equiv> rev (infos_for b i gs)"
  shows "unit_index m infos \<ge> length infos \<Longrightarrow> m \<notin> fst ` set (concat gs)"
    and "unit_index m infos < length infos \<Longrightarrow> \<exists>j < length gs. infos ! unit_index m infos = infos_for b i gs ! j
      \<and> (\<forall>p \<in> set (concat gs). fst p = m \<longrightarrow> p \<in> set (gs ! j))"
proof -
  have nth: "infos ! k = infos_for b i gs ! (length gs - Suc k)" if "k < length gs" for k
    using that by (simp add: infos_def rev_nth)
  have mid: "info_midashi (infos_for b i gs ! j) = fst (hd (gs ! j))" if "j < length gs" for j
    using that by (simp add: infos_for_nth)
  have first: "fst (hd (gs ! j)) \<le> fst p" if "j < length gs" "p \<in> set (gs ! j)" for j p
  proof -
    have "concat gs = concat (take j gs) @ gs ! j @ concat (drop (Suc j) gs)"
      by (metis that(1) append_take_drop_id concat_append concat.simps(2) Cons_nth_drop_Suc)
    then have "ascending (gs ! j)" using assms(1) by (simp add: ascending_def sorted_wrt_append)
    then show ?thesis using that(2) by (cases "gs ! j") (auto simp: ascending_def)
  qed
  have behind: "m < fst p" if "length gs - Suc k = j" "k < length gs" "k < unit_index m infos" "p \<in> set (gs ! j)" for k j p
  proof -
    have j: "j < length gs" using that(1,2) by linarith
    have "m < fst (hd (gs ! j))" using before_unit_index [OF that(3)] nth [OF that(2)] mid [OF j] that(1) by simp
    then show ?thesis using first [OF j that(4)] by (rule less_le_trans)
  qed
  show "m \<notin> fst ` set (concat gs)" if "unit_index m infos \<ge> length infos"
  proof
    assume "m \<in> fst ` set (concat gs)"
    then obtain j p where "j < length gs" "p \<in> set (gs ! j)" "fst p = m"
      using in_group [of _ gs] by blast
    moreover from this have "length gs - Suc j < length gs" by linarith
    ultimately show False using behind [of "length gs - Suc j" j p] that by (simp add: infos_def)
  qed
  show "\<exists>j < length gs. infos ! unit_index m infos = infos_for b i gs ! j
      \<and> (\<forall>p \<in> set (concat gs). fst p = m \<longrightarrow> p \<in> set (gs ! j))" if u: "unit_index m infos < length infos"
  proof (intro exI conjI ballI impI)
    let ?j = "length gs - Suc (unit_index m infos)"
    have len: "length infos = length gs" by (simp add: infos_def)
    show j: "?j < length gs" using u len by linarith
    show eq: "infos ! unit_index m infos = infos_for b i gs ! ?j" using nth u len by simp
    have le: "fst (hd (gs ! ?j)) \<le> m" using at_unit_index [OF u] eq mid [OF j] by simp
    fix p assume "p \<in> set (concat gs)" "fst p = m"
    then obtain k where k: "k < length gs" "p \<in> set (gs ! k)" using in_group [of p gs] by blast
    have "\<not> k < ?j"
      using groups_ordered [OF assms(1) _ j k(2) hd_group [OF assms(2) j]] le \<open>fst p = m\<close> by fastforce
    moreover have "\<not> ?j < k"
      using behind [of "length gs - Suc k" k p] k u len \<open>fst p = m\<close> by fastforce
    ultimately show "p \<in> set (gs ! ?j)" using k(2) by (metis linorder_neqE_nat)
  qed
qed


section \<open>A midashi in a unit\<close>

lemma occurs_at_parts: "occurs_at h n i \<longleftrightarrow> (\<exists>xs ys. h = xs @ n @ ys \<and> length xs = i)"
proof
  assume o: "occurs_at h n i"
  then have "h = take i h @ n @ drop (i + length n) h"
    unfolding occurs_at_def by (metis append_take_drop_id drop_drop add.commute)
  then show "\<exists>xs ys. h = xs @ n @ ys \<and> length xs = i"
    using o by (intro exI [of _ "take i h"] exI [of _ "drop (i + length n) h"]) (simp add: occurs_at_def)
qed (auto simp: occurs_at_def)

lemma split_at_first:
  "x \<notin> set as \<Longrightarrow> x \<notin> set bs \<Longrightarrow> as @ x # xs = bs @ x # ys \<Longrightarrow> as = bs \<and> xs = ys"
proof (induction as arbitrary: bs)
  case Nil
  then show ?case by (cases bs) auto
next
  case (Cons a as)
  then show ?case by (cases bs) auto
qed

lemma tail_res_append: "tail_res (xs @ ys) (length xs) = Ok ys"
  by (simp add: tail_res_def)

lemma drop_block: "drop (lines_length g) (block_of (g @ h)) = block_of h"
proof -
  have "block_of (g @ h) = slice (block_of (g @ h)) 0 (lines_length g) @ block_of h"
    using prefix_group [of "[]" g h] by simp
  moreover have "length (slice (block_of (g @ h)) 0 (lines_length g)) = lines_length g"
    using length_slice_group [of "[]" g h] by simp
  ultimately show ?thesis by (metis append_eq_conv_conj)
qed

definition search_bytes :: "bytes \<Rightarrow> bytes" where
  "search_bytes m = [lf] @ m @ [space, slash]"

lemma occurs_in_block:
  assumes ok: "\<forall>p \<in> set g. entry_ok p" and m: "space \<notin> set m" and "occurs_at (block_of g) (search_bytes m) i"
  shows "\<exists>g1 p g2 c. g = g1 @ p # g2 \<and> i = lines_length g1 \<and> fst p = m \<and> snd p = slash # c"
proof -
  obtain xs ys where b: "block_of g = xs @ search_bytes m @ ys" "length xs = i"
    using assms(3) by (auto simp: occurs_at_parts)
  then have "block_of g ! i = lf" "i < length (block_of g)" by (auto simp: search_bytes_def nth_append)
  with newline_positions [OF ok] obtain g1 h where g: "g = g1 @ h" "i = lines_length g1" by blast
  have "block_of h = search_bytes m @ ys" using drop_block [of g1 h] b g by (metis append_eq_conv_conj)
  then obtain p g2 where h: "h = p # g2" by (cases h) (auto simp: block_of_def search_bytes_def)
  have "space \<notin> set (fst p)" using ok g(1) h by (simp add: entry_ok_def)
  then have "fst p = m \<and> snd p @ lf # concat (map entry_line g2) = slash # ys"
    using \<open>block_of h = search_bytes m @ ys\<close> m
    by (intro split_at_first) (simp_all add: h block_of_def entry_line_def search_bytes_def)
  moreover then obtain c where "snd p = slash # c" by (cases "snd p") auto
  ultimately show ?thesis using g h by blast
qed

lemma find_in_block:
  assumes tw: "twoway_documented tw" and ok: "\<forall>p \<in> set g. entry_ok p" and m: "space \<notin> set m"
    and d: "distinct (map fst g)"
  shows "m \<notin> fst ` set g \<Longrightarrow> find_bytes tw (block_of g) (search_bytes m) = None"
    and "g = g1 @ (m, slash # c) # g2 \<Longrightarrow> find_bytes tw (block_of g) (search_bytes m) = Some (lines_length g1)"
proof -
  have doc: "case find_bytes tw (block_of g) (search_bytes m) of
      None \<Rightarrow> \<forall>i. \<not> occurs_at (block_of g) (search_bytes m) i
    | Some i \<Rightarrow> occurs_at (block_of g) (search_bytes m) i \<and> (\<forall>j < i. \<not> occurs_at (block_of g) (search_bytes m) j)"
    using tw by (simp add: twoway_documented_def)
  show "find_bytes tw (block_of g) (search_bytes m) = None" if "m \<notin> fst ` set g"
  proof (cases "find_bytes tw (block_of g) (search_bytes m)")
    case (Some i)
    then have "occurs_at (block_of g) (search_bytes m) i" using doc by simp
    from occurs_in_block [OF ok m this] that show ?thesis by auto
  qed
  assume g: "g = g1 @ (m, slash # c) # g2"
  have "block_of g = slice (block_of g) 0 (lines_length g1) @ block_of ((m, slash # c) # g2)"
    using prefix_group [of "[]" g1 "(m, slash # c) # g2"] by (simp add: g)
  also have "block_of ((m, slash # c) # g2) = search_bytes m @ c @ lf # concat (map entry_line g2)"
    by (simp add: block_of_def search_bytes_def entry_line_def)
  finally have o1: "occurs_at (block_of g) (search_bytes m) (lines_length g1)"
    using length_slice_group [of "[]" g1 "(m, slash # c) # g2"] unfolding occurs_at_parts
    by (intro exI [of _ "slice (block_of g) 0 (lines_length g1)"]
        exI [of _ "c @ lf # concat (map entry_line g2)"]) (simp add: g)
  have only: "i = lines_length g1" if o: "occurs_at (block_of g) (search_bytes m) i" for i
  proof -
    obtain h1 p h2 where h: "g = h1 @ p # h2" "i = lines_length h1" "fst p = m"
      using occurs_in_block [OF ok m o] by blast
    have g1: "m \<notin> fst ` set g1" using d unfolding g by simp
    have h1: "m \<notin> fst ` set h1" using d h(3) unfolding h(1) by auto
    have "map fst (g1 @ (m, slash # c) # g2) = map fst (h1 @ p # h2)"
      by (simp only: g [symmetric] h(1) [symmetric])
    then have "map fst g1 @ m # map fst g2 = map fst h1 @ m # map fst h2" using h(3) by simp
    then have "map fst g1 = map fst h1"
      using g1 h1 split_at_first [of m "map fst g1" "map fst h1"] by simp
    from arg_cong [OF this, of length] have "length g1 = length h1" by simp
    moreover have "g1 @ (m, slash # c) # g2 = h1 @ p # h2"
      by (simp only: g [symmetric] h(1) [symmetric])
    ultimately show ?thesis using h(2) by simp
  qed
  show "find_bytes tw (block_of g) (search_bytes m) = Some (lines_length g1)"
  proof (cases "find_bytes tw (block_of g) (search_bytes m)")
    case None
    then show ?thesis using doc o1 by simp
  next
    case (Some i)
    then have "occurs_at (block_of g) (search_bytes m) i" using doc by simp
    then show ?thesis using only [of i] Some by simp
  qed
qed

lemma lookup_candidates_block:
  assumes tw: "twoway_documented tw" and ok: "\<forall>p \<in> set g. entry_ok p" and m: "space \<notin> set m"
    and d: "distinct (map fst g)" and c: "\<forall>p \<in> set g. \<exists>c. snd p = slash # c"
  shows "lookup_candidates tw m (block_of g) [0x31]
    = Ok (0x31 # (case map_of g m of None \<Rightarrow> [] | Some c \<Rightarrow> c))"
proof (cases "map_of g m")
  case None
  then have "m \<notin> fst ` set g" by (simp add: map_of_eq_None_iff)
  then show ?thesis using find_in_block(1) [OF tw ok m d] None
    by (simp add: lookup_candidates_def search_bytes_def)
next
  case (Some c)
  then obtain g1 g2 where g: "g = g1 @ (m, c) # g2" by (meson map_of_SomeD split_list)
  then obtain c' where c': "c = slash # c'" using assms(5) by auto
  have lf: "lf \<notin> set c'" using ok by (auto simp: g c' entry_ok_def)
  define pre where "pre = slice (block_of g) 0 (lines_length g1)"
  define rest where "rest = concat (map entry_line g2)"
  have b: "block_of g = (pre @ search_bytes m) @ c' @ lf # rest"
    using prefix_group [of "[]" g1 "(m, c) # g2"]
    by (simp add: g pre_def rest_def c' block_of_def search_bytes_def entry_line_def)
  have pre: "length pre = lines_length g1" using length_slice_group [of "[]" g1 "(m, c) # g2"] by (simp add: g pre_def)
  have f: "find_bytes tw (block_of g) ([lf] @ m @ [space, slash]) = Some (length pre)"
    using find_in_block(2) [OF tw ok m d] g c' pre by (simp add: search_bytes_def)
  have t: "tail_res (block_of g) (length pre + length ([lf] @ m @ [space, slash])) = Ok (c' @ lf # rest)"
    unfolding b using tail_res_append [of "pre @ search_bytes m" "c' @ lf # rest"] by (simp add: search_bytes_def)
  have s: "slice_res (block_of g) (length pre + length ([lf] @ m @ [space, slash]))
      (length pre + length ([lf] @ m @ [space, slash]) + length c') = Ok c'"
    unfolding b slice_res_def
    using slice_eq_middle [of "length pre + length ([lf] @ m @ [space, slash])" "pre @ search_bytes m" _ c' "lf # rest"]
    by (simp add: search_bytes_def slice_def)
  show ?thesis
    unfolding lookup_candidates_def Let_def f option.case t and_then.simps find_byte_first [OF tw lf] s
    by (simp add: is_empty_candidates_def Some c')
qed


section \<open>Reading a unit of the file\<close>

lemma unit_of_block:
  fixes pre :: bytes
  assumes "concat gs = es" "j < length gs"
  defines "k \<equiv> length pre + lines_length (concat (take j gs))"
  shows "slice (pre @ padded (block_of es) @ post) k (k + Suc (lines_length (gs ! j))) = block_of (gs ! j)"
    and "k + Suc (lines_length (gs ! j)) \<le> length (pre @ padded (block_of es) @ post)"
proof -
  define a h where "a = concat (take j gs)" and "h = concat (drop (Suc j) gs)"
  have es: "es = a @ gs ! j @ h"
    unfolding a_def h_def assms(1) [symmetric]
    by (metis assms(2) append_take_drop_id concat_append concat.simps(2) Cons_nth_drop_Suc)
  define s where "s = slice (block_of es) 0 (lines_length a)"
  have s: "block_of es = s @ block_of (gs ! j @ h)" "length s = lines_length a"
    using prefix_group [of "[]" a "gs ! j @ h"] length_slice_group [of "[]" a "gs ! j @ h"]
    by (simp_all add: s_def es)
  have "block_of (gs ! j @ h) = block_of (gs ! j) @ concat (map entry_line h)"
    by (simp add: block_of_def)
  then obtain z where z: "pre @ padded (block_of es) @ post = (pre @ s) @ block_of (gs ! j) @ z"
    using s(1) by (simp add: padded_def)
  have k: "k = length (pre @ s)" using s(2) by (simp add: k_def a_def)
  have l: "k + Suc (lines_length (gs ! j)) = length (pre @ s) + length (block_of (gs ! j))"
    unfolding k by simp
  show "slice (pre @ padded (block_of es) @ post) k (k + Suc (lines_length (gs ! j))) = block_of (gs ! j)"
    unfolding z by (rule slice_eq_middle [OF k l])
  show "k + Suc (lines_length (gs ! j)) \<le> length (pre @ padded (block_of es) @ post)"
    unfolding z l by simp
qed

lemma read_exact_at_behind:
  assumes "drop off file = blocks" "off + length blocks = length file" "k + n \<le> length blocks" "0 < n"
  shows "read_exact_at file (off + k) n = Ok (slice blocks k (k + n))"
proof -
  have "off + k + n \<le> length file" using assms(2,3) by linarith
  then show ?thesis using assms by (auto simp: read_exact_at_def slice_def add.commute)
qed

lemma map_of_group:
  assumes "ascending es" "set g \<subseteq> set es" "distinct (map fst g)" "\<forall>p \<in> set es. fst p = m \<longrightarrow> p \<in> set g"
  shows "map_of g m = map_of es m"
proof -
  have "distinct (map fst es)"
    using assms(1) strict_sorted_iff [of "map fst es"] by (simp add: ascending_def sorted_wrt_map)
  then have "map_of g m = Some c \<longleftrightarrow> map_of es m = Some c" for c
    using assms by auto
  then show ?thesis by (metis not_None_eq)
qed

lemma ascending_part: "ascending (xs @ ys @ zs) \<Longrightarrow> ascending ys"
  by (simp add: ascending_def sorted_wrt_append)

lemma ascending_distinct: "ascending es \<Longrightarrow> distinct (map fst es)"
  using strict_sorted_iff [of "map fst es"] by (simp add: ascending_def sorted_wrt_map)

definition served_entry :: "bytes \<times> bytes \<Rightarrow> bool" where
  "served_entry p \<longleftrightarrow> good_midashi (fst p) \<and> lf \<notin> set (snd p) \<and> (\<exists>c. snd p = slash # c) \<and> short_entry p"

lemma served_entry_ok: "served_entry p \<Longrightarrow> entry_ok p"
  using key_not_Nil by (auto simp: served_entry_def good_midashi_def entry_ok_def)

lemma unit_lookup:
  assumes tw: "twoway_documented tw" and asc: "ascending es" and ok: "\<forall>p \<in> set es. served_entry p"
    and gs: "concat gs = es" "good_groups gs"
    and infos: "infos = rev (infos_for (length pre) 0 gs)" and blocks: "blocks = pre @ padded (block_of es) @ post"
    and df: "df_valid df" "drop (unat off) (df_file df) = blocks" "unat off + length blocks = length (df_file df)"
    and size: "length blocks < 2 ^ 32" and m: "space \<notin> set m"
  shows "\<exists>df'. read_dictionary_for_read_candidates tw m infos off df [0x31]
      = (Ok (0x31 # (case map_of es m of None \<Rightarrow> [] | Some c \<Rightarrow> c)), df') \<and> df_valid df' \<and> df_file df' = df_file df"
proof -
  define i where "i = unit_index m infos"
  have index: "get_block_informations_index m infos = Ok i"
    using get_block_informations_index_eq infos_descending asc gs by (simp add: infos i_def)
  note group = group_of_midashi [where gs = gs and b = "length pre" and i = 0 and m = m, folded infos i_def]
  show ?thesis
  proof (cases "i < length infos")
    case False
    then have "m \<notin> fst ` set es" using group(1) asc gs by simp
    then have "map_of es m = None" by (simp add: map_of_eq_None_iff)
    then show ?thesis using False index df(1) by (simp add: read_dictionary_for_read_candidates_def)
  next
    case True
    then obtain j where j: "j < length gs" "infos ! i = infos_for (length pre) 0 gs ! j"
      "\<forall>p \<in> set es. fst p = m \<longrightarrow> p \<in> set (gs ! j)"
      using group(2) asc gs by auto
    define g k where "g = gs ! j" and "k = length pre + lines_length (concat (take j gs))"
    note unit = unit_of_block [OF gs(1) j(1), of pre post, folded blocks g_def k_def]
    have un: "unat (of_nat x :: u32) = x" if "x \<le> length blocks" for x
      using that size by (simp add: unsigned_of_nat take_bit_nat_eq_self)
    have info: "unat (info_offset (infos ! i)) = k" "unat (info_length (infos ! i)) = Suc (lines_length g)"
      using unit(2) un [of k] un [of "Suc (lines_length g)"] by (simp_all add: j infos_for_nth k_def g_def)
    have "read_exact_at (df_file df) (unat off + k) (Suc (lines_length g)) = Ok (block_of g)"
      using read_exact_at_behind [OF df(2,3) unit(2)] unit(1) by simp
    from unit_cache.delivers [OF df(1) this] obtain df' where df':
      "dictionary_file_read (unat off + k) (Suc (lines_length g)) df = (Ok (block_of g), df')"
      "df_valid df'" "df_file df' = df_file df" .
    have part: "es = concat (take j gs) @ g @ concat (drop (Suc j) gs)"
      unfolding gs(1) [symmetric] g_def
      by (metis j(1) append_take_drop_id concat_append concat.simps(2) Cons_nth_drop_Suc)
    have "ascending (concat (take j gs) @ g @ concat (drop (Suc j) gs))"
      by (rule asc [unfolded part])
    from ascending_distinct [OF ascending_part [OF this]] have "distinct (map fst g)" .
    moreover have "set g \<subseteq> set es" using arg_cong [OF part, of set] unfolding set_append by blast
    ultimately have g: "set g \<subseteq> set es" "distinct (map fst g)" by simp_all
    have "\<forall>p \<in> set g. served_entry p" using g(1) ok by (meson subsetD)
    then have "\<forall>p \<in> set g. entry_ok p" "\<forall>p \<in> set g. \<exists>c. snd p = slash # c"
      by (simp_all add: served_entry_ok) (simp add: served_entry_def)
    then have "lookup_candidates tw m (block_of g) [0x31] = Ok (0x31 # (case map_of g m of None \<Rightarrow> [] | Some c \<Rightarrow> c))"
      by (intro lookup_candidates_block [OF tw _ m g(2)])
    moreover have "map_of g m = map_of es m" using map_of_group [OF asc g] j(3) by (simp add: g_def)
    ultimately have found: "lookup_candidates tw m (block_of g) [0x31]
        = Ok (0x31 # (case map_of es m of None \<Rightarrow> [] | Some c \<Rightarrow> c))" by simp
    have "(i \<ge> length infos) = False" using True by simp
    then have "read_dictionary_for_read_candidates tw m infos off df [0x31]
        = (Ok (0x31 # (case map_of es m of None \<Rightarrow> [] | Some c \<Rightarrow> c)), df')"
      unfolding read_dictionary_for_read_candidates_def index res.case Let_def info df'(1)
      by (simp only: if_False prod.case and_then.simps found)
    then show ?thesis using df'(2,3) by blast
  qed
qed


section \<open>From the entries to the answers\<close>

text \<open>
  The sizes fit: the index data of one key fits the buffer of a block, and the file is below 4 GB. The
  creator does not check either.
\<close>

definition sizes_fit :: "endianness \<Rightarrow> twoway \<Rightarrow> (bytes \<times> bytes) list \<Rightarrow> bytes \<Rightarrow> bool" where
  "sizes_fit e tw entries table \<longleftrightarrow>
     (case and_then (create_temporary_block_map entries) (\<lambda>kbs. divide_blocks tw kbs 0) of
        Ok (us, _) \<Rightarrow> list_all (\<lambda>u. fits e [u]) us | _ \<Rightarrow> True) \<and>
     (case create_index_data e tw entries of
        Ok r \<Rightarrow> dictionary_size (length table) (length (cr_index_data_header r)) (length (cr_index_data r))
                  (length (cr_blocks r)) + 4096 < 2 ^ 32
      | _ \<Rightarrow> True)"

lemma group_infos_ok:
  assumes "fits e [(k, rev (infos_for b 0 gs))]" "length k = 4" "good_groups gs" "concat gs \<noteq> []"
    and "\<forall>p \<in> set (concat gs). entry_ok p"
  shows "infos_ok (rev (infos_for b 0 gs))"
proof -
  let ?infos = "rev (infos_for b 0 gs)"
  have "info_midashi v \<in> fst ` set (concat gs)" if v: "v \<in> set ?infos" for v
  proof -
    obtain j where "j < length gs" "v = infos_for b 0 gs ! j" using v by (auto simp: in_set_conv_nth)
    then show ?thesis using hd_group [OF assms(3), of j] by (force simp: infos_for_nth)
  qed
  then have "list_all (\<lambda>v. space \<notin> set (info_midashi v)) ?infos"
    using assms(5) by (fastforce simp: list_all_iff entry_ok_def)
  moreover have "?infos \<noteq> []" using assms(4) by (cases gs) auto
  moreover have "length (index_unit e k ?infos) \<le> index_data_block_length"
    using assms(1) by (simp add: fits_def units_bytes_def)
  then have "u32_sized (length ?infos)" "u32_sized (length (join_with space (map info_midashi ?infos)))"
    using length_index_unit [OF assms(2), of e ?infos] by (auto simp: u32_sized_def index_data_block_length_def)
  ultimately show ?thesis by (simp add: infos_ok_def)
qed

lemma map_of_entries_with:
  assumes "distinct (map fst es)" "get_dictionary_midashi_key m = Ok k"
  shows "map_of (entries_with k es) m = map_of es m"
  using assms by (induction es) auto

lemma ascending_entries_with: "ascending es \<Longrightarrow> ascending (entries_with k es)"
  by (simp add: ascending_def entries_with_def sorted_wrt_filter)

text \<open>
  What the setup holds of a dictionary of these entries: the index maps each key to the units of its
  block, and the file has the blocks at their offset.
\<close>

definition block_of_key ::
  "(bytes \<times> bytes) list \<Rightarrow> bytes \<Rightarrow> dictionary_midashi_key \<Rightarrow> block_information list \<Rightarrow> bool" where
  "block_of_key es blocks k infos \<longleftrightarrow> indexed_key k \<and> infos \<noteq> [] \<and>
     (\<exists>gs pre post. concat gs = entries_with k es \<and> good_groups gs
       \<and> infos = rev (infos_for (length pre) 0 gs) \<and> blocks = pre @ padded (block_of (entries_with k es)) @ post)"

definition holds_entries ::
  "(bytes \<times> bytes) list \<Rightarrow> encoding \<Rightarrow> bytes \<Rightarrow> on_memory
     \<Rightarrow> (dictionary_midashi_key \<times> block_information list) list \<Rightarrow> bytes \<Rightarrow> bool" where
  "holds_entries es enc dict om us blocks \<longleftrightarrow>
     (let header = dictionary_fixed_header om in
      header_encoding header = encoding_as_u32 enc
      \<and> (index_map om, index_ascii_hiragana_vec om)
          = store_units us (Map.empty, replicate index_ascii_hiragana_vec_length [])
      \<and> unat (blocks_offset header) + length blocks = length dict \<and> drop (unat (blocks_offset header)) dict = blocks
      \<and> length blocks < 2 ^ 32 \<and> distinct (map fst us)
      \<and> (\<forall>k. k \<in> set (map fst us) \<longleftrightarrow> entries_with k es \<noteq> [])
      \<and> (\<forall>(k, infos) \<in> set us. block_of_key es blocks k infos))"

lemma created_units:
  assumes tw: "twoway_documented tw" and ok: "\<forall>p \<in> set entries. served_entry p"
  obtains kbs us blocks where "create_temporary_block_map entries = Ok kbs" "divide_blocks tw kbs 0 = Ok (us, blocks)"
    "distinct (map fst us)" "\<And>k. k \<in> set (map fst us) \<longleftrightarrow> entries_with k entries \<noteq> []"
    "\<And>k infos. (k, infos) \<in> set us \<Longrightarrow> block_of_key entries blocks k infos"
proof -
  have keys: "\<forall>p \<in> set entries. \<exists>k. get_dictionary_midashi_key (fst p) = Ok k"
    using ok by (auto simp: served_entry_def good_midashi_def)
  from temporary_block_map_blocks [OF this] obtain ks where ks:
    "create_temporary_block_map entries = Ok (map (\<lambda>k. (k, block_of (entries_with k entries))) ks)"
    "distinct ks" "\<And>k. k \<in> set ks \<longleftrightarrow> entries_with k entries \<noteq> []" by blast
  have sub: "p \<in> set (entries_with k entries) \<Longrightarrow> p \<in> set entries \<and> get_dictionary_midashi_key (fst p) = Ok k" for p k
    by (simp add: entries_with_def)
  have indexed: "indexed_key k" if "k \<in> set ks" for k
  proof -
    have "entries_with k entries \<noteq> []" using that ks(3) by blast
    then have "hd (entries_with k entries) \<in> set (entries_with k entries)" by (rule hd_in_set)
    from sub [OF this] ok show ?thesis by (auto simp: served_entry_def good_midashi_def)
  qed
  have "\<forall>k \<in> set ks. entries_with k entries \<noteq> [] \<and> (\<forall>p \<in> set (entries_with k entries). entry_ok p \<and> short_entry p)"
    using ks(3) sub ok served_entry_ok by (auto simp: served_entry_def)
  from divide_blocks_groups [OF tw this, of 0] obtain us blocks where us:
    "divide_blocks tw (map (\<lambda>k. (k, block_of (entries_with k entries))) ks) 0 = Ok (us, blocks)"
    "map fst us = ks"
    "\<And>k infos. (k, infos) \<in> set us \<Longrightarrow> \<exists>gs pre post. concat gs = entries_with k entries \<and> good_groups gs
       \<and> infos = rev (infos_for (length pre) 0 gs) \<and> blocks = pre @ padded (block_of (entries_with k entries)) @ post"
    by fastforce
  have "block_of_key entries blocks k infos" if u: "(k, infos) \<in> set us" for k infos
  proof -
    have k: "k \<in> set ks" using u us(2) by force
    have "length infos = length gs" if "infos = rev (infos_for b 0 gs)" for b gs using that by simp
    then show ?thesis
      using us(3) [OF u] indexed [OF k] ks(3) [of k] k unfolding block_of_key_def by (metis concat.simps(1) length_0_conv)
  qed
  then show ?thesis using that [OF ks(1) us(1)] us(2) ks(2,3) by simp
qed

lemma created_dictionary_holds:
  assumes tw: "twoway_documented tw" and sha: "\<And>x. length (sha1 x) = sha1sum_length" and n: "0 < n"
    and ok: "\<forall>p \<in> set entries. served_entry p"
    and sizes: "sizes_fit e tw entries table" and once: "once_init_encoding_table e table once = Ok once'"
  shows "\<exists>dict om us blocks. create_dictionary e tw sha1 enc table (Ok entries) = Ok dict
    \<and> dictionary_setup e sha1 n (Some dict) once = Ok (om, once') \<and> holds_entries entries enc dict om us blocks"
proof -
  from created_units [OF tw ok] obtain kbs us blocks where kbs: "create_temporary_block_map entries = Ok kbs"
    and us: "divide_blocks tw kbs 0 = Ok (us, blocks)" "distinct (map fst us)"
      "\<And>k. k \<in> set (map fst us) \<longleftrightarrow> entries_with k entries \<noteq> []"
      "\<And>k infos. (k, infos) \<in> set us \<Longrightarrow> block_of_key entries blocks k infos" by blast
  have fit: "fits e [u]" if "u \<in> set us" for u
    using sizes that by (simp add: sizes_fit_def kbs us(1) list_all_iff)
  have unit: "length (fst u) = 4 \<and> infos_ok (snd u)" if u: "u \<in> set us" for u
  proof -
    obtain k infos where u': "u = (k, infos)" by (cases u)
    from us(4) [OF u [unfolded u']] obtain gs and pre :: bytes where gs: "length k = 4" "concat gs = entries_with k entries"
      "good_groups gs" "infos = rev (infos_for (length pre) 0 gs)"
      unfolding block_of_key_def indexed_key_def by blast
    have "concat gs \<noteq> []" using gs(2) us(3) [of k] u u' by force
    moreover have "\<forall>p \<in> set (concat gs). entry_ok p"
      using gs(2) ok served_entry_ok by (auto simp: entries_with_def)
    ultimately have "infos_ok (rev (infos_for (length pre) 0 gs))"
      using group_infos_ok [OF _ gs(1,3)] fit [OF u] u' gs(4) by blast
    then show ?thesis using u' gs by simp
  qed
  from create_index_data_units [OF kbs us(1), of e] fit unit obtain gs where gs: "concat gs = us" "\<forall>g \<in> set gs. fits e g"
    and cr: "create_index_data e tw entries = Ok \<lparr>
      cr_index_data_header = index_data_header_to_bytes e
        \<lparr>block_buffer_length = of_nat index_data_block_length, block_header_length = of_nat (length gs)\<rparr>
        @ headers_bytes e gs,
      cr_index_data = units_bytes e us, cr_blocks = blocks\<rparr>" by blast
  define r where "r = \<lparr>
      cr_index_data_header = index_data_header_to_bytes e
        \<lparr>block_buffer_length = of_nat index_data_block_length, block_header_length = of_nat (length gs)\<rparr>
        @ headers_bytes e gs,
      cr_index_data = units_bytes e us, cr_blocks = blocks\<rparr>"
  have cr': "create_index_data e tw entries = Ok r" by (simp add: cr r_def)
  have r: "cr_index_data_header r = index_data_header_to_bytes e
        \<lparr>block_buffer_length = of_nat index_data_block_length, block_header_length = of_nat (length gs)\<rparr>
        @ headers_bytes e gs" "cr_index_data r = units_bytes e (concat gs)" "cr_blocks r = blocks"
    by (simp_all add: r_def gs(1))
  have size: "dictionary_size (length table) (length (cr_index_data_header r)) (length (cr_index_data r))
      (length (cr_blocks r)) + 4096 < 2 ^ 32"
    using sizes by (simp add: sizes_fit_def cr')
  have us_ok: "units_ok (concat gs)" using unit by (simp add: units_ok_def list_all_iff gs(1))
  define maps where "maps = store_units us (Map.empty, replicate index_ascii_hiragana_vec_length [])"
  from dictionary_setup_created [where ?sha1.0 = sha1 and enc = enc, OF sha n cr' r(1,2) us_ok gs(2) size once]
  obtain dict header where d: "create_dictionary e tw sha1 enc table (Ok entries) = Ok dict"
    "dictionary_setup e sha1 n (Some dict) once = Ok (\<lparr>dictionary_fixed_header = header,
       index_map = fst maps, index_ascii_hiragana_vec = snd maps\<rparr>, once')"
    "header_encoding header = encoding_as_u32 enc"
    "unat (blocks_offset header) + length blocks = length dict" "drop (unat (blocks_offset header)) dict = blocks"
    unfolding gs(1) r(3) maps_def [symmetric] by blast
  have blocks_size: "length blocks < 2 ^ 32" using size by (simp add: dictionary_size_def r(3))
  have "\<forall>(k, infos) \<in> set us. block_of_key entries blocks k infos" using us(4) by blast
  then have "holds_entries entries enc dict
      \<lparr>dictionary_fixed_header = header, index_map = fst maps, index_ascii_hiragana_vec = snd maps\<rparr> us blocks"
    unfolding holds_entries_def Let_def on_memory.simps prod.collapse
    using d(3-5) blocks_size us(2,3) by (intro conjI) (simp_all only: maps_def prod.collapse simp_thms)
  then show ?thesis using d(1,2) by blast
qed

lemma holds_entries_vectors:
  assumes "holds_entries es enc dict om us blocks" and "indexed_key k"
  shows "get_block_information_vectors om k = Ok (map_of us k)"
proof -
  let ?maps = "(index_map om, index_ascii_hiragana_vec om)"
  have maps: "?maps = store_units us (Map.empty, replicate index_ascii_hiragana_vec_length [])"
    and us: "\<forall>u \<in> set us. indexed_key (fst u) \<and> snd u \<noteq> []" "distinct (map fst us)"
    using assms(1) by (auto simp: holds_entries_def Let_def block_of_key_def)
  have "stored ?maps k = map_of us k" "length (snd ?maps) = index_ascii_hiragana_vec_length"
    using stored_units [OF us assms(2), of "(Map.empty, replicate index_ascii_hiragana_vec_length [])"]
      get_ascii_hiragana_vec_index_less [of k]
    unfolding maps by (auto simp: stored_def split: option.splits)
  then show ?thesis using vectors_stored [of ?maps "dictionary_fixed_header om" k] by (cases om) simp
qed

lemma holds_entries_lookup:
  assumes tw: "twoway_documented tw" and asc: "ascending entries" and ok: "\<forall>p \<in> set entries. served_entry p"
    and holds: "holds_entries entries enc dict om us blocks"
    and m: "good_midashi m" "get_dictionary_midashi_key m = Ok key" and df: "df_valid df" "df_file df = dict"
  shows "\<exists>df'. read_candidates_from_dictionary tw om key m df [0x31]
      = (Ok (0x31 # (case map_of entries m of None \<Rightarrow> [] | Some c \<Rightarrow> c)), df') \<and> df_valid df' \<and> df_file df' = dict"
proof -
  have key: "indexed_key key" and sp: "space \<notin> set m" using m by (auto simp: good_midashi_def)
  have vec: "get_block_information_vectors om key = Ok (map_of us key)"
    by (rule holds_entries_vectors [OF holds key])
  have es: "map_of (entries_with key entries) m = map_of entries m"
    using map_of_entries_with [OF ascending_distinct [OF asc] m(2)] .
  show ?thesis
  proof (cases "map_of us key")
    case None
    then have "entries_with key entries = []"
      using holds map_of_eq_None_iff [of us key] by (auto simp: holds_entries_def Let_def)
    then have "map_of entries m = None" using es by simp
    then show ?thesis using vec None df by (simp add: read_candidates_from_dictionary_def)
  next
    case (Some infos)
    have "block_of_key entries blocks key infos"
      using holds map_of_SomeD [OF Some] by (auto simp: holds_entries_def Let_def)
    then obtain gs pre post where g:
      "concat gs = entries_with key entries" "good_groups gs" "infos = rev (infos_for (length pre) 0 gs)"
      "blocks = pre @ padded (block_of (entries_with key entries)) @ post" unfolding block_of_key_def by blast
    have "\<forall>p \<in> set (entries_with key entries). served_entry p" using ok by (simp add: entries_with_def)
    moreover have "drop (unat (blocks_offset (dictionary_fixed_header om))) (df_file df) = blocks"
      "unat (blocks_offset (dictionary_fixed_header om)) + length blocks = length (df_file df)" "length blocks < 2 ^ 32"
      using holds df(2) by (simp_all add: holds_entries_def Let_def)
    ultimately show ?thesis
      using unit_lookup [OF tw ascending_entries_with [OF asc] _ g df(1) _ _ _ sp] vec Some es df(2)
      by (simp add: read_candidates_from_dictionary_def)
  qed
qed

lemma created_dictionary_lookup':
  assumes tw: "twoway_documented tw" and sha: "\<And>x. length (sha1 x) = sha1sum_length" and n: "0 < n"
    and asc: "ascending entries" and ok: "\<forall>p \<in> set entries. served_entry p"
    and sizes: "sizes_fit e tw entries table" and once: "once_init_encoding_table e table once = Ok once'"
  shows "\<exists>dict om. create_dictionary e tw sha1 enc table (Ok entries) = Ok dict
    \<and> dictionary_setup e sha1 n (Some dict) once = Ok (om, once')
    \<and> (\<forall>m key df. good_midashi m \<and> get_dictionary_midashi_key m = Ok key \<and> df_valid df \<and> df_file df = dict \<longrightarrow>
         (\<exists>df'. read_candidates_from_dictionary tw om key m df [0x31]
            = (Ok (0x31 # (case map_of entries m of None \<Rightarrow> [] | Some c \<Rightarrow> c)), df')
            \<and> df_valid df' \<and> df_file df' = dict))"
proof -
  obtain dict om us blocks where d: "create_dictionary e tw sha1 enc table (Ok entries) = Ok dict"
    "dictionary_setup e sha1 n (Some dict) once = Ok (om, once')" "holds_entries entries enc dict om us blocks"
    using created_dictionary_holds [where ?sha1.0 = sha1, OF tw sha n ok sizes once] by blast
  show ?thesis
    using d(1,2) holds_entries_lookup [OF tw asc ok d(3)] by (intro exI [of _ dict] exI [of _ om]) blast
qed

text \<open>C2: For every sorted list of entries whose sizes fit, the creator makes a file, the setup of the server accepts it, and the lookup of any midashi in the file gives what the list of entries holds for it: its candidates, or nothing. Whichever unit was read before, through the same buffer, does not matter.\<close>

theorem created_dictionary_lookup:
  assumes "twoway_documented tw" and "\<And>x. length (sha1 x) = sha1sum_length" and "0 < n"
    and "ascending entries" and "\<forall>p \<in> set entries. served_entry p"
    and "sizes_fit e tw entries table" and "once_init_encoding_table e table once = Ok once'"
  shows "\<exists>dict om. create_dictionary e tw sha1 enc table (Ok entries) = Ok dict
    \<and> dictionary_setup e sha1 n (Some dict) once = Ok (om, once')
    \<and> (\<forall>m key df. good_midashi m \<and> get_dictionary_midashi_key m = Ok key \<and> df_valid df \<and> df_file df = dict \<longrightarrow>
         (\<exists>df'. read_candidates_from_dictionary tw om key m df [0x31]
            = (Ok (0x31 # (case map_of entries m of None \<Rightarrow> [] | Some c \<Rightarrow> c)), df')
            \<and> df_valid df' \<and> df_file df' = dict))"
  using created_dictionary_lookup' [OF assms] .

lemma key_of_request:
  "get_dictionary_midashi_key m = Ok k \<Longrightarrow> get_dictionary_midashi_key (m @ xs) = Ok k"
  by (auto simp: get_dictionary_midashi_key_def and_then_eq_Ok index_res_def nth_append split: if_splits)

lemma found_entry_answer:
  assumes "google_timing (reader_config rd) = NotFound" and "get_dictionary_midashi_key m = Ok key"
    and "read_candidates_from_dictionary (the_twoway env) (reader_on_memory rd) key m df [0x31] = (Ok (0x31 # c), df')"
    and "c \<noteq> []"
  shows "read_candidates t env rd df g (0x31 # m @ [space]) = (Ok (0x31 # c), df', g)"
proof -
  have "get_midashi (0x31 # m @ [space]) = Ok m"
    by (simp add: get_midashi_def slice_res_def slice_def)
  moreover have "tail_res (0x31 # m @ [space]) 1 = Ok (m @ [space])" by (simp add: tail_res_def)
  moreover have "\<not> is_empty_candidates (0x31 # c)" using assms(4) by (simp add: is_empty_candidates_def)
  ultimately show ?thesis
    using assms(1,3) key_of_request [OF assms(2)] by (simp add: read_candidates_def)
qed

lemma holds_entries_answer:
  assumes tw: "twoway_documented (the_twoway env)" and asc: "ascending entries" and ok: "\<forall>p \<in> set entries. served_entry p"
    and holds: "holds_entries entries enc dict om us blocks"
    and cfg: "\<not> is_midashi_utf8 cfg" "google_timing cfg = NotFound"
    and m: "(m, c) \<in> set entries" "length m + 2 \<le> protocol_maximum_length"
    and st: "df_valid (request_file st)" "df_file (request_file st) = dict" "write_outcomes (request_output st) = []"
  shows "\<exists>st'. handle_client t env (server_setup cfg om server_new) st (0x31 # m @ [space]) = Ok (Continue, st')
      \<and> sent (request_output st') = sent (request_output st) @ 0x31 # c @ [lf]
      \<and> write_outcomes (request_output st') = []
      \<and> df_valid (request_file st') \<and> df_file (request_file st') = dict"
proof -
  have served: "served_entry (m, c)" using ok m(1) by blast
  then obtain key where key: "get_dictionary_midashi_key m = Ok key" "good_midashi m"
    by (auto simp: served_entry_def good_midashi_def)
  have c: "map_of entries m = Some c" "c \<noteq> []"
    using ascending_distinct [OF asc] m(1) served by (auto simp: served_entry_def)
  from holds_entries_lookup [OF tw asc ok holds key(2,1) st(1,2)] c(1) obtain df' where df':
    "read_candidates_from_dictionary (the_twoway env) om key m (request_file st) [0x31] = (Ok (0x31 # c), df')"
    "df_valid df'" "df_file df' = dict" by auto
  have "read_candidates t env (server_dictionary (server_setup cfg om server_new)) (request_file st)
      (request_cache st) (0x31 # m @ [space]) = (Ok (0x31 # c), df', request_cache st)"
    using df'(1) cfg(2) key(1) c(2)
    by (intro found_entry_answer) (simp_all add: server_setup_def dictionary_reader_setup_def Let_def)
  moreover have "m \<noteq> []" using key(1) by (rule key_not_Nil)
  then have "validate_buffer_for_protocol_1_and_4 (0x31 # m @ [space])"
    using m(2) by (cases m) (simp_all add: validate_buffer_for_protocol_1_and_4_def protocol_minimum_length_def)
  ultimately show ?thesis
    using df'(2,3) st(3) cfg(1) c(2)
    by (simp add: handle_client_def with_euc_buffer_def handle_client_protocol_1_def is_empty_candidates_def
        write_all_flush_ignore_error_def) (simp add: server_setup_def)
qed

text \<open>C8: A client that asks the server for a midashi of the dictionary gets its candidates in one line, from the first creation of the file to the bytes on the socket, and the server can go on answering.\<close>

theorem served_entry_answered:
  assumes "twoway_documented (the_twoway env)" and "\<And>x. length (sha1 x) = sha1sum_length" and "0 < n"
    and "ascending entries" and "\<forall>p \<in> set entries. served_entry p"
    and "sizes_fit e (the_twoway env) entries table" and "once_init_encoding_table e table once = Ok once'"
    and "\<not> is_midashi_utf8 cfg" and "google_timing cfg = NotFound"
    and "(m, c) \<in> set entries" and "length m + 2 \<le> protocol_maximum_length"
  shows "\<exists>dict om. create_dictionary e (the_twoway env) sha1 enc table (Ok entries) = Ok dict
    \<and> dictionary_setup e sha1 n (Some dict) once = Ok (om, once')
    \<and> (\<forall>st. df_valid (request_file st) \<and> df_file (request_file st) = dict \<and> write_outcomes (request_output st) = [] \<longrightarrow>
         (\<exists>st'. handle_client t env (server_setup cfg om server_new) st (0x31 # m @ [space]) = Ok (Continue, st')
            \<and> sent (request_output st') = sent (request_output st) @ 0x31 # c @ [lf]
            \<and> df_valid (request_file st') \<and> df_file (request_file st') = dict))"
proof -
  obtain dict om us blocks where d: "create_dictionary e (the_twoway env) sha1 enc table (Ok entries) = Ok dict"
    "dictionary_setup e sha1 n (Some dict) once = Ok (om, once')" "holds_entries entries enc dict om us blocks"
    using created_dictionary_holds [where ?sha1.0 = sha1 and enc = enc, OF assms(1-3,5-7)] by blast
  show ?thesis
    using d(1,2) holds_entries_answer [OF assms(1,4,5) d(3) assms(8-11)] by (intro exI [of _ dict] exI [of _ om]) blast
qed

section \<open>Witnesses\<close>

text \<open>A dictionary of one entry, \<open>a /b/\<close>.\<close>

definition sample_entries :: "(bytes \<times> bytes) list" where
  "sample_entries = [([0x61], [0x2f, 0x62, 0x2f])]"

lemma sample_served: "\<forall>p \<in> set sample_entries. served_entry p"
  by (simp add: sample_entries_def served_entry_def good_midashi_def get_dictionary_midashi_key_def index_res_def in_range_def
      indexed_key_def short_entry_def entry_line_def dictionary_block_unit_length_def)

lemma sample_map: "create_temporary_block_map sample_entries = Ok [([0x61, 0, 0, 0], [0x0a, 0x61, 0x20, 0x2f, 0x62, 0x2f, 0x0a])]"
  by (simp add: sample_entries_def create_temporary_block_map_def get_dictionary_midashi_key_def index_res_def in_range_def entry_line_def)

lemma sample_infos: "get_dictionary_block_informations naive_twoway [0x0a, 0x61, 0x20, 0x2f, 0x62, 0x2f, 0x0a] 0
   = Ok ([\<lparr>info_midashi = [0x61], info_offset = 0, info_length = 7\<rparr>],
         [0x0a, 0x61, 0x20, 0x2f, 0x62, 0x2f, 0x0a] @ replicate 9 0x58)"
  by (simp add: get_dictionary_block_informations_def get_max_entry_length_def max_entry_loop.simps tail_res_def
     naive_twoway_def block_informations_loop.simps next_unit_def dictionary_block_unit_length_def
     slice_res_def slice_def get_block_aligned_length_def block_alignment_length_def Let_def)

lemma sample_index: "create_index_data Little naive_twoway sample_entries = Ok \<lparr>
   cr_index_data_header = index_data_header_to_bytes Little \<lparr>block_buffer_length = 65536, block_header_length = 1\<rparr>
     @ block_header_to_bytes Little \<lparr>bh_offset = 0, bh_length = 21, bh_unit_length = 1\<rparr>,
   cr_index_data = index_unit Little [0x61, 0, 0, 0] [\<lparr>info_midashi = [0x61], info_offset = 0, info_length = 7\<rparr>],
   cr_blocks = [0x0a, 0x61, 0x20, 0x2f, 0x62, 0x2f, 0x0a] @ replicate 9 0x58\<rparr>"
  by (simp add: create_index_data_def sample_map index_data_step_def index_state_new_def sample_infos
    push_block_header_def index_data_block_length_def index_unit_def Let_def block_heads_to_bytes_def offset_length_to_bytes_def
    index_data_header_to_bytes_def)

lemma sample_sizes: "sizes_fit Little naive_twoway sample_entries []"
  by (simp add: sizes_fit_def sample_map sample_infos sample_index fits_def units_bytes_def index_unit_def
     dictionary_size_def padding_for_def index_data_block_length_def block_heads_to_bytes_def offset_length_to_bytes_def
     index_data_header_to_bytes_def block_header_to_bytes_def)

lemma sample_ascending: "ascending sample_entries"
  by (simp add: ascending_def sample_entries_def)


theorem created_dictionary_lookup_witness:
  "\<exists>dict om df'. create_dictionary Little naive_twoway sample_sha1 Euc [] (Ok sample_entries) = Ok dict
    \<and> dictionary_setup Little sample_sha1 16 (Some dict) (Some (fresh_vecs tables_new)) = Ok (om, Some (fresh_vecs tables_new))
    \<and> read_candidates_from_dictionary naive_twoway om [0x61, 0, 0, 0] [0x61] (dictionary_file_new dict 0) [0x31]
        = (Ok [0x31, 0x2f, 0x62, 0x2f], df')"
proof -
  have m: "good_midashi [0x61]" "get_dictionary_midashi_key [0x61] = Ok [0x61, 0, 0, 0]"
    by (simp_all add: good_midashi_def get_dictionary_midashi_key_def index_res_def in_range_def indexed_key_def)
  have found: "map_of sample_entries [0x61] = Some [0x2f, 0x62, 0x2f]" by (simp add: sample_entries_def)
  have n: "0 < (16 :: nat)" by simp
  have once: "once_init_encoding_table Little [] (Some (fresh_vecs tables_new)) = Ok (Some (fresh_vecs tables_new))"
    by (simp add: once_init_encoding_table_def)
  from created_dictionary_lookup [where ?sha1.0 = sample_sha1 and enc = Euc,
      OF naive_twoway_documented length_sample_sha1 n sample_ascending sample_served sample_sizes once]
  obtain dict om where d: "create_dictionary Little naive_twoway sample_sha1 Euc [] (Ok sample_entries) = Ok dict"
    "dictionary_setup Little sample_sha1 16 (Some dict) (Some (fresh_vecs tables_new)) = Ok (om, Some (fresh_vecs tables_new))"
    and a: "\<And>m key df. good_midashi m \<Longrightarrow> get_dictionary_midashi_key m = Ok key \<Longrightarrow> df_valid df \<Longrightarrow> df_file df = dict \<Longrightarrow>
       \<exists>df'. read_candidates_from_dictionary naive_twoway om key m df [0x31]
         = (Ok (0x31 # (case map_of sample_entries m of None \<Rightarrow> [] | Some c \<Rightarrow> c)), df')" by blast
  have "df_file (dictionary_file_new dict 0) = dict" by (simp add: dictionary_file_new_def)
  from a [OF m dictionary_file_new_valid this] show ?thesis using d unfolding found by auto
qed

theorem served_entry_answered_witness:
  "\<exists>dict om st'. create_dictionary Little naive_twoway sample_sha1 Euc [] (Ok sample_entries) = Ok dict
    \<and> dictionary_setup Little sample_sha1 16 (Some dict) (Some (fresh_vecs tables_new)) = Ok (om, Some (fresh_vecs tables_new))
    \<and> handle_client (fresh_vecs tables_new) sample_outside (server_setup config_new om server_new)
        (sample_state\<lparr>request_file := dictionary_file_new dict 0\<rparr>) [0x31, 0x61, 0x20] = Ok (Continue, st')
    \<and> sent (request_output st') = [0x31, 0x2f, 0x62, 0x2f, 0x0a]"
proof -
  have tw: "the_twoway sample_outside = naive_twoway" by (simp add: sample_outside_def)
  have "\<exists>dict om. create_dictionary Little naive_twoway sample_sha1 Euc [] (Ok sample_entries) = Ok dict
    \<and> dictionary_setup Little sample_sha1 16 (Some dict) (Some (fresh_vecs tables_new)) = Ok (om, Some (fresh_vecs tables_new))
    \<and> (\<forall>st. df_valid (request_file st) \<and> df_file (request_file st) = dict \<and> write_outcomes (request_output st) = [] \<longrightarrow>
         (\<exists>st'. handle_client (fresh_vecs tables_new) sample_outside (server_setup config_new om server_new) st
              (0x31 # [0x61] @ [space]) = Ok (Continue, st')
            \<and> sent (request_output st') = sent (request_output st) @ 0x31 # [0x2f, 0x62, 0x2f] @ [lf]
            \<and> df_valid (request_file st') \<and> df_file (request_file st') = dict))"
  proof -
    have n: "0 < (16 :: nat)" by simp
    have once: "once_init_encoding_table Little [] (Some (fresh_vecs tables_new)) = Ok (Some (fresh_vecs tables_new))"
      by (simp add: once_init_encoding_table_def)
    have cfg: "\<not> is_midashi_utf8 config_new" "google_timing config_new = NotFound" by (simp_all add: config_new_def)
    have p: "([0x61], [0x2f, 0x62, 0x2f]) \<in> set sample_entries" "length [0x61 :: u8] + 2 \<le> protocol_maximum_length"
      by (simp_all add: sample_entries_def protocol_maximum_length_def)
    show ?thesis
      using served_entry_answered [where env = sample_outside and ?sha1.0 = sample_sha1 and enc = Euc, unfolded tw,
          OF naive_twoway_documented length_sample_sha1 n sample_ascending sample_served sample_sizes once cfg p] .
  qed
  then obtain dict om where d: "create_dictionary Little naive_twoway sample_sha1 Euc [] (Ok sample_entries) = Ok dict"
    "dictionary_setup Little sample_sha1 16 (Some dict) (Some (fresh_vecs tables_new)) = Ok (om, Some (fresh_vecs tables_new))"
    and a: "\<And>st. df_valid (request_file st) \<Longrightarrow> df_file (request_file st) = dict \<Longrightarrow> write_outcomes (request_output st) = [] \<Longrightarrow>
         \<exists>st'. handle_client (fresh_vecs tables_new) sample_outside (server_setup config_new om server_new) st
              (0x31 # [0x61] @ [space]) = Ok (Continue, st')
            \<and> sent (request_output st') = sent (request_output st) @ 0x31 # [0x2f, 0x62, 0x2f] @ [lf]"
    by blast
  show ?thesis
    using d a [of "sample_state\<lparr>request_file := dictionary_file_new dict 0\<rparr>"] dictionary_file_new_valid
    by (simp add: sample_state_def) (simp add: dictionary_file_new_def)
qed

end
