(* ===== verification/Unit_Search.thy ===== *)
theory Unit_Search
  imports Dictionary_Lookup
begin

text \<open>
  Which unit of a key is read (\<open>src/skk/yaskkserv2/dictionary_reader.rs\<close>): the binary search of the index
  against its reference, and a consequence of its answer for the completions.
\<close>


lemma abbrev_outer_stops:
  assumes tw: "twoway_documented tw" and i: "i < length infos"
    and read: "dictionary_file_read (unat offset_of_blocks + unat (info_offset (infos ! i)))
        (unat (info_length (infos ! i))) df = (Ok buffer, df')"
    and none: "\<And>j. \<not> occurs_at buffer (lf # midashi) j"
  shows "abbrev_outer tw midashi infos offset_of_blocks max_completions i 0 df result = (Ok result, df')"
proof -
  have "find_bytes tw buffer (lf # midashi) = None"
    using tw none unfolding twoway_documented_def by (metis (mono_tags, lifting) not_None_eq option.case(2))
  then have "abbrev_inner tw midashi buffer max_completions 0 0 result = Ok (True, 0, result)"
    by (subst abbrev_inner.simps) (simp add: tail_res_def Let_def)
  then show ?thesis
    using i read by (subst abbrev_outer.simps) (simp add: Let_def)
qed

text \<open>C40: Completions that begin in a later unit are missed: when the unit that the search names has no midashi with the given beginning, the answer is empty, whatever the units behind it hold.\<close>

theorem completions_of_next_unit_missed:
  assumes "twoway_documented tw" and "get_dictionary_midashi_key m = Ok key"
    and "get_block_information_vectors om key = Ok (Some infos)" and "descending infos"
    and "header_encoding (dictionary_fixed_header om) = encoding_as_u32 Euc"
    and "unit_index m infos < length infos"
    and "dictionary_file_read
        (unat (blocks_offset (dictionary_fixed_header om)) + unat (info_offset (infos ! unit_index m infos)))
        (unat (info_length (infos ! unit_index m infos))) df = (Ok buffer, df')"
    and "\<And>j. \<not> occurs_at buffer (lf # m) j"
  shows "read_abbrev t tw cfg om df (0x34 # m @ [space]) = (Ok [0x31], df')"
proof -
  have "get_midashi (0x34 # m @ [space]) = Ok m" by (simp add: get_midashi_def slice_res_def slice_def)
  moreover have "tail_res (0x34 # m @ [space]) 1 = Ok (m @ [space])" by (simp add: tail_res_def)
  moreover have "encoding_from_u32 (encoding_as_u32 Euc) = Ok Euc" by (simp add: encoding_from_u32_def)
  ultimately show ?thesis
    using assms(3-6) key_of_request [OF assms(2)] get_block_informations_index_eq [OF assms(4)]
      abbrev_outer_stops [OF assms(1) assms(6-8)]
    by (simp add: read_abbrev_def read_dictionary_for_read_abbrev_def Let_def)
qed

section \<open>Witnesses\<close>

text \<open>Forty units, their first midashi from 40 down to 1.\<close>

definition sample_units :: "block_information list" where
  "sample_units = map (\<lambda>i. \<lparr>info_midashi = [of_nat (40 - i)], info_offset = 0, info_length = 0\<rparr>) [0..<40]"


text \<open>Two units: \<open>a /b/\<close>, and \<open>abc /c/\<close> behind it.\<close>

definition sample_completion_blocks :: bytes where
  "sample_completion_blocks = [0x0a, 0x61, 0x20, 0x2f, 0x62, 0x2f, 0x0a] @ [0x0a, 0x61, 0x62, 0x63, 0x20, 0x2f, 0x63, 0x2f, 0x0a]"

definition sample_completion_units :: "block_information list" where
  "sample_completion_units = [\<lparr>info_midashi = [0x61, 0x62, 0x63], info_offset = 7, info_length = 9\<rparr>,
     \<lparr>info_midashi = [0x61], info_offset = 0, info_length = 7\<rparr>]"

definition sample_completion_index :: "block_information list \<Rightarrow> on_memory" where
  "sample_completion_index infos =
     on_memory_new\<lparr>index_ascii_hiragana_vec := (replicate 256 [])[0x61 := infos]\<rparr>"

theorem completions_of_next_unit_missed_witness:
  "fst (read_abbrev (fresh_vecs tables_new) naive_twoway config_new (sample_completion_index sample_completion_units)
     (dictionary_file_new sample_completion_blocks 0) [0x34, 0x61, 0x62, 0x20]) = Ok [0x31]
   \<and> fst (read_abbrev (fresh_vecs tables_new) naive_twoway config_new (sample_completion_index [hd sample_completion_units])
     (dictionary_file_new sample_completion_blocks 0) [0x34, 0x61, 0x62, 0x20]) = Ok [0x31, 0x2f, 0x61, 0x62, 0x63, 0x2f]"
proof
  let ?om = "sample_completion_index sample_completion_units" and ?df = "dictionary_file_new sample_completion_blocks 0"
  let ?unit = "take 7 sample_completion_blocks"
  have key: "get_dictionary_midashi_key [0x61, 0x62] = Ok [0x61, 0, 0, 0]"
    by (simp add: get_dictionary_midashi_key_def index_res_def in_range_def)
  have vectors: "get_block_information_vectors (sample_completion_index infos) [0x61, 0, 0, 0]
      = Ok (if infos = [] then None else Some infos)" for infos
    by (simp add: get_block_information_vectors_def get_ascii_hiragana_vec_index_def in_range_def index_res_def
        sample_completion_index_def)
  have at: "unit_index [0x61, 0x62] sample_completion_units = 1"
    by (simp add: unit_index_def sample_completion_units_def)
  have "fst (dictionary_file_read 0 7 ?df) = Ok ?unit"
    using unit_cache.result [OF dictionary_file_new_valid, of 0 7 sample_completion_blocks 0]
    by (simp add: read_exact_at_def sample_completion_blocks_def slice_def) (simp add: dictionary_file_new_def slice_def)
  then obtain df' where read: "dictionary_file_read 0 7 ?df = (Ok ?unit, df')"
    by (cases "dictionary_file_read 0 7 ?df") simp
  have "find_bytes naive_twoway ?unit (lf # [0x61, 0x62]) = None"
    by (simp add: naive_twoway_def sample_completion_blocks_def)
  then have none: "\<not> occurs_at ?unit (lf # [0x61, 0x62]) j" for j
    using naive_twoway_documented unfolding twoway_documented_def by (metis (mono_tags, lifting) option.case(1))
  have "read_abbrev (fresh_vecs tables_new) naive_twoway config_new ?om ?df (0x34 # [0x61, 0x62] @ [space]) = (Ok [0x31], df')"
    by (rule completions_of_next_unit_missed [OF naive_twoway_documented key _ _ _ _ _ none,
          of _ sample_completion_units])
      (simp_all add: vectors at read, simp_all add: sample_completion_units_def descending_def sample_completion_index_def
        on_memory_new_def fixed_header_new_def read)
  then show "fst (read_abbrev (fresh_vecs tables_new) naive_twoway config_new ?om ?df [0x34, 0x61, 0x62, 0x20]) = Ok [0x31]"
    by simp
  let ?next = "drop 7 sample_completion_blocks" and ?first = "hd sample_completion_units"
  have "fst (dictionary_file_read 7 9 ?df) = Ok ?next"
    using unit_cache.result [OF dictionary_file_new_valid, of 7 9 sample_completion_blocks 0]
    by (simp add: read_exact_at_def sample_completion_blocks_def slice_def) (simp add: dictionary_file_new_def slice_def)
  then obtain df'' where read': "dictionary_file_read 7 9 ?df = (Ok ?next, df'')"
    by (cases "dictionary_file_read 7 9 ?df") simp
  have inner: "abbrev_inner naive_twoway [0x61, 0x62] ?next (unat (max_server_completions config_new)) 0 0 [0x31]
      = Ok (False, 1, [0x31, 0x2f, 0x61, 0x62, 0x63])"
    by (simp add: abbrev_inner.simps sample_completion_blocks_def tail_res_def naive_twoway_def slice_res_def slice_def
        is_okuri_ari_def quote_and_add_prefix_def need_quote.simps quote_chars_def quote_byte_plain config_new_def Let_def
        default_max_server_completions_def)
  have outer: "abbrev_outer naive_twoway [0x61, 0x62] [?first] 0 (unat (max_server_completions config_new)) 0 0 ?df [0x31]
      = (Ok [0x31, 0x2f, 0x61, 0x62, 0x63], df'')"
    using inner read' by (subst abbrev_outer.simps) (simp add: sample_completion_units_def)
  have at': "get_block_informations_index [0x61, 0x62] [?first] = Ok 1"
    using get_block_informations_index_eq [of "[?first]" "[0x61, 0x62]"]
    by (simp add: descending_def unit_index_def sample_completion_units_def)
  have header: "header_encoding (dictionary_fixed_header (sample_completion_index infos)) = 0"
    "blocks_offset (dictionary_fixed_header (sample_completion_index infos)) = 0" for infos
    by (simp_all add: sample_completion_index_def on_memory_new_def fixed_header_new_def)
  show "fst (read_abbrev (fresh_vecs tables_new) naive_twoway config_new (sample_completion_index [?first])
     ?df [0x34, 0x61, 0x62, 0x20]) = Ok [0x31, 0x2f, 0x61, 0x62, 0x63, 0x2f]"
    using outer at'
    by (simp add: read_abbrev_def read_dictionary_for_read_abbrev_def get_midashi_def slice_res_def slice_def tail_res_def
        get_dictionary_midashi_key_def index_res_def in_range_def vectors header encoding_from_u32_def Let_def)
qed

end
