(* ===== verification/Command_Line.thy ===== *)
theory Command_Line
  imports Skk_Types Std_Text
begin

text \<open>
  The command line of the server (\<open>src/skk/yaskkserv2/command_line.rs\<close>) and of the creator of dictionaries
  (\<open>src/skk/yaskkserv2_make_dictionary/command_line.rs\<close>). \<open>clap\<close>, which splits the arguments, and the regular
  expressions are parameters; the tables of the arguments are kept, and \<open>clap\<close> is documented to return
  only values that their validators accept, or defaults.
\<close>

section \<open>Text to numbers and addresses\<close>

definition text_of :: "bytes \<Rightarrow> string" where
  "text_of bs = map (\<lambda>b. char_of (unat b)) bs"

definition decimal_text :: "nat \<Rightarrow> string" where
  "decimal_text n = text_of (to_decimal n)"

definition parse_i32 :: "string \<Rightarrow> int option" where
  "parse_i32 s = i32_from_str (ascii s)"

definition parse_unsigned :: "nat \<Rightarrow> string \<Rightarrow> nat option" where
  "parse_unsigned bits s = from_str_radix 10 (2 ^ bits - 1) (ascii s)"

text \<open>
  \<open>IpAddr::from_str\<close> of the standard library: four decimal groups without leading zeros, or eight
  hexadecimal groups, of which \<open>::\<close> leaves some out and the last two may be an IPv4 address. A parser
  returns what it leaves.
\<close>

fun read_digits :: "nat \<Rightarrow> nat \<Rightarrow> nat \<Rightarrow> nat \<Rightarrow> nat \<Rightarrow> bytes \<Rightarrow> (nat \<times> bytes) option" where
  "read_digits radix maximum max_digits count acc bs =
     (case bs of
        [] \<Rightarrow> if count = 0 then None else Some (count, [])
      | b # rest \<Rightarrow>
          (case digit_of radix b of
             None \<Rightarrow> if count = 0 then None else Some (count, bs)
           | Some d \<Rightarrow>
               if acc * radix + d > maximum \<or> count + 1 > max_digits then None
               else read_digits radix maximum max_digits (count + 1) (acc * radix + d) rest))"

declare read_digits.simps [simp del]

definition read_number :: "nat \<Rightarrow> nat \<Rightarrow> nat \<Rightarrow> bool \<Rightarrow> bytes \<Rightarrow> bytes option" where
  "read_number radix maximum max_digits allow_zero_prefix bs =
     (case read_digits radix maximum max_digits 0 0 bs of
        None \<Rightarrow> None
      | Some (count, rest) \<Rightarrow> if \<not> allow_zero_prefix \<and> hd bs = 0x30 \<and> count > 1 then None else Some rest)"

definition read_given_char :: "u8 \<Rightarrow> bytes \<Rightarrow> bytes option" where
  "read_given_char c bs = (case bs of [] \<Rightarrow> None | b # rest \<Rightarrow> if b = c then Some rest else None)"

definition read_separator :: "u8 \<Rightarrow> bool \<Rightarrow> (bytes \<Rightarrow> bytes option) \<Rightarrow> bytes \<Rightarrow> bytes option" where
  "read_separator separator is_first inner bs =
     (if is_first then inner bs else Option.bind (read_given_char separator bs) inner)"

definition read_ipv4_group :: "bool \<Rightarrow> bytes \<Rightarrow> bytes option" where
  "read_ipv4_group is_first bs = read_separator 0x2e is_first (read_number 10 255 3 False) bs"

definition read_ipv4_addr :: "bytes \<Rightarrow> bytes option" where
  "read_ipv4_addr bs =
     Option.bind (read_ipv4_group True bs) (\<lambda>r1. Option.bind (read_ipv4_group False r1) (\<lambda>r2.
     Option.bind (read_ipv4_group False r2) (read_ipv4_group False)))"

text \<open>The number of groups read, and whether the last two were an IPv4 address.\<close>

fun read_groups :: "nat \<Rightarrow> nat \<Rightarrow> bytes \<Rightarrow> nat \<times> bool \<times> bytes" where
  "read_groups i 0 bs = (i, False, bs)"
| "read_groups i (Suc left) bs =
     (case (if left > 0 then read_separator 0x3a (i = 0) read_ipv4_addr bs else None) of
        Some rest \<Rightarrow> (i + 2, True, rest)
      | None \<Rightarrow>
          (case read_separator 0x3a (i = 0) (read_number 16 65535 4 True) bs of
             Some rest \<Rightarrow> read_groups (i + 1) left rest
           | None \<Rightarrow> (i, False, bs)))"

definition read_ipv6_addr :: "bytes \<Rightarrow> bytes option" where
  "read_ipv6_addr bs =
     (let (head_size, head_ipv4, rest) = read_groups 0 8 bs in
      if head_size = 8 then Some rest
      else if head_ipv4 then None
      else Option.bind (read_given_char 0x3a rest) (\<lambda>r1. Option.bind (read_given_char 0x3a r1) (\<lambda>r2.
           let (tail_size, tail_ipv4, r3) = read_groups 0 (8 - (head_size + 1)) r2 in Some r3)))"

definition parse_ip_addr :: "string \<Rightarrow> bool" where
  "parse_ip_addr s \<longleftrightarrow>
     (case read_ipv4_addr (ascii s) of
        Some rest \<Rightarrow> rest = []
      | None \<Rightarrow> read_ipv6_addr (ascii s) = Some [])"

section \<open>Validators\<close>

text \<open>What a configuration depends on outside the program: the files that exist, and the regular expressions.\<close>

record surroundings =
  path_exists :: "string \<Rightarrow> bool"
  re_ascii :: "string \<Rightarrow> bool"
  re_comment :: "string \<Rightarrow> bool"
  re_assignment :: "string \<Rightarrow> (string \<times> string) option"
  re_enable :: "string \<Rightarrow> bool"

definition range_validator :: "('a :: linorder) option \<Rightarrow> 'a \<Rightarrow> 'a \<Rightarrow> bool" where
  "range_validator parsed minimum maximum =
     (case parsed of None \<Rightarrow> False | Some v \<Rightarrow> \<not> (v < minimum \<or> v > maximum))"

definition dictionary_validator :: "surroundings \<Rightarrow> string \<Rightarrow> bool" where
  "dictionary_validator env value = path_exists env value"

definition port_validator :: "string \<Rightarrow> bool" where
  "port_validator value = range_validator (parse_i32 value) 0 65535"

definition max_connection :: nat where
  "max_connection = 1024"

definition max_connections_validator :: "string \<Rightarrow> bool" where
  "max_connections_validator value = range_validator (parse_i32 value) 1 (int max_connection)"

definition listen_address_validator :: "string \<Rightarrow> bool" where
  "listen_address_validator value = parse_ip_addr value"

definition hostname_and_ip_address_address_validator :: "surroundings \<Rightarrow> string \<Rightarrow> bool" where
  "hostname_and_ip_address_address_validator env value = re_ascii env value"

definition google_timeout_milliseconds_validator :: "string \<Rightarrow> bool" where
  "google_timeout_milliseconds_validator value = range_validator (parse_unsigned 64 value) 0 (5 * 60 * 1000)"

definition google_cache_entries_validator :: "string \<Rightarrow> bool" where
  "google_cache_entries_validator value = range_validator (parse_unsigned 64 value) 1 (1024 * 1024)"

definition google_cache_expire_seconds_validator :: "string \<Rightarrow> bool" where
  "google_cache_expire_seconds_validator value =
     range_validator (parse_unsigned 64 value) 1 (100 * 365 * 24 * 60 * 60)"

definition google_max_candidates_length_validator :: "string \<Rightarrow> bool" where
  "google_max_candidates_length_validator value = range_validator (parse_unsigned 64 value) 1 1024"

definition max_server_completions_validator :: "string \<Rightarrow> bool" where
  "max_server_completions_validator value = range_validator (parse_i32 value) 1 (64 * 1024)"

text \<open>The number, or the value for a failure and the flag that asks for help.\<close>

definition parse_integer :: "'a option \<Rightarrow> 'a \<Rightarrow> bool \<Rightarrow> 'a \<times> bool" where
  "parse_integer parsed fail_value is_help_exit =
     (case parsed of Some v \<Rightarrow> (v, is_help_exit) | None \<Rightarrow> (fail_value, True))"

section \<open>The arguments\<close>

record cli_arg =
  arg_name :: string
  arg_validator :: "string \<Rightarrow> bool"
  arg_default :: "string option"

definition yaskkserv2_args :: "surroundings \<Rightarrow> cli_arg list" where
  "yaskkserv2_args env =
    [\<lparr>arg_name = ''dictionary'', arg_validator = dictionary_validator env, arg_default = None\<rparr>,
     \<lparr>arg_name = ''config-filename'', arg_validator = (\<lambda>_. True), arg_default = None\<rparr>,
     \<lparr>arg_name = ''port'', arg_validator = port_validator, arg_default = Some (decimal_text (nat default_port))\<rparr>,
     \<lparr>arg_name = ''max-connections'', arg_validator = max_connections_validator,
       arg_default = Some (decimal_text (nat default_max_connections))\<rparr>,
     \<lparr>arg_name = ''listen-address'', arg_validator = listen_address_validator, arg_default = Some ''0.0.0.0''\<rparr>,
     \<lparr>arg_name = ''hostname-and-ip-address-for-protocol-3'',
       arg_validator = hostname_and_ip_address_address_validator env, arg_default = Some ''localhost:127.0.0.1''\<rparr>,
     \<lparr>arg_name = ''google-timeout-milliseconds'', arg_validator = google_timeout_milliseconds_validator,
       arg_default = Some (decimal_text (unat default_google_timeout_milliseconds))\<rparr>,
     \<lparr>arg_name = ''google-cache-filename'', arg_validator = (\<lambda>_. True), arg_default = None\<rparr>,
     \<lparr>arg_name = ''google-cache-entries'', arg_validator = google_cache_entries_validator,
       arg_default = Some (decimal_text default_google_cache_entries)\<rparr>,
     \<lparr>arg_name = ''google-cache-expire-seconds'', arg_validator = google_cache_expire_seconds_validator,
       arg_default = Some (decimal_text (unat default_google_cache_expire_seconds))\<rparr>,
     \<lparr>arg_name = ''google-max-candidates-length'', arg_validator = google_max_candidates_length_validator,
       arg_default = Some (decimal_text default_google_max_candidates_length)\<rparr>,
     \<lparr>arg_name = ''max-server-completions'', arg_validator = max_server_completions_validator,
       arg_default = Some (decimal_text (unat default_max_server_completions))\<rparr>,
     \<lparr>arg_name = ''google-japanese-input'',
       arg_validator = (\<lambda>v. v \<in> {''notfound'', ''disable'', ''last'', ''first''}), arg_default = None\<rparr>]"

text \<open>What \<open>clap\<close> makes of the arguments.\<close>

record cli_matches =
  value_of :: "string \<Rightarrow> string option"
  values_of :: "string \<Rightarrow> string list option"
  is_present :: "string \<Rightarrow> bool"

definition clap_documented :: "cli_arg list \<Rightarrow> cli_matches \<Rightarrow> bool" where
  "clap_documented args m \<longleftrightarrow>
     (\<forall>a \<in> set args. \<forall>v. value_of m (arg_name a) = Some v \<longrightarrow> arg_validator a v \<or> arg_default a = Some v)"

definition set_value :: "string \<Rightarrow> (string \<Rightarrow> config \<Rightarrow> config) \<Rightarrow> cli_matches \<Rightarrow> config \<Rightarrow> config" where
  "set_value name update m cfg = (case value_of m name of None \<Rightarrow> cfg | Some v \<Rightarrow> update v cfg)"

definition set_integer ::
  "string \<Rightarrow> (string \<Rightarrow> 'a option) \<Rightarrow> 'a \<Rightarrow> ('a \<Rightarrow> config \<Rightarrow> config) \<Rightarrow> cli_matches \<Rightarrow> config \<times> bool \<Rightarrow> config \<times> bool" where
  "set_integer name parse fail_value update m st =
     (case value_of m name of
        None \<Rightarrow> st
      | Some v \<Rightarrow> let (n, help) = parse_integer (parse v) fail_value (snd st) in (update n (fst st), help))"

text \<open>The configuration, and the flags that end the program with or without help.\<close>

definition command_line_setup :: "cli_matches \<Rightarrow> config \<Rightarrow> config \<times> bool \<times> bool" where
  "command_line_setup m cfg =
     (let cfg = set_value ''dictionary'' (\<lambda>v c. c\<lparr>dictionary_full_path := v\<rparr>) m cfg;
          is_exit = is_present m ''version'';
          cfg = set_value ''config-filename'' (\<lambda>v c. c\<lparr>full_path := v\<rparr>) m cfg;
          cfg = (if is_present m ''no-daemonize'' then cfg\<lparr>is_no_daemonize := True\<rparr> else cfg);
          cfg = set_value ''port'' (\<lambda>v c. c\<lparr>port := v\<rparr>) m cfg;
          (cfg, help) = set_integer ''max-connections'' parse_i32 0 (\<lambda>n c. c\<lparr>max_connections := n\<rparr>) m (cfg, False);
          cfg = set_value ''listen-address'' (\<lambda>v c. c\<lparr>listen_address := v\<rparr>) m cfg;
          cfg = set_value ''hostname-and-ip-address-for-protocol-3''
                  (\<lambda>v c. c\<lparr>hostname_and_ip_address_for_protocol_3 := v\<rparr>) m cfg;
          (cfg, help) = set_integer ''google-timeout-milliseconds'' (parse_unsigned 64) 0
                  (\<lambda>n c. c\<lparr>google_timeout_milliseconds := of_nat n\<rparr>) m (cfg, help);
          cfg = set_value ''google-cache-filename''
                  (\<lambda>v c. c\<lparr>is_google_cache_enabled := True, google_cache_full_path := v\<rparr>) m cfg;
          (cfg, help) = set_integer ''google-cache-entries'' (parse_unsigned 64) 0
                  (\<lambda>n c. c\<lparr>google_cache_entries := n\<rparr>) m (cfg, help);
          (cfg, help) = set_integer ''google-cache-expire-seconds'' (parse_unsigned 64) 0
                  (\<lambda>n c. c\<lparr>google_cache_expire_seconds := of_nat n\<rparr>) m (cfg, help);
          (cfg, help) = set_integer ''max-server-completions'' (parse_unsigned 32) 0
                  (\<lambda>n c. c\<lparr>max_server_completions := of_nat n\<rparr>) m (cfg, help);
          (cfg, help) =
            (case value_of m ''google-japanese-input'' of
               None \<Rightarrow> (cfg, help)
             | Some v \<Rightarrow>
                 if v = ''notfound'' then (cfg\<lparr>google_timing := NotFound\<rparr>, help)
                 else if v = ''disable'' then (cfg\<lparr>google_timing := Disable\<rparr>, help)
                 else if v = ''last'' then (cfg\<lparr>google_timing := Last\<rparr>, help)
                 else if v = ''first'' then (cfg\<lparr>google_timing := First\<rparr>, help)
                 else (cfg, True));
          (cfg, help) =
            (if is_present m ''google-use-http'' then
               (if google_timing cfg = Disable then (cfg, True) else (cfg\<lparr>is_http_enabled := True\<rparr>, help))
             else (cfg, help));
          cfg = (if is_present m ''midashi-utf8'' then cfg\<lparr>is_midashi_utf8 := True\<rparr> else cfg);
          (cfg, help) =
            (if is_present m ''google-suggest'' then
               (if google_timing cfg = Disable then (cfg, True) else (cfg\<lparr>is_google_suggest_enabled := True\<rparr>, help))
             else (cfg, help))
      in (cfg, help, is_exit))"

definition command_line_new :: config where
  "command_line_new = config_new"

text \<open>Whether the program ends here; \<open>print_help\<close> may fail.\<close>

definition command_line_start :: "cli_matches \<Rightarrow> bool \<Rightarrow> config \<Rightarrow> bool res \<times> config" where
  "command_line_start m print_help_ok cfg =
     (let (cfg', help, is_exit) = command_line_setup m cfg
      in (if help \<and> \<not> print_help_ok then Err CommandLine else Ok (help \<or> is_exit), cfg'))"

section \<open>The arguments of the creator\<close>

record make_command_line =
  make_config :: config
  jisyo_full_paths :: "string list"
  output_jisyo_full_path :: string
  input_cache_full_path :: string

definition make_command_line_new :: make_command_line where
  "make_command_line_new = \<lparr>make_config = config_new, jisyo_full_paths = [], output_jisyo_full_path = '''',
     input_cache_full_path = ''''\<rparr>"

definition jisyo_validator :: "surroundings \<Rightarrow> string \<Rightarrow> bool" where
  "jisyo_validator env value = path_exists env value"

definition is_unique_jisyo_args :: "cli_matches \<Rightarrow> bool" where
  "is_unique_jisyo_args m =
     (case values_of m ''jisyo'' of Some s \<Rightarrow> length s = card (set s) | None \<Rightarrow> True)"

text \<open>Arguments that occur twice are only reported.\<close>

definition make_command_line_start :: "cli_matches \<Rightarrow> bool \<Rightarrow> make_command_line \<Rightarrow> bool res \<times> make_command_line" where
  "make_command_line_start m print_help_ok c =
     (let c = (case values_of m ''jisyo'' of Some ps \<Rightarrow> c\<lparr>jisyo_full_paths := ps\<rparr> | None \<Rightarrow> c);
          cfg = (make_config c)\<lparr>config_encoding := if is_present m ''utf8'' then Utf8 else Euc\<rparr>;
          cfg = set_value ''dictionary-filename'' (\<lambda>v c. c\<lparr>dictionary_full_path := v\<rparr>) m cfg;
          c = (case value_of m ''cache-filename'' of Some v \<Rightarrow> c\<lparr>input_cache_full_path := v\<rparr> | None \<Rightarrow> c);
          c = (case value_of m ''output-jisyo-filename'' of Some v \<Rightarrow> c\<lparr>output_jisyo_full_path := v\<rparr> | None \<Rightarrow> c);
          c = c\<lparr>make_config := cfg\<lparr>is_verbose := is_present m ''verbose''\<rparr>\<rparr>;
          help = (if jisyo_full_paths c = [] then output_jisyo_full_path c = ''''
                  else dictionary_full_path (make_config c) = '''')
      in (if help \<and> \<not> print_help_ok then Err CommandLine else Ok help, c))"

end
