(* ===== verification/Config_File.thy ===== *)
theory Config_File
  imports Command_Line
begin

text \<open>
  The configuration file (\<open>src/skk/yaskkserv2/config_file.rs\<close>). A value of the file counts where the
  command line left the default. The theorems: the configuration of the server is valid whatever the two
  contain, the command line goes first, and where it does not.
\<close>

section \<open>Reading the file\<close>

record config_file =
  file_config :: config
  default_config :: config

definition config_file_new :: "config \<Rightarrow> config_file" where
  "config_file_new cfg = \<lparr>file_config = cfg, default_config = config_new\<rparr>"

text \<open>The lines of \<open>BufRead::lines\<close>: without LF or CR LF; a line that is not UTF-8 is an error.\<close>

definition text_line :: "bytes \<Rightarrow> bytes" where
  "text_line l =
     (if l \<noteq> [] \<and> last l = lf then
        (let l' = butlast l in if l' \<noteq> [] \<and> last l' = cr then butlast l' else l')
      else l)"

fun config_lines ::
  "surroundings \<Rightarrow> bytes list \<Rightarrow> (string \<rightharpoonup> string) \<Rightarrow> (string \<rightharpoonup> string) res" where
  "config_lines env [] candidates = Ok candidates"
| "config_lines env (l # ls) candidates =
     (if \<not> utf8_valid (text_line l) then Err Io
      else
        let line = text_of (text_line l) in
        if length line < 2 \<or> re_comment env line then config_lines env ls candidates
        else case re_assignment env line of
               Some (key, v) \<Rightarrow> config_lines env ls (candidates(key \<mapsto> v))
             | None \<Rightarrow> config_lines env ls candidates)"

section \<open>The values\<close>

text \<open>An error message is printed; what remains of it is the error of the command line.\<close>

definition take_value ::
  "(string \<rightharpoonup> string) \<Rightarrow> string \<Rightarrow> (config \<Rightarrow> bool) \<Rightarrow> (string \<Rightarrow> bool) \<Rightarrow> (string \<Rightarrow> config \<Rightarrow> config)
     \<Rightarrow> config \<Rightarrow> config res" where
  "take_value candidates key unset validator update cfg =
     (case candidates key of
        None \<Rightarrow> Ok cfg
      | Some v \<Rightarrow>
          if unset cfg then (if validator v then Ok (update v cfg) else Err CommandLine) else Ok cfg)"

definition take_integer ::
  "(string \<rightharpoonup> string) \<Rightarrow> string \<Rightarrow> (config \<Rightarrow> bool) \<Rightarrow> (string \<Rightarrow> bool) \<Rightarrow> (string \<Rightarrow> 'a option) \<Rightarrow> 'a
     \<Rightarrow> ('a \<Rightarrow> config \<Rightarrow> config) \<Rightarrow> config \<Rightarrow> config res" where
  "take_integer candidates key unset validator parse fail_value update cfg =
     take_value candidates key unset validator
       (\<lambda>v. update (fst (parse_integer (parse v) fail_value False))) cfg"

definition take_google_bool ::
  "surroundings \<Rightarrow> (string \<rightharpoonup> string) \<Rightarrow> string \<Rightarrow> (config \<Rightarrow> bool) \<Rightarrow> (bool \<Rightarrow> config \<Rightarrow> config)
     \<Rightarrow> config \<Rightarrow> config res" where
  "take_google_bool env candidates key unset update cfg =
     (case candidates key of
        None \<Rightarrow> Ok cfg
      | Some v \<Rightarrow>
          if unset cfg then
            (let is_enabled = re_enable env v in
             if is_enabled \<and> google_timing cfg = Disable then Err CommandLine
             else Ok (update is_enabled cfg))
          else Ok cfg)"

definition timing_of :: "string \<Rightarrow> google_timing" where
  "timing_of v = (if v = ''notfound'' then NotFound else if v = ''disable'' then Disable
     else if v = ''last'' then Last else if v = ''first'' then First else NotFound)"

definition validate_and_set_config :: "surroundings \<Rightarrow> (string \<rightharpoonup> string) \<Rightarrow> config_file \<Rightarrow> config res" where
  "validate_and_set_config env candidates f =
     (let d = default_config f in
      and_then (take_value candidates ''dictionary'' (\<lambda>c. dictionary_full_path c = '''') (dictionary_validator env)
          (\<lambda>v c. c\<lparr>dictionary_full_path := v\<rparr>) (file_config f)) (\<lambda>c.
      and_then (take_value candidates ''port'' (\<lambda>c. port c = port d) port_validator
          (\<lambda>v c. c\<lparr>port := v\<rparr>) c) (\<lambda>c.
      and_then (take_integer candidates ''max-connections'' (\<lambda>c. max_connections c = max_connections d)
          max_connections_validator parse_i32 0 (\<lambda>n c. c\<lparr>max_connections := n\<rparr>) c) (\<lambda>c.
      and_then (take_value candidates ''listen-address'' (\<lambda>c. listen_address c = listen_address d)
          listen_address_validator (\<lambda>v c. c\<lparr>listen_address := v\<rparr>) c) (\<lambda>c.
      and_then (take_value candidates ''hostname-and-ip-address-for-protocol-3''
          (\<lambda>c. hostname_and_ip_address_for_protocol_3 c = hostname_and_ip_address_for_protocol_3 d)
          (hostname_and_ip_address_address_validator env)
          (\<lambda>v c. c\<lparr>hostname_and_ip_address_for_protocol_3 := v\<rparr>) c) (\<lambda>c.
      and_then (take_integer candidates ''google-timeout-milliseconds''
          (\<lambda>c. google_timeout_milliseconds c = google_timeout_milliseconds d)
          google_timeout_milliseconds_validator (parse_unsigned 64) 0
          (\<lambda>n c. c\<lparr>google_timeout_milliseconds := of_nat n\<rparr>) c) (\<lambda>c.
      and_then (take_value candidates ''google-cache-filename''
          (\<lambda>c. google_cache_full_path c = google_cache_full_path d) (\<lambda>_. True)
          (\<lambda>v c. c\<lparr>google_cache_full_path := v\<rparr>) c) (\<lambda>c.
      and_then (take_integer candidates ''google-cache-entries''
          (\<lambda>c. google_cache_entries c = google_cache_entries d) google_cache_entries_validator
          (parse_unsigned 64) 0 (\<lambda>n c. c\<lparr>google_cache_entries := n\<rparr>) c) (\<lambda>c.
      and_then (take_integer candidates ''google-cache-expire-seconds''
          (\<lambda>c. google_cache_expire_seconds c = google_cache_expire_seconds d)
          google_cache_expire_seconds_validator (parse_unsigned 64) 0
          (\<lambda>n c. c\<lparr>google_cache_expire_seconds := of_nat n\<rparr>) c) (\<lambda>c.
      and_then (take_integer candidates ''google-max-candidates-length''
          (\<lambda>c. google_max_candidates_length c = google_max_candidates_length d)
          google_max_candidates_length_validator (parse_unsigned 64) 0
          (\<lambda>n c. c\<lparr>google_max_candidates_length := n\<rparr>) c) (\<lambda>c.
      and_then (take_integer candidates ''max-server-completions''
          (\<lambda>c. max_server_completions c = max_server_completions d)
          max_server_completions_validator (parse_unsigned 32) 0
          (\<lambda>n c. c\<lparr>max_server_completions := of_nat n\<rparr>) c) (\<lambda>c.
      and_then (take_value candidates ''google-japanese-input'' (\<lambda>c. google_timing c = google_timing d) (\<lambda>_. True)
          (\<lambda>v c. c\<lparr>google_timing := timing_of v\<rparr>) c) (\<lambda>c.
      and_then (take_google_bool env candidates ''google-use-http'' (\<lambda>c. is_http_enabled c = is_http_enabled d)
          (\<lambda>b c. c\<lparr>is_http_enabled := b\<rparr>) c) (\<lambda>c.
      and_then (take_google_bool env candidates ''google-suggest''
          (\<lambda>c. is_google_suggest_enabled c = is_google_suggest_enabled d)
          (\<lambda>b c. c\<lparr>is_google_suggest_enabled := b\<rparr>) c) (\<lambda>c.
      and_then (take_google_bool env candidates ''google-insert-hiragana-only-candidate''
          (\<lambda>c. google_insert_hiragana_only_candidate c = google_insert_hiragana_only_candidate d)
          (\<lambda>b c. c\<lparr>google_insert_hiragana_only_candidate := b\<rparr>) c) (\<lambda>c.
      and_then (take_google_bool env candidates ''google-insert-katakana-only-candidate''
          (\<lambda>c. google_insert_katakana_only_candidate c = google_insert_katakana_only_candidate d)
          (\<lambda>b c. c\<lparr>google_insert_katakana_only_candidate := b\<rparr>) c) (\<lambda>c.
      take_google_bool env candidates ''google-insert-hankaku-katakana-only-candidate''
          (\<lambda>c. google_insert_hankaku_katakana_only_candidate c = google_insert_hankaku_katakana_only_candidate d)
          (\<lambda>b c. c\<lparr>google_insert_hankaku_katakana_only_candidate := b\<rparr>) c)))))))))))))))))"

text \<open>A file that cannot be opened is no error.\<close>

definition config_file_read :: "surroundings \<Rightarrow> (string \<Rightarrow> bytes option) \<Rightarrow> config_file \<Rightarrow> config_file res" where
  "config_file_read env files f =
     (case files (full_path (file_config f)) of
        None \<Rightarrow> Ok f
      | Some content \<Rightarrow>
          and_then (config_lines env (lines_of content) Map.empty) (\<lambda>candidates.
          and_then (validate_and_set_config env candidates f) (\<lambda>cfg. Ok (f\<lparr>file_config := cfg\<rparr>))))"

section \<open>Valid configurations\<close>

definition valid_config :: "surroundings \<Rightarrow> config \<Rightarrow> bool" where
  "valid_config env c \<longleftrightarrow>
     port_validator (port c) \<and> 1 \<le> max_connections c \<and> max_connections c \<le> int max_connection
     \<and> parse_ip_addr (listen_address c)
     \<and> (re_ascii env (hostname_and_ip_address_for_protocol_3 c)
          \<or> hostname_and_ip_address_for_protocol_3 c = hostname_and_ip_address_for_protocol_3 config_new)
     \<and> google_timeout_milliseconds c \<le> 300000
     \<and> 1 \<le> google_cache_entries c \<and> google_cache_entries c \<le> 1024 * 1024
     \<and> 1 \<le> google_cache_expire_seconds c \<and> google_cache_expire_seconds c \<le> 3153600000
     \<and> 1 \<le> google_max_candidates_length c \<and> google_max_candidates_length c \<le> 1024
     \<and> 1 \<le> max_server_completions c \<and> max_server_completions c \<le> 64 * 1024"

lemma parse_ip_addr_default: "parse_ip_addr ''0.0.0.0''"
  by (simp add: parse_ip_addr_def read_ipv4_addr_def read_ipv4_group_def read_separator_def read_number_def
      read_digits.simps digit_of_def in_range_def read_given_char_def ascii_def)

lemma port_default: "port_validator ''1178''"
  by (simp add: port_validator_def range_validator_def parse_i32_def i32_from_str_def from_str_radix_def
      digit_of_def in_range_def ascii_def)

lemma config_new_valid: "valid_config env config_new"
  by (simp add: valid_config_def config_new_def port_default parse_ip_addr_default max_connection_def
      default_max_connections_def default_google_timeout_milliseconds_def default_google_cache_entries_def
      default_google_cache_expire_seconds_def default_google_max_candidates_length_def
      default_max_server_completions_def)

text \<open>A number of an \<open>i32\<close> argument that is at least one is also the number of an unsigned type.\<close>

lemma parse_digits_mono:
  "parse_digits radix m acc s = Some n \<Longrightarrow> m \<le> m' \<Longrightarrow> parse_digits radix m' acc s = Some n"
  by (induction s arbitrary: acc) (auto split: option.splits if_splits)

lemma from_str_radix_mono:
  "from_str_radix radix m s = Some n \<Longrightarrow> m \<le> m' \<Longrightarrow> from_str_radix radix m' s = Some n"
  using parse_digits_mono [of radix m 0 _ n m']
  by (auto simp: from_str_radix_def simp del: parse_digits.simps split: list.splits if_splits)

lemma parse_u32_of_i32:
  assumes "parse_i32 v = Some n" and "1 \<le> n"
  shows "parse_unsigned 32 v = Some (nat n)"
proof (cases "ascii v")
  case Nil
  then show ?thesis using assms(1) by (simp add: parse_i32_def i32_from_str_def)
next
  case (Cons b bs)
  have "b \<noteq> 0x2d"
    using assms Cons by (auto simp: parse_i32_def i32_from_str_def split: if_splits)
  then have "map_option int (from_str_radix 10 (2 ^ 31 - 1) (ascii v)) = Some n"
    using assms(1) Cons by (simp add: parse_i32_def i32_from_str_def)
  then obtain k where k: "from_str_radix 10 (2 ^ 31 - 1) (ascii v) = Some k" "n = int k" by auto
  have "from_str_radix 10 (2 ^ 32 - 1) (ascii v) = Some k"
    by (rule from_str_radix_mono [OF k(1)]) simp
  then show ?thesis using k(2) by (simp add: parse_unsigned_def)
qed

text \<open>The defaults are numbers that the validators accept.\<close>

lemma ascii_decimal_text [simp]: "ascii (decimal_text n) = to_decimal n"
proof -
  have "of_char (char_of (unat b) :: char) = b" for b :: u8
  proof -
    have "unat b < 256" using unsigned_less [where ?'a = nat and w = b] by simp
    have "(of_char (char_of (unat b) :: char) :: u8) = of_nat (of_char (char_of (unat b) :: char))"
      by (simp only: of_nat_of_char)
    also have "\<dots> = of_nat (unat b mod 256)" by (simp only: of_char_of)
    also have "\<dots> = b" using \<open>unat b < 256\<close> by simp
    finally show ?thesis .
  qed
  then show ?thesis by (simp add: ascii_def decimal_text_def text_of_def comp_def)
qed

lemma to_decimal_Cons:
  obtains b bs where "to_decimal n = b # bs" "b \<noteq> 0x2b" "b \<noteq> 0x2d"
proof (cases "to_decimal n")
  case (Cons b bs)
  then have "in_range 0x30 0x39 b" using to_decimal_digits [of b n] by simp
  then have "b \<noteq> 0x2b" "b \<noteq> 0x2d" by (auto simp: in_range_def)
  then show ?thesis using that Cons by blast
qed simp

lemma parse_decimal_text:
  "n \<le> 2 ^ bits - 1 \<Longrightarrow> parse_unsigned bits (decimal_text n) = Some n"
  "n \<le> 2 ^ 31 - 1 \<Longrightarrow> parse_i32 (decimal_text n) = Some (int n)"
proof -
  note radix = from_str_radix_to_decimal [of n]
  show "n \<le> 2 ^ bits - 1 \<Longrightarrow> parse_unsigned bits (decimal_text n) = Some n"
    by (simp add: parse_unsigned_def radix)
  show "n \<le> 2 ^ 31 - 1 \<Longrightarrow> parse_i32 (decimal_text n) = Some (int n)"
    using radix [of "2 ^ 31 - 1"]
    by (cases rule: to_decimal_Cons [of n]) (simp add: parse_i32_def i32_from_str_def del: power_Suc)
qed

section \<open>The command line\<close>

lemma documented_arg:
  assumes "clap_documented args m" and "a \<in> set args" and "value_of m (arg_name a) = Some v"
    and "\<And>d. arg_default a = Some d \<Longrightarrow> arg_validator a d"
  shows "arg_validator a v"
  using assms unfolding clap_documented_def by blast

lemma documented_values:
  assumes "clap_documented (yaskkserv2_args env) m"
  shows "value_of m ''port'' = Some v \<Longrightarrow> port_validator v"
    and "value_of m ''max-connections'' = Some v \<Longrightarrow> max_connections_validator v"
    and "value_of m ''listen-address'' = Some v \<Longrightarrow> listen_address_validator v"
    and "value_of m ''hostname-and-ip-address-for-protocol-3'' = Some v \<Longrightarrow>
      re_ascii env v \<or> v = ''localhost:127.0.0.1''"
    and "value_of m ''google-timeout-milliseconds'' = Some v \<Longrightarrow> google_timeout_milliseconds_validator v"
    and "value_of m ''google-cache-entries'' = Some v \<Longrightarrow> google_cache_entries_validator v"
    and "value_of m ''google-cache-expire-seconds'' = Some v \<Longrightarrow> google_cache_expire_seconds_validator v"
    and "value_of m ''max-server-completions'' = Some v \<Longrightarrow> max_server_completions_validator v"
    and "value_of m ''google-japanese-input'' = Some v \<Longrightarrow> v \<in> {''notfound'', ''disable'', ''last'', ''first''}"
proof -
  note doc = documented_arg [OF assms, where v = v]
  note defs = yaskkserv2_args_def range_validator_def parse_decimal_text max_connection_def
    default_port_def default_max_connections_def default_google_timeout_milliseconds_def
    default_google_cache_entries_def default_google_cache_expire_seconds_def default_max_server_completions_def
  show "value_of m ''port'' = Some v \<Longrightarrow> port_validator v"
    using doc [of "yaskkserv2_args env ! 2"] by (simp add: defs port_validator_def)
  show "value_of m ''max-connections'' = Some v \<Longrightarrow> max_connections_validator v"
    using doc [of "yaskkserv2_args env ! 3"] by (simp add: defs max_connections_validator_def)
  show "value_of m ''listen-address'' = Some v \<Longrightarrow> listen_address_validator v"
    using doc [of "yaskkserv2_args env ! 4"] by (simp add: defs listen_address_validator_def parse_ip_addr_default)
  show "value_of m ''hostname-and-ip-address-for-protocol-3'' = Some v \<Longrightarrow>
      re_ascii env v \<or> v = ''localhost:127.0.0.1''"
    using assms by (force simp: clap_documented_def yaskkserv2_args_def hostname_and_ip_address_address_validator_def)
  show "value_of m ''google-timeout-milliseconds'' = Some v \<Longrightarrow> google_timeout_milliseconds_validator v"
    using doc [of "yaskkserv2_args env ! 6"] by (simp add: defs google_timeout_milliseconds_validator_def)
  show "value_of m ''google-cache-entries'' = Some v \<Longrightarrow> google_cache_entries_validator v"
    using doc [of "yaskkserv2_args env ! 8"] by (simp add: defs google_cache_entries_validator_def)
  show "value_of m ''google-cache-expire-seconds'' = Some v \<Longrightarrow> google_cache_expire_seconds_validator v"
    using doc [of "yaskkserv2_args env ! 9"] by (simp add: defs google_cache_expire_seconds_validator_def)
  show "value_of m ''max-server-completions'' = Some v \<Longrightarrow> max_server_completions_validator v"
    using doc [of "yaskkserv2_args env ! 11"] by (simp add: defs max_server_completions_validator_def)
  show "value_of m ''google-japanese-input'' = Some v \<Longrightarrow> v \<in> {''notfound'', ''disable'', ''last'', ''first''}"
    using doc [of "yaskkserv2_args env ! 12"] by (simp add: yaskkserv2_args_def)
qed

lemma set_value_keeps:
  "P cfg \<Longrightarrow> (\<And>v. value_of m name = Some v \<Longrightarrow> P (update v cfg)) \<Longrightarrow> P (set_value name update m cfg)"
  by (simp add: set_value_def split: option.split)

lemma set_integer_keeps:
  "P cfg \<Longrightarrow> (\<And>v. value_of m name = Some v \<Longrightarrow> \<exists>n. parse v = Some n \<and> P (update n cfg)) \<Longrightarrow>
   \<exists>cfg'. set_integer name parse fail_value update m (cfg, help) = (cfg', help) \<and> P cfg'"
  by (fastforce simp: set_integer_def parse_integer_def split: option.split)

lemma word_range:
  "n \<le> k \<Longrightarrow> k < 2 ^ LENGTH('a) \<Longrightarrow>
   (of_nat n :: 'a :: len word) \<le> of_nat k \<and> (1 \<le> n \<longrightarrow> 1 \<le> (of_nat n :: 'a word))"
  by (auto simp: word_le_nat_alt unsigned_of_nat take_bit_nat_eq_self)

lemma validated:
  "max_connections_validator v \<Longrightarrow> \<exists>n. parse_i32 v = Some n \<and> 1 \<le> n \<and> n \<le> int max_connection"
  "google_timeout_milliseconds_validator v \<Longrightarrow>
     \<exists>n. parse_unsigned 64 v = Some n \<and> (of_nat n :: u64) \<le> 300000"
  "google_cache_entries_validator v \<Longrightarrow> \<exists>n. parse_unsigned 64 v = Some n \<and> 1 \<le> n \<and> n \<le> 1024 * 1024"
  "google_cache_expire_seconds_validator v \<Longrightarrow>
     \<exists>n. parse_unsigned 64 v = Some n \<and> 1 \<le> (of_nat n :: u64) \<and> (of_nat n :: u64) \<le> 3153600000"
  "google_max_candidates_length_validator v \<Longrightarrow> \<exists>n. parse_unsigned 64 v = Some n \<and> 1 \<le> n \<and> n \<le> 1024"
  "max_server_completions_validator v \<Longrightarrow>
     \<exists>n. parse_unsigned 32 v = Some n \<and> 1 \<le> (of_nat n :: u32) \<and> (of_nat n :: u32) \<le> 64 * 1024"
proof -
  show "max_connections_validator v \<Longrightarrow> \<exists>n. parse_i32 v = Some n \<and> 1 \<le> n \<and> n \<le> int max_connection"
    by (auto simp: max_connections_validator_def range_validator_def split: option.splits)
  show "google_timeout_milliseconds_validator v \<Longrightarrow>
      \<exists>n. parse_unsigned 64 v = Some n \<and> (of_nat n :: u64) \<le> 300000"
    using word_range [of _ 300000, where ?'a = 64]
    by (auto simp: google_timeout_milliseconds_validator_def range_validator_def split: option.splits)
  show "google_cache_entries_validator v \<Longrightarrow> \<exists>n. parse_unsigned 64 v = Some n \<and> 1 \<le> n \<and> n \<le> 1024 * 1024"
    by (auto simp: google_cache_entries_validator_def range_validator_def split: option.splits)
  show "google_cache_expire_seconds_validator v \<Longrightarrow>
      \<exists>n. parse_unsigned 64 v = Some n \<and> 1 \<le> (of_nat n :: u64) \<and> (of_nat n :: u64) \<le> 3153600000"
    using word_range [of _ 3153600000, where ?'a = 64]
    by (auto simp: google_cache_expire_seconds_validator_def range_validator_def split: option.splits)
  show "google_max_candidates_length_validator v \<Longrightarrow> \<exists>n. parse_unsigned 64 v = Some n \<and> 1 \<le> n \<and> n \<le> 1024"
    by (auto simp: google_max_candidates_length_validator_def range_validator_def split: option.splits)
  show "max_server_completions_validator v \<Longrightarrow>
      \<exists>n. parse_unsigned 32 v = Some n \<and> 1 \<le> (of_nat n :: u32) \<and> (of_nat n :: u32) \<le> 64 * 1024"
  proof -
    assume "max_server_completions_validator v"
    then obtain n where n: "parse_i32 v = Some n" "1 \<le> n" "n \<le> 65536"
      by (auto simp: max_server_completions_validator_def range_validator_def split: option.splits)
    then have "1 \<le> nat n" "nat n \<le> 65536" by simp_all
    then show ?thesis using parse_u32_of_i32 [OF n(1,2)] word_range [of "nat n" 65536, where ?'a = 32] by auto
  qed
qed

lemma valid_config_updates:
  assumes "valid_config env c"
  shows "valid_config env (c\<lparr>dictionary_full_path := s\<rparr>)" "valid_config env (c\<lparr>full_path := s\<rparr>)"
    "valid_config env (c\<lparr>is_no_daemonize := b\<rparr>)" "valid_config env (c\<lparr>google_cache_full_path := s\<rparr>)"
    "valid_config env (c\<lparr>is_google_cache_enabled := b, google_cache_full_path := s\<rparr>)"
    "valid_config env (c\<lparr>google_timing := g\<rparr>)" "valid_config env (c\<lparr>is_http_enabled := b\<rparr>)"
    "valid_config env (c\<lparr>is_midashi_utf8 := b\<rparr>)" "valid_config env (c\<lparr>is_google_suggest_enabled := b\<rparr>)"
    "valid_config env (c\<lparr>google_insert_hiragana_only_candidate := b\<rparr>)"
    "valid_config env (c\<lparr>google_insert_katakana_only_candidate := b\<rparr>)"
    "valid_config env (c\<lparr>google_insert_hankaku_katakana_only_candidate := b\<rparr>)"
    "port_validator s \<Longrightarrow> valid_config env (c\<lparr>port := s\<rparr>)"
    "1 \<le> n \<Longrightarrow> n \<le> int max_connection \<Longrightarrow> valid_config env (c\<lparr>max_connections := n\<rparr>)"
    "listen_address_validator s \<Longrightarrow> valid_config env (c\<lparr>listen_address := s\<rparr>)"
    "re_ascii env s \<or> s = ''localhost:127.0.0.1'' \<Longrightarrow> valid_config env (c\<lparr>hostname_and_ip_address_for_protocol_3 := s\<rparr>)"
    "w \<le> 300000 \<Longrightarrow> valid_config env (c\<lparr>google_timeout_milliseconds := w\<rparr>)"
    "1 \<le> k \<Longrightarrow> k \<le> 1024 * 1024 \<Longrightarrow> valid_config env (c\<lparr>google_cache_entries := k\<rparr>)"
    "1 \<le> w \<Longrightarrow> w \<le> 3153600000 \<Longrightarrow> valid_config env (c\<lparr>google_cache_expire_seconds := w\<rparr>)"
    "1 \<le> k \<Longrightarrow> k \<le> 1024 \<Longrightarrow> valid_config env (c\<lparr>google_max_candidates_length := k\<rparr>)"
    "1 \<le> u \<Longrightarrow> u \<le> 64 * 1024 \<Longrightarrow> valid_config env (c\<lparr>max_server_completions := u\<rparr>)"
  using assms by (simp_all add: valid_config_def listen_address_validator_def config_new_def)

lemma set_integers_valid:
  assumes doc: "clap_documented (yaskkserv2_args env) m" and c: "valid_config env c"
  shows "\<exists>c'. set_integer ''max-connections'' parse_i32 0 (\<lambda>n c. c\<lparr>max_connections := n\<rparr>) m (c, h) = (c', h)
      \<and> valid_config env c'"
    and "\<exists>c'. set_integer ''google-timeout-milliseconds'' (parse_unsigned 64) 0 (\<lambda>n c. c\<lparr>google_timeout_milliseconds := of_nat n\<rparr>) m (c, h) = (c', h)
      \<and> valid_config env c'"
    and "\<exists>c'. set_integer ''google-cache-entries'' (parse_unsigned 64) 0 (\<lambda>n c. c\<lparr>google_cache_entries := n\<rparr>) m (c, h) = (c', h)
      \<and> valid_config env c'"
    and "\<exists>c'. set_integer ''google-cache-expire-seconds'' (parse_unsigned 64) 0 (\<lambda>n c. c\<lparr>google_cache_expire_seconds := of_nat n\<rparr>) m (c, h) = (c', h)
      \<and> valid_config env c'"
    and "\<exists>c'. set_integer ''max-server-completions'' (parse_unsigned 32) 0 (\<lambda>n c. c\<lparr>max_server_completions := of_nat n\<rparr>) m (c, h) = (c', h)
      \<and> valid_config env c'"
proof -
  note vals = documented_values [OF doc] and upd = valid_config_updates [OF c]
  show "\<exists>c'. set_integer ''max-connections'' parse_i32 0 (\<lambda>n c. c\<lparr>max_connections := n\<rparr>) m (c, h) = (c', h)
      \<and> valid_config env c'"
    using validated(1) [OF vals(2)] upd(14) by (intro set_integer_keeps [where P = "valid_config env"] c) blast
  show "\<exists>c'. set_integer ''google-timeout-milliseconds'' (parse_unsigned 64) 0 (\<lambda>n c. c\<lparr>google_timeout_milliseconds := of_nat n\<rparr>) m (c, h) = (c', h)
      \<and> valid_config env c'"
    using validated(2) [OF vals(5)] upd(17) by (intro set_integer_keeps [where P = "valid_config env"] c) blast
  show "\<exists>c'. set_integer ''google-cache-entries'' (parse_unsigned 64) 0 (\<lambda>n c. c\<lparr>google_cache_entries := n\<rparr>) m (c, h) = (c', h)
      \<and> valid_config env c'"
    using validated(3) [OF vals(6)] upd(18) by (intro set_integer_keeps [where P = "valid_config env"] c) blast
  show "\<exists>c'. set_integer ''google-cache-expire-seconds'' (parse_unsigned 64) 0 (\<lambda>n c. c\<lparr>google_cache_expire_seconds := of_nat n\<rparr>) m (c, h) = (c', h)
      \<and> valid_config env c'"
    using validated(4) [OF vals(7)] upd(19) by (intro set_integer_keeps [where P = "valid_config env"] c) blast
  show "\<exists>c'. set_integer ''max-server-completions'' (parse_unsigned 32) 0 (\<lambda>n c. c\<lparr>max_server_completions := of_nat n\<rparr>) m (c, h) = (c', h)
      \<and> valid_config env c'"
    using validated(6) [OF vals(8)] upd(21) by (intro set_integer_keeps [where P = "valid_config env"] c) blast
qed

lemma command_line_setup_valid:
  assumes doc: "clap_documented (yaskkserv2_args env) m" and run: "command_line_setup m config_new = (cfg, help, is_exit)"
  shows "valid_config env cfg
    \<and> (help \<longleftrightarrow> google_timing cfg = Disable \<and> (is_present m ''google-use-http'' \<or> is_present m ''google-suggest''))"
proof -
  note vals = documented_values [OF doc] and upd = valid_config_updates and keep = set_value_keeps [where P = "valid_config env"]
  define c1 where "c1 = set_value ''dictionary'' (\<lambda>v c. c\<lparr>dictionary_full_path := v\<rparr>) m config_new"
  define c2 where "c2 = set_value ''config-filename'' (\<lambda>v c. c\<lparr>full_path := v\<rparr>) m c1"
  define c3 where "c3 = (if is_present m ''no-daemonize'' then c2\<lparr>is_no_daemonize := True\<rparr> else c2)"
  define c4 where "c4 = set_value ''port'' (\<lambda>v c. c\<lparr>port := v\<rparr>) m c3"
  have "valid_config env c1" unfolding c1_def by (intro keep config_new_valid upd)
  then have "valid_config env c2" unfolding c2_def by (intro keep upd)
  then have "valid_config env c3" unfolding c3_def by (simp add: upd)
  then have 4: "valid_config env c4" unfolding c4_def by (intro keep upd vals)
  obtain c5 where c5: "set_integer ''max-connections'' parse_i32 0 (\<lambda>n c. c\<lparr>max_connections := n\<rparr>) m (c4, False) = (c5, False)"
    "valid_config env c5"
    using set_integers_valid(1) [OF doc 4] by blast
  define c6 where "c6 = set_value ''listen-address'' (\<lambda>v c. c\<lparr>listen_address := v\<rparr>) m c5"
  define c7 where "c7 = set_value ''hostname-and-ip-address-for-protocol-3''
      (\<lambda>v c. c\<lparr>hostname_and_ip_address_for_protocol_3 := v\<rparr>) m c6"
  have "valid_config env c6" unfolding c6_def using c5(2) by (intro keep upd vals)
  then have 7: "valid_config env c7" unfolding c7_def by (intro keep upd vals)
  obtain c8 where c8: "set_integer ''google-timeout-milliseconds'' (parse_unsigned 64) 0
      (\<lambda>n c. c\<lparr>google_timeout_milliseconds := of_nat n\<rparr>) m (c7, False) = (c8, False)" "valid_config env c8"
    using set_integers_valid(2) [OF doc 7] by blast
  define c9 where "c9 = set_value ''google-cache-filename''
      (\<lambda>v c. c\<lparr>is_google_cache_enabled := True, google_cache_full_path := v\<rparr>) m c8"
  have 9: "valid_config env c9" unfolding c9_def using c8(2) by (intro keep upd)
  obtain c10 where c10: "set_integer ''google-cache-entries'' (parse_unsigned 64) 0
      (\<lambda>n c. c\<lparr>google_cache_entries := n\<rparr>) m (c9, False) = (c10, False)" "valid_config env c10"
    using set_integers_valid(3) [OF doc 9] by blast
  obtain c11 where c11: "set_integer ''google-cache-expire-seconds'' (parse_unsigned 64) 0
      (\<lambda>n c. c\<lparr>google_cache_expire_seconds := of_nat n\<rparr>) m (c10, False) = (c11, False)" "valid_config env c11"
    using set_integers_valid(4) [OF doc c10(2)] by blast
  obtain c12 where c12: "set_integer ''max-server-completions'' (parse_unsigned 32) 0
      (\<lambda>n c. c\<lparr>max_server_completions := of_nat n\<rparr>) m (c11, False) = (c12, False)" "valid_config env c12"
    using set_integers_valid(5) [OF doc c11(2)] by blast
  note steps = c1_def [symmetric] c2_def [symmetric] c3_def [symmetric] c4_def [symmetric] c5(1) c6_def [symmetric]
    c7_def [symmetric] c8(1) c9_def [symmetric] c10(1) c11(1) c12(1)
  show ?thesis
  proof (cases "value_of m ''google-japanese-input''")
    case None
    then show ?thesis
      using run c12(2) unfolding command_line_setup_def Let_def steps prod.case
      by (auto simp: upd split: if_splits)
  next
    case (Some v)
    then have "v \<in> {''notfound'', ''disable'', ''last'', ''first''}" by (rule vals(9))
    then show ?thesis
      using run Some c12(2) unfolding command_line_setup_def Let_def steps prod.case
      by (auto simp: upd split: if_splits)
  qed
qed

section \<open>The configuration file\<close>

definition keeps :: "(config \<Rightarrow> bool) \<Rightarrow> (config \<Rightarrow> config res) \<Rightarrow> bool" where
  "keeps P f \<longleftrightarrow> (\<forall>c c'. P c \<longrightarrow> f c = Ok c' \<longrightarrow> P c')"

lemma keeps_and_then: "keeps P f \<Longrightarrow> keeps P g \<Longrightarrow> keeps P (\<lambda>c. and_then (f c) g)"
  unfolding keeps_def and_then_eq_Ok by blast

lemma keeps_take_value:
  "(\<And>v c. P c \<Longrightarrow> candidates key = Some v \<Longrightarrow> validator v \<Longrightarrow> unset c \<Longrightarrow> P (update v c)) \<Longrightarrow>
   keeps P (take_value candidates key unset validator update)"
  by (auto simp: keeps_def take_value_def split: option.splits if_splits)

lemma keeps_take_integer:
  "(\<And>v c. P c \<Longrightarrow> validator v \<Longrightarrow> unset c \<Longrightarrow> \<exists>n. parse v = Some n \<and> P (update n c)) \<Longrightarrow>
   keeps P (take_integer candidates key unset validator parse fail_value update)"
  by (fastforce simp: keeps_def take_integer_def take_value_def parse_integer_def split: option.splits if_splits)

lemma keeps_take_google_bool:
  "(\<And>b c. P c \<Longrightarrow> unset c \<Longrightarrow> P (update b c)) \<Longrightarrow> keeps P (take_google_bool env candidates key unset update)"
  by (auto simp: keeps_def take_google_bool_def Let_def split: option.splits if_splits)

lemmas keeps_steps = keeps_and_then keeps_take_value keeps_take_integer keeps_take_google_bool

lemma validated_updates:
  assumes "valid_config env c"
  shows "max_connections_validator v \<Longrightarrow> \<exists>n. parse_i32 v = Some n \<and> valid_config env (c\<lparr>max_connections := n\<rparr>)"
    "google_timeout_milliseconds_validator v \<Longrightarrow>
       \<exists>n. parse_unsigned 64 v = Some n \<and> valid_config env (c\<lparr>google_timeout_milliseconds := of_nat n\<rparr>)"
    "google_cache_entries_validator v \<Longrightarrow>
       \<exists>n. parse_unsigned 64 v = Some n \<and> valid_config env (c\<lparr>google_cache_entries := n\<rparr>)"
    "google_cache_expire_seconds_validator v \<Longrightarrow>
       \<exists>n. parse_unsigned 64 v = Some n \<and> valid_config env (c\<lparr>google_cache_expire_seconds := of_nat n\<rparr>)"
    "google_max_candidates_length_validator v \<Longrightarrow>
       \<exists>n. parse_unsigned 64 v = Some n \<and> valid_config env (c\<lparr>google_max_candidates_length := n\<rparr>)"
    "max_server_completions_validator v \<Longrightarrow>
       \<exists>n. parse_unsigned 32 v = Some n \<and> valid_config env (c\<lparr>max_server_completions := of_nat n\<rparr>)"
proof -
  note upd = valid_config_updates [OF assms]
  show "max_connections_validator v \<Longrightarrow>
      \<exists>n. parse_i32 v = Some n \<and> valid_config env (c\<lparr>max_connections := n\<rparr>)"
    using validated(1) [of v] upd(14) by blast
  show "google_timeout_milliseconds_validator v \<Longrightarrow>
      \<exists>n. parse_unsigned 64 v = Some n \<and> valid_config env (c\<lparr>google_timeout_milliseconds := of_nat n\<rparr>)"
    using validated(2) [of v] upd(17) by blast
  show "google_cache_entries_validator v \<Longrightarrow>
      \<exists>n. parse_unsigned 64 v = Some n \<and> valid_config env (c\<lparr>google_cache_entries := n\<rparr>)"
    using validated(3) [of v] upd(18) by blast
  show "google_cache_expire_seconds_validator v \<Longrightarrow>
      \<exists>n. parse_unsigned 64 v = Some n \<and> valid_config env (c\<lparr>google_cache_expire_seconds := of_nat n\<rparr>)"
    using validated(4) [of v] upd(19) by blast
  show "google_max_candidates_length_validator v \<Longrightarrow>
      \<exists>n. parse_unsigned 64 v = Some n \<and> valid_config env (c\<lparr>google_max_candidates_length := n\<rparr>)"
    using validated(5) [of v] upd(20) by blast
  show "max_server_completions_validator v \<Longrightarrow>
      \<exists>n. parse_unsigned 32 v = Some n \<and> valid_config env (c\<lparr>max_server_completions := of_nat n\<rparr>)"
    using validated(6) [of v] upd(21) by blast
qed

lemma validate_and_set_config_keeps:
  "keeps (valid_config env) (\<lambda>c. validate_and_set_config env candidates \<lparr>file_config = c, default_config = d\<rparr>)"
  unfolding validate_and_set_config_def Let_def config_file.simps
  by (intro keeps_steps)
    (simp_all add: valid_config_updates validated_updates hostname_and_ip_address_address_validator_def)

lemma config_file_read_cases:
  assumes "config_file_read env files (config_file_new cfg) = Ok f"
  obtains "file_config f = cfg"
  | candidates where "validate_and_set_config env candidates \<lparr>file_config = cfg, default_config = config_new\<rparr>
      = Ok (file_config f)"
  using assms by (auto simp: config_file_read_def config_file_new_def and_then_eq_Ok split: option.splits)

lemma config_file_read_keeps:
  assumes "config_file_read env files (config_file_new cfg) = Ok f" and "P cfg"
    and "\<And>candidates. keeps P (\<lambda>c. validate_and_set_config env candidates \<lparr>file_config = c, default_config = config_new\<rparr>)"
  shows "P (file_config f)"
  using assms(1) by (cases rule: config_file_read_cases) (use assms(2,3) in \<open>auto simp: keeps_def\<close>)

lemma started_config_valid:
  assumes "clap_documented (yaskkserv2_args env) m"
    and "command_line_start m print_help_ok command_line_new = (Ok False, cfg)"
    and "config_file_read env files (config_file_new cfg) = Ok f"
  shows "valid_config env (file_config f)
    \<and> \<not> (google_timing cfg = Disable \<and> (is_present m ''google-use-http'' \<or> is_present m ''google-suggest''))"
proof -
  obtain c hp is_exit where run: "command_line_setup m config_new = (c, hp, is_exit)"
    by (cases "command_line_setup m config_new") auto
  then have "c = cfg" "\<not> hp" using assms(2) by (auto simp: command_line_start_def command_line_new_def split: if_splits)
  with command_line_setup_valid [OF assms(1) run] config_file_read_keeps [OF assms(3) _ validate_and_set_config_keeps]
  show ?thesis by blast
qed

text \<open>C7: Whatever the arguments and the configuration file hold, when the server gets as far as its setup every value of its configuration is in its range: the port, one to 1024 connections, an address that parses, and the limits of the cache, the online candidates and the completions. The integers of the arguments never ask for help: only Google options without Google input do.\<close>

theorem server_config_valid:
  assumes "clap_documented (yaskkserv2_args env) m"
    and "command_line_start m print_help_ok command_line_new = (Ok False, cfg)"
    and "config_file_read env files (config_file_new cfg) = Ok f"
  shows "valid_config env (file_config f)
    \<and> \<not> (google_timing cfg = Disable \<and> (is_present m ''google-use-http'' \<or> is_present m ''google-suggest''))"
  using started_config_valid [OF assms] .


lemma set_value_frame:
  "(\<And>v c. g (update v c) = g c) \<Longrightarrow> g (set_value name update m cfg) = g cfg"
  by (simp add: set_value_def split: option.split)

lemma set_integer_frame:
  "set_integer name parse fail_value update m (c, h) = (c', h') \<Longrightarrow> (\<And>n c. g (update n c) = g c) \<Longrightarrow> g c' = g c"
  by (auto simp: set_integer_def split: option.splits prod.splits)

lemma command_line_setup_field:
  assumes run: "command_line_setup m cfg0 = (cfg, hp, is_exit)"
    and g: "\<And>c v. g (c\<lparr>dictionary_full_path := v\<rparr>) = g c" "\<And>c v. g (c\<lparr>full_path := v\<rparr>) = g c"
      "\<And>c v. g (c\<lparr>is_no_daemonize := v\<rparr>) = g c" "\<And>c v. g (c\<lparr>max_connections := v\<rparr>) = g c"
      "\<And>c v. g (c\<lparr>listen_address := v\<rparr>) = g c" "\<And>c v. g (c\<lparr>hostname_and_ip_address_for_protocol_3 := v\<rparr>) = g c"
      "\<And>c v. g (c\<lparr>google_timeout_milliseconds := v\<rparr>) = g c" "\<And>c v. g (c\<lparr>google_cache_entries := v\<rparr>) = g c"
      "\<And>c v. g (c\<lparr>google_cache_expire_seconds := v\<rparr>) = g c" "\<And>c v. g (c\<lparr>max_server_completions := v\<rparr>) = g c"
      "\<And>c v. g (c\<lparr>google_timing := v\<rparr>) = g c" "\<And>c v. g (c\<lparr>is_http_enabled := v\<rparr>) = g c"
      "\<And>c v. g (c\<lparr>is_midashi_utf8 := v\<rparr>) = g c" "\<And>c v. g (c\<lparr>is_google_suggest_enabled := v\<rparr>) = g c"
    and gp: "\<And>c v. g (c\<lparr>port := v\<rparr>) = A v (g c)"
    and gc: "\<And>c v. g (c\<lparr>is_google_cache_enabled := True, google_cache_full_path := v\<rparr>) = B v (g c)"
  shows "g cfg = (let x = (case value_of m ''port'' of None \<Rightarrow> g cfg0 | Some v \<Rightarrow> A v (g cfg0))
    in case value_of m ''google-cache-filename'' of None \<Rightarrow> x | Some v \<Rightarrow> B v x)"
proof -
  define c1 where "c1 = set_value ''dictionary'' (\<lambda>v c. c\<lparr>dictionary_full_path := v\<rparr>) m cfg0"
  define c2 where "c2 = set_value ''config-filename'' (\<lambda>v c. c\<lparr>full_path := v\<rparr>) m c1"
  define c3 where "c3 = (if is_present m ''no-daemonize'' then c2\<lparr>is_no_daemonize := True\<rparr> else c2)"
  define c4 where "c4 = set_value ''port'' (\<lambda>v c. c\<lparr>port := v\<rparr>) m c3"
  obtain c5 h5 where c5: "set_integer ''max-connections'' parse_i32 0 (\<lambda>n c. c\<lparr>max_connections := n\<rparr>) m (c4, False) = (c5, h5)"
    by fastforce
  define c6 where "c6 = set_value ''listen-address'' (\<lambda>v c. c\<lparr>listen_address := v\<rparr>) m c5"
  define c7 where "c7 = set_value ''hostname-and-ip-address-for-protocol-3''
      (\<lambda>v c. c\<lparr>hostname_and_ip_address_for_protocol_3 := v\<rparr>) m c6"
  obtain c8 h8 where c8: "set_integer ''google-timeout-milliseconds'' (parse_unsigned 64) 0
      (\<lambda>n c. c\<lparr>google_timeout_milliseconds := of_nat n\<rparr>) m (c7, h5) = (c8, h8)" by fastforce
  define c9 where "c9 = set_value ''google-cache-filename''
      (\<lambda>v c. c\<lparr>is_google_cache_enabled := True, google_cache_full_path := v\<rparr>) m c8"
  obtain c10 h10 where c10: "set_integer ''google-cache-entries'' (parse_unsigned 64) 0
      (\<lambda>n c. c\<lparr>google_cache_entries := n\<rparr>) m (c9, h8) = (c10, h10)" by fastforce
  obtain c11 h11 where c11: "set_integer ''google-cache-expire-seconds'' (parse_unsigned 64) 0
      (\<lambda>n c. c\<lparr>google_cache_expire_seconds := of_nat n\<rparr>) m (c10, h10) = (c11, h11)" by fastforce
  obtain c12 h12 where c12: "set_integer ''max-server-completions'' (parse_unsigned 32) 0
      (\<lambda>n c. c\<lparr>max_server_completions := of_nat n\<rparr>) m (c11, h11) = (c12, h12)" by fastforce
  note steps = c1_def [symmetric] c2_def [symmetric] c3_def [symmetric] c4_def [symmetric] c5 c6_def [symmetric]
    c7_def [symmetric] c8 c9_def [symmetric] c10 c11 c12
  have "g c3 = g cfg0" by (simp add: c3_def c2_def c1_def set_value_frame g)
  then have 4: "g c4 = (case value_of m ''port'' of None \<Rightarrow> g cfg0 | Some v \<Rightarrow> A v (g cfg0))"
    by (simp add: c4_def set_value_def gp split: option.split)
  have "g c5 = g c4" by (rule set_integer_frame [OF c5]) (simp add: g)
  then have "g c7 = g c4" by (simp add: c7_def c6_def set_value_frame g)
  then have "g c8 = g c4" using set_integer_frame [OF c8, of g] g by simp
  then have 9: "g c9 = (case value_of m ''google-cache-filename'' of None \<Rightarrow> g c4 | Some v \<Rightarrow> B v (g c4))"
    by (simp add: c9_def set_value_def gc split: option.split)
  have "g c12 = g c9"
    using set_integer_frame [OF c10, of g] set_integer_frame [OF c11, of g] set_integer_frame [OF c12, of g] g by simp
  moreover have "g cfg = g c12"
    using run unfolding command_line_setup_def Let_def steps prod.case
    by (auto simp: g split: option.splits if_splits)
  ultimately show ?thesis unfolding Let_def 4 [symmetric] using 9 by simp
qed

lemma command_line_setup_frame:
  assumes "command_line_setup m cfg0 = (cfg, hp, is_exit)"
  shows "google_max_candidates_length cfg = google_max_candidates_length cfg0"
    and "is_google_cache_enabled cfg \<longleftrightarrow> is_google_cache_enabled cfg0 \<or> value_of m ''google-cache-filename'' \<noteq> None"
    and "value_of m ''port'' = Some p \<Longrightarrow> port cfg = p"
proof -
  show "google_max_candidates_length cfg = google_max_candidates_length cfg0"
    using command_line_setup_field [OF assms, where g = google_max_candidates_length and A = "\<lambda>_ x. x" and B = "\<lambda>_ x. x"]
    by (simp add: Let_def split: option.splits)
  show "is_google_cache_enabled cfg \<longleftrightarrow> is_google_cache_enabled cfg0 \<or> value_of m ''google-cache-filename'' \<noteq> None"
    using command_line_setup_field [OF assms, where g = is_google_cache_enabled and A = "\<lambda>_ x. x" and B = "\<lambda>_ _. True"]
    by (simp add: Let_def split: option.splits)
  show "value_of m ''port'' = Some p \<Longrightarrow> port cfg = p"
    using command_line_setup_field [OF assms, where g = port and A = "\<lambda>v _. v" and B = "\<lambda>_ x. x"]
    by (simp add: Let_def split: option.splits)
qed

text \<open>C38: Two options do nothing: the argument for the number of online candidates is checked and dropped, and the name of a cache file in the configuration file does not turn the cache on, which only the argument does.\<close>

theorem options_without_effect:
  assumes "command_line_setup m config_new = (cfg, hp, is_exit)"
    and "config_file_read env files (config_file_new cfg) = Ok f"
  shows "google_max_candidates_length cfg = default_google_max_candidates_length
    \<and> (is_google_cache_enabled (file_config f) \<longleftrightarrow> value_of m ''google-cache-filename'' \<noteq> None)"
proof -
  have "keeps (\<lambda>c. is_google_cache_enabled c = b)
      (\<lambda>c. validate_and_set_config env candidates \<lparr>file_config = c, default_config = config_new\<rparr>)" for b candidates
    unfolding validate_and_set_config_def Let_def config_file.simps
    by (intro keeps_steps) (auto dest!: validated(1-6))
  from config_file_read_keeps [OF assms(2), where P = "\<lambda>c. is_google_cache_enabled c = is_google_cache_enabled cfg", OF refl this]
  show ?thesis using command_line_setup_frame(1,2) [OF assms(1)] by (simp add: config_new_def)
qed

text \<open>An argument that spells out the default port does not count as set: a port in the configuration file replaces it.\<close>

theorem default_port_argument_overridden:
  assumes "command_line_setup m config_new = (cfg, hp, is_exit)" and "value_of m ''port'' = Some ''1178''"
    and "candidates ''port'' = Some p" and "port_validator p"
    and "validate_and_set_config env candidates (config_file_new cfg) = Ok cfg'"
  shows "port cfg' = p"
proof -
  have default: "port cfg = port config_new" using command_line_setup_frame(3) [OF assms(1,2)] by (simp add: config_new_def)
  obtain c where c: "take_value candidates ''dictionary'' (\<lambda>c. dictionary_full_path c = []) (dictionary_validator env)
      (\<lambda>v c. c\<lparr>dictionary_full_path := v\<rparr>) cfg = Ok c"
    using assms(5) by (auto simp: validate_and_set_config_def config_file_new_def Let_def and_then_eq_Ok)
  then have "port c = port config_new" using default by (auto simp: take_value_def split: option.splits if_splits)
  then have port: "take_value candidates ''port'' (\<lambda>c. port c = port config_new) port_validator (\<lambda>v c. c\<lparr>port := v\<rparr>) c
      = Ok (c\<lparr>port := p\<rparr>)"
    using assms(3,4) by (simp add: take_value_def)
  let ?rest = "\<lambda>c. validate_and_set_config env (candidates(''dictionary'' := None, ''port'' := None))
      \<lparr>file_config = c, default_config = config_new\<rparr>"
  have "?rest (c\<lparr>port := p\<rparr>) = Ok cfg'"
    using assms(5) c port
    by (simp add: validate_and_set_config_def config_file_new_def Let_def take_value_def take_integer_def take_google_bool_def)
  moreover have "keeps (\<lambda>c. port c = p) ?rest"
    unfolding validate_and_set_config_def Let_def config_file.simps
    by (intro keeps_steps) (auto dest!: validated(1-6))
  moreover have "port (c\<lparr>port := p\<rparr>) = p" by simp
  ultimately show ?thesis unfolding keeps_def by blast
qed

section \<open>Witnesses\<close>

definition sample_surroundings :: surroundings where
  "sample_surroundings = \<lparr>path_exists = (\<lambda>_. True), re_ascii = (\<lambda>_. True), re_comment = (\<lambda>_. False),
     re_assignment = (\<lambda>l. Some (''port'', ''80'')), re_enable = (\<lambda>_. False)\<rparr>"

definition sample_matches :: "(string \<times> string) list \<Rightarrow> cli_matches" where
  "sample_matches vs = \<lparr>value_of = map_of vs, values_of = (\<lambda>_. None), is_present = (\<lambda>_. False)\<rparr>"

lemma sample_matches_setup:
  "command_line_setup (sample_matches [(''port'', p)]) config_new = (config_new\<lparr>port := p\<rparr>, False, False)"
  by (simp add: command_line_setup_def sample_matches_def set_value_def set_integer_def)

lemma sample_matches_documented:
  "clap_documented (yaskkserv2_args env) (sample_matches [(''port'', ''1178'')])"
  by (simp add: clap_documented_def sample_matches_def yaskkserv2_args_def port_default)

lemma sample_port: "port_validator ''80''"
  by (simp add: port_validator_def range_validator_def parse_i32_def i32_from_str_def from_str_radix_def
      digit_of_def in_range_def ascii_def)

lemma sample_set_config:
  "port c = ''1178'' \<Longrightarrow>
   validate_and_set_config env [''port'' \<mapsto> ''80''] (config_file_new c) = Ok (c\<lparr>port := ''80''\<rparr>)"
  by (simp add: validate_and_set_config_def config_file_new_def Let_def take_value_def take_integer_def
      take_google_bool_def sample_port) (simp add: config_new_def)

lemma sample_config_read:
  assumes "port c = ''1178''"
  shows "config_file_read sample_surroundings (\<lambda>_. Some [0x61, 0x62]) (config_file_new c)
     = Ok \<lparr>file_config = c\<lparr>port := ''80''\<rparr>, default_config = config_new\<rparr>"
proof -
  have "config_lines sample_surroundings (lines_of [0x61, 0x62]) Map.empty = Ok [''port'' \<mapsto> ''80'']"
    by (simp add: text_line_def sample_surroundings_def utf8_valid_ascii text_of_def)
  then show ?thesis using sample_set_config [OF assms] by (simp add: config_file_read_def) (simp add: config_file_new_def)
qed

lemma sample_config_default:
  "config_file_read sample_surroundings (\<lambda>_. Some [0x61, 0x62]) (config_file_new (config_new\<lparr>port := ''1178''\<rparr>))
     = Ok \<lparr>file_config = config_new\<lparr>port := ''80''\<rparr>, default_config = config_new\<rparr>"
  using sample_config_read [of "config_new\<lparr>port := ''1178''\<rparr>"] by simp

theorem server_config_valid_witness:
  "valid_config sample_surroundings (config_new\<lparr>port := ''80''\<rparr>)"
  using server_config_valid [OF sample_matches_documented _ sample_config_default, of True]
  by (simp add: command_line_start_def sample_matches_setup command_line_new_def)


theorem options_without_effect_witness:
  "\<not> is_google_cache_enabled (config_new\<lparr>port := ''80''\<rparr>)"
  using options_without_effect [OF sample_matches_setup sample_config_default]
  by (simp add: sample_matches_def)

theorem default_port_argument_overridden_witness:
  "validate_and_set_config sample_surroundings [''port'' \<mapsto> ''80''] (config_file_new (config_new\<lparr>port := ''1178''\<rparr>))
     = Ok (config_new\<lparr>port := ''80''\<rparr>)
   \<and> port (config_new\<lparr>port := ''80''\<rparr>) = ''80''"
proof -
  have run: "validate_and_set_config sample_surroundings [''port'' \<mapsto> ''80''] (config_file_new (config_new\<lparr>port := ''1178''\<rparr>))
     = Ok (config_new\<lparr>port := ''80''\<rparr>)"
    using sample_set_config [of "config_new\<lparr>port := ''1178''\<rparr>"] by simp
  show ?thesis
    using default_port_argument_overridden [OF sample_matches_setup _ _ sample_port run] run
    by (simp add: sample_matches_def)
qed

end
