(* ===== verification/Jisyo_Reader.thy ===== *)
theory Jisyo_Reader
  imports Dictionary Candidates Euc_Codec Std_Text Ordered_Map
begin

text \<open>
  Reading SKK-JISYO files (\<open>src/skk/yaskkserv2_make_dictionary/jisyo_reader.rs\<close>): lines that end in
  LF, CR or both, the lines that are skipped, the conversion between EUC and UTF-8, and the merge of all
  files into one map. The warnings are printed only; their text, where it can fail, is kept. A file is
  a parameter: its bytes, and how the reads of the operating system cut it.
\<close>

section \<open>Files and lines\<close>

datatype file_read = Chunk bytes | Chunk_Interrupted | Chunk_Error

record file_reader =
  reader_buffer :: bytes
  reader_chunks :: "file_read list"

definition file_reader_new :: "file_read list \<Rightarrow> file_reader" where
  "file_reader_new cs = \<lparr>reader_buffer = [], reader_chunks = cs\<rparr>"

text \<open>\<open>fill_buf\<close> of a buffered file. After the last chunk comes the end of the file.\<close>

datatype file_fill = File_Data bytes | File_Interrupted | File_Error

definition fill_file_buf :: "file_reader \<Rightarrow> file_fill \<times> file_reader" where
  "fill_file_buf r =
     (if reader_buffer r \<noteq> [] then (File_Data (reader_buffer r), r)
      else case reader_chunks r of
             [] \<Rightarrow> (File_Data [], r)
           | Chunk bs # cs \<Rightarrow> (File_Data bs, r\<lparr>reader_buffer := bs, reader_chunks := cs\<rparr>)
           | Chunk_Interrupted # cs \<Rightarrow> (File_Interrupted, r\<lparr>reader_chunks := cs\<rparr>)
           | Chunk_Error # cs \<Rightarrow> (File_Error, r\<lparr>reader_chunks := cs\<rparr>))"

definition consume_file :: "nat \<Rightarrow> file_reader \<Rightarrow> file_reader" where
  "consume_file n r = r\<lparr>reader_buffer := drop n (reader_buffer r)\<rparr>"

fun find_cr_or_lf :: "bytes \<Rightarrow> nat option" where
  "find_cr_or_lf [] = None"
| "find_cr_or_lf (c # cs) = (if c = lf \<or> c = cr then Some 0 else map_option Suc (find_cr_or_lf cs))"

text \<open>The part of the buffer that is used, and whether it ends a line.\<close>

definition jisyo_piece :: "bytes \<Rightarrow> bool \<times> bytes" where
  "jisyo_piece available =
     (case find_cr_or_lf available of
        Some i \<Rightarrow> (True, take (i + 1) available)
      | None \<Rightarrow> (False, available))"

text \<open>The line that is appended to the buffer; its length is what the function returns.\<close>

function read_jisyo_line_loop :: "file_reader \<Rightarrow> bytes \<Rightarrow> bytes res \<times> file_reader" where
  "read_jisyo_line_loop r line =
     (case fill_file_buf r of
        (File_Data available, r1) \<Rightarrow>
          let (finished, used) = jisyo_piece available;
              r2 = consume_file (length used) r1
          in if finished \<or> used = [] then (Ok (line @ used), r2) else read_jisyo_line_loop r2 (line @ used)
      | (File_Interrupted, r1) \<Rightarrow> read_jisyo_line_loop r1 line
      | (File_Error, r1) \<Rightarrow> (Err Io, r1))"
  by pat_completeness auto
termination
  by (relation "measure (\<lambda>(r, l). 2 * length (reader_chunks r) + (if reader_buffer r = [] then 0 else 1))")
    (auto simp: fill_file_buf_def consume_file_def jisyo_piece_def
      split: if_splits list.splits file_read.splits option.splits)

declare read_jisyo_line_loop.simps [simp del]

definition read_until_skk_jisyo :: "file_reader \<Rightarrow> bytes res \<times> file_reader" where
  "read_until_skk_jisyo r = read_jisyo_line_loop r []"

text \<open>Each line that is not empty takes bytes from the reader.\<close>

definition reader_size :: "file_reader \<Rightarrow> nat" where
  "reader_size r = length (reader_buffer r)
     + sum_list (map (\<lambda>c. case c of Chunk bs \<Rightarrow> length bs | _ \<Rightarrow> 0) (reader_chunks r))"

lemma find_cr_or_lf_less: "find_cr_or_lf bs = Some i \<Longrightarrow> i < length bs"
  by (induction bs arbitrary: i) (auto split: if_splits)

lemma jisyo_piece_length: "jisyo_piece bs = (f, u) \<Longrightarrow> length u \<le> length bs"
  by (auto simp: jisyo_piece_def split: option.splits)

lemma fill_file_buf_size:
  "fill_file_buf r = (File_Data available, r1) \<Longrightarrow> reader_size r1 = reader_size r \<and> reader_buffer r1 = available"
  "fill_file_buf r = (File_Interrupted, r1) \<Longrightarrow> reader_size r1 = reader_size r"
  by (auto simp: fill_file_buf_def reader_size_def split: if_splits list.splits file_read.splits)

lemma consume_file_size: "n \<le> length (reader_buffer r) \<Longrightarrow> reader_size (consume_file n r) + n = reader_size r"
  by (simp add: consume_file_def reader_size_def)

lemma read_jisyo_line_loop_size:
  "read_jisyo_line_loop r line = (Ok line', r') \<Longrightarrow> reader_size r' + length line' = reader_size r + length line"
proof (induction r line rule: read_jisyo_line_loop.induct)
  case (1 r line)
  show ?case
  proof (cases "fill_file_buf r")
    case (Pair f r1)
    show ?thesis
    proof (cases f)
      case (File_Data available)
      obtain fin u where u: "jisyo_piece available = (fin, u)" by (cases "jisyo_piece available")
      have size: "reader_size (consume_file (length u) r1) + length u = reader_size r"
        using fill_file_buf_size(1) Pair File_Data jisyo_piece_length [OF u] by (simp add: consume_file_size)
      show ?thesis
      proof (cases "fin \<or> u = []")
        case True
        then show ?thesis using "1.prems" Pair File_Data u size by (auto simp: read_jisyo_line_loop.simps [of r])
      next
        case False
        then have "read_jisyo_line_loop (consume_file (length u) r1) (line @ u) = (Ok line', r')"
          using "1.prems" Pair File_Data u by (simp add: read_jisyo_line_loop.simps [of r])
        from "1.IH"(1) [OF Pair [symmetric] File_Data refl u [symmetric] refl False this] size
        show ?thesis by simp
      qed
    next
      case File_Interrupted
      then have "read_jisyo_line_loop r1 line = (Ok line', r')"
        using "1.prems" Pair by (simp add: read_jisyo_line_loop.simps [of r])
      from "1.IH"(2) [OF Pair [symmetric] File_Interrupted this]
      show ?thesis using fill_file_buf_size(2) Pair File_Interrupted by simp
    next
      case File_Error
      then show ?thesis using "1.prems" Pair by (simp add: read_jisyo_line_loop.simps [of r])
    qed
  qed
qed


lemma read_until_skk_jisyo_size:
  "read_until_skk_jisyo r = (Ok line, r') \<Longrightarrow> reader_size r' + length line = reader_size r"
  using read_jisyo_line_loop_size [of r "[]" line r'] by (simp add: read_until_skk_jisyo_def)

section \<open>The encoding of a file\<close>

definition jisyo_encoding_detect_buffer_length :: nat where
  "jisyo_encoding_detect_buffer_length = 16 * 1024"

text \<open>
  A file: its bytes, how many bytes its first read delivers (\<open>None\<close> for an error), and the reads from a
  position on.
\<close>

record jisyo_file =
  jisyo_content :: bytes
  jisyo_first_read :: "nat option"
  jisyo_chunks :: "nat \<Rightarrow> file_read list"

definition detect_jisyo_encoding :: "twoway \<Rightarrow> jisyo_file \<Rightarrow> (encoding \<times> encoding_options) res" where
  "detect_jisyo_encoding tw f =
     (case jisyo_first_read f of
        None \<Rightarrow> Err Io
      | Some n \<Rightarrow>
          let buffer = take (min n jisyo_encoding_detect_buffer_length) (jisyo_content f)
          in if length buffer < jisyo_minimum_line_length then Err JisyoRead else detect_encoding tw buffer)"

text \<open>The position behind the byte order mark.\<close>

definition seek_skip_utf8_bom :: "bytes \<Rightarrow> nat res" where
  "seek_skip_utf8_bom content = and_then (read_exact_at content 0 3) (\<lambda>_. Ok 3)"

section \<open>One line\<close>

definition get_line_string :: "tables \<Rightarrow> bytes \<Rightarrow> encoding \<Rightarrow> bytes res" where
  "get_line_string t line jisyo_encoding =
     (if jisyo_encoding = Utf8 then string_from_utf8 line
      else and_then (decode t line) string_from_utf8)"

definition is_space_cr_lf_only :: "bytes \<Rightarrow> bool" where
  "is_space_cr_lf_only line \<longleftrightarrow> \<not> list_ex (\<lambda>v. v \<noteq> space \<and> v \<noteq> cr \<and> v \<noteq> lf) line"

text \<open>A skipped line is printed; an error of its text is dropped.\<close>

definition print_skip_warning :: "tables \<Rightarrow> bytes \<Rightarrow> encoding \<Rightarrow> bool res" where
  "print_skip_warning t chomped_line jisyo_encoding =
     (case get_line_string t chomped_line jisyo_encoding of
        Ok _ \<Rightarrow> Ok True | Err _ \<Rightarrow> Ok True | e \<Rightarrow> and_then e (\<lambda>_. Ok True))"

definition is_skip_and_print_warning :: "tables \<Rightarrow> twoway \<Rightarrow> bytes \<Rightarrow> encoding \<Rightarrow> bool res" where
  "is_skip_and_print_warning t tw chomped_line jisyo_encoding =
     (let skip = print_skip_warning t chomped_line jisyo_encoding in
      if chomped_line = [] \<or> is_space_cr_lf_only chomped_line then skip
      else and_then (index_res chomped_line 0) (\<lambda>b.
        if b = semicolon then Ok True
        else if b = space then skip
        else if b = 0x09 then skip
        else if length chomped_line < jisyo_minimum_line_length then skip
        else if length chomped_line > jisyo_maximum_line_length then skip
        else case find_bytes tw chomped_line [space] of
               None \<Rightarrow> skip
             | Some sp \<Rightarrow>
                 if length chomped_line < sp + jisyo_minimum_candidates_length then skip
                 else and_then (index_res chomped_line (sp + 1)) (\<lambda>c.
                   if c = space then skip
                   else and_then (tail_res chomped_line (sp + 1)) (\<lambda>candidates.
                     if find_bytes tw candidates [slash, slash] \<noteq> None then skip else Ok False))))"

definition encode_midashi_candidates ::
  "tables \<Rightarrow> bytes \<times> bytes \<Rightarrow> encoding \<Rightarrow> encoding option \<Rightarrow> (bytes \<times> bytes) res" where
  "encode_midashi_candidates t midashi_candidates jisyo_encoding output_encoding =
     and_then
       (if jisyo_encoding = Euc \<or> output_encoding = None then Ok (fst midashi_candidates)
        else encode t (fst midashi_candidates)) (\<lambda>midashi.
     and_then
       (if output_encoding = Some Euc \<and> jisyo_encoding = Utf8 then encode t (snd midashi_candidates)
        else if output_encoding = Some Utf8 \<and> jisyo_encoding = Euc then decode t (snd midashi_candidates)
        else Ok (snd midashi_candidates)) (\<lambda>candidates.
     Ok (midashi, candidates)))"

type_synonym jisyo_entries_map = "(bytes \<times> bytes) list"

definition update_jisyo_entries_map ::
  "tables \<Rightarrow> twoway \<Rightarrow> jisyo_entries_map \<Rightarrow> bytes \<Rightarrow> encoding \<Rightarrow> encoding option \<Rightarrow> jisyo_entries_map res" where
  "update_jisyo_entries_map t tw entries_map chomped_line jisyo_encoding output_encoding =
     (case get_midashi_candidates tw chomped_line of
        Ok midashi_candidates \<Rightarrow>
          and_then (encode_midashi_candidates t midashi_candidates jisyo_encoding output_encoding)
            (\<lambda>(midashi, candidates).
          let removed_duplicates_candidates = remove_duplicates_bytes candidates
          in and_then (if candidates \<noteq> removed_duplicates_candidates
                       then get_line_string t chomped_line jisyo_encoding else Ok []) (\<lambda>_.
             Ok (case map_of entries_map midashi of
                   Some found \<Rightarrow> btree_insert midashi
                     (merge_trimmed_slash_candidates (trim_one_slash found)
                        (trim_one_slash removed_duplicates_candidates)) entries_map
                 | None \<Rightarrow> btree_insert midashi removed_duplicates_candidates entries_map)))
      | Err _ \<Rightarrow> and_then (get_line_string t chomped_line jisyo_encoding) (\<lambda>_. Ok entries_map)
      | e \<Rightarrow> and_then e (\<lambda>_. Ok entries_map))"

section \<open>All lines of all files\<close>

text \<open>
  The line without its last byte, and without the LF that ends a CR LF; \<open>None\<close> for a line that is only
  this LF.
\<close>

definition chomp :: "bytes \<Rightarrow> bool \<Rightarrow> bytes option res" where
  "chomp line is_last_cr =
     and_then (index_res line 0) (\<lambda>b.
     if is_last_cr \<and> b = lf then
       (if length line = 1 then Ok None
        else and_then (slice_res line 1 (length line - 1)) (\<lambda>l. Ok (Some l)))
     else and_then (slice_res line 0 (length line - 1)) (\<lambda>l. Ok (Some l)))"

definition jisyo_line_turn ::
  "tables \<Rightarrow> twoway \<Rightarrow> encoding \<Rightarrow> encoding option \<Rightarrow> bytes \<Rightarrow> bool \<times> jisyo_entries_map
     \<Rightarrow> (bool \<times> jisyo_entries_map) res" where
  "jisyo_line_turn t tw jisyo_encoding output_encoding line st =
     and_then (chomp line (fst st)) (\<lambda>chomped.
     case chomped of
       None \<Rightarrow> Ok st
     | Some chomped_line \<Rightarrow>
         and_then (index_res line (length line - 1)) (\<lambda>b.
         and_then (is_skip_and_print_warning t tw chomped_line jisyo_encoding) (\<lambda>skip.
         if skip then Ok (b = cr, snd st)
         else and_then (update_jisyo_entries_map t tw (snd st) chomped_line jisyo_encoding output_encoding)
                (\<lambda>m. Ok (b = cr, m)))))"

text \<open>A read that fails ends the file like its end does.\<close>

function jisyo_lines_loop ::
  "tables \<Rightarrow> twoway \<Rightarrow> encoding \<Rightarrow> encoding option \<Rightarrow> file_reader \<Rightarrow> bool \<times> jisyo_entries_map
     \<Rightarrow> jisyo_entries_map res" where
  "jisyo_lines_loop t tw jisyo_encoding output_encoding r st =
     (case read_until_skk_jisyo r of
        (Ok line, r') \<Rightarrow>
          if line = [] then Ok (snd st)
          else and_then (jisyo_line_turn t tw jisyo_encoding output_encoding line st) (\<lambda>st'.
               jisyo_lines_loop t tw jisyo_encoding output_encoding r' st')
      | (_, r') \<Rightarrow> Ok (snd st))"
  by pat_completeness auto
termination
proof (relation "measure (\<lambda>(t, tw, je, oe, r, st). reader_size r)", goal_cases)
  case (2 t tw je oe r st x r' line st')
  then have "reader_size r' + length line = reader_size r" and "0 < length line"
    using read_until_skk_jisyo_size [of r line r'] by simp_all
  then show ?case unfolding in_measure prod.case by linarith
qed simp

declare jisyo_lines_loop.simps [simp del]

definition read_jisyo_file ::
  "tables \<Rightarrow> twoway \<Rightarrow> encoding option \<Rightarrow> jisyo_file option \<Rightarrow> jisyo_entries_map \<Rightarrow> jisyo_entries_map res" where
  "read_jisyo_file t tw output_encoding f entries_map =
     (case f of
        None \<Rightarrow> Err Io
      | Some f \<Rightarrow>
          and_then (detect_jisyo_encoding tw f) (\<lambda>(jisyo_encoding, jisyo_encoding_options).
          and_then (if jisyo_encoding_options = Bom then seek_skip_utf8_bom (jisyo_content f) else Ok 0)
            (\<lambda>position.
          jisyo_lines_loop t tw jisyo_encoding output_encoding (file_reader_new (jisyo_chunks f position))
            (False, entries_map))))"

fun get_merged_jisyo_entries_map_core ::
  "tables \<Rightarrow> twoway \<Rightarrow> encoding option \<Rightarrow> jisyo_file option list \<Rightarrow> jisyo_entries_map \<Rightarrow> jisyo_entries_map res" where
  "get_merged_jisyo_entries_map_core t tw output_encoding [] entries_map = Ok entries_map"
| "get_merged_jisyo_entries_map_core t tw output_encoding (f # fs) entries_map =
     and_then (read_jisyo_file t tw output_encoding f entries_map)
       (get_merged_jisyo_entries_map_core t tw output_encoding fs)"

definition get_merged_jisyo_entries_map ::
  "tables \<Rightarrow> twoway \<Rightarrow> jisyo_file option list \<Rightarrow> encoding \<Rightarrow> jisyo_entries_map res" where
  "get_merged_jisyo_entries_map t tw jisyo_full_paths output_encoding =
     get_merged_jisyo_entries_map_core t tw (Some output_encoding) jisyo_full_paths []"

end
