(* ===== verification/Jisyo_Lines.thy ===== *)
theory Jisyo_Lines
  imports Jisyo_Reader
begin

text \<open>
  What the reader of SKK-JISYO files does with any file: however the reads cut it, its lines are the
  pieces up to each CR or LF, taken in order, and the loop over the file is the loop over these lines.
\<close>

section \<open>Lines do not depend on the reads\<close>

fun jisyo_lines :: "bytes \<Rightarrow> bytes list" where
  "jisyo_lines [] = []"
| "jisyo_lines (b # bs) =
     (if b = lf \<or> b = cr then [b] # jisyo_lines bs
      else case jisyo_lines bs of [] \<Rightarrow> [[b]] | l # ls \<Rightarrow> (b # l) # ls)"

definition first_line :: "bytes \<Rightarrow> bytes" where
  "first_line bs = (case jisyo_lines bs of [] \<Rightarrow> [] | l # _ \<Rightarrow> l)"

definition no_newline :: "bytes \<Rightarrow> bool" where
  "no_newline bs \<longleftrightarrow> lf \<notin> set bs \<and> cr \<notin> set bs"

lemma no_newline_simps [simp]:
  "no_newline []" "no_newline (b # bs) \<longleftrightarrow> b \<noteq> lf \<and> b \<noteq> cr \<and> no_newline bs"
  "no_newline (as @ bs) \<longleftrightarrow> no_newline as \<and> no_newline bs"
  by (auto simp: no_newline_def)

lemma jisyo_lines_Nil [simp]: "jisyo_lines bs = [] \<longleftrightarrow> bs = []"
  by (cases bs) (auto split: list.splits)

lemma jisyo_lines_not_Nil: "l \<in> set (jisyo_lines bs) \<Longrightarrow> l \<noteq> []"
  by (induction bs arbitrary: l) (auto split: if_splits list.splits)

lemma jisyo_lines_line:
  "no_newline w \<Longrightarrow> c = lf \<or> c = cr \<Longrightarrow> jisyo_lines (w @ c # bs) = (w @ [c]) # jisyo_lines bs"
  by (induction w) auto

lemma jisyo_lines_prefix:
  "no_newline w \<Longrightarrow> w @ bs \<noteq> [] \<Longrightarrow> jisyo_lines (w @ bs) = (w @ first_line bs) # tl (jisyo_lines bs)"
proof (induction w)
  case Nil
  then show ?case by (cases "jisyo_lines bs") (auto simp: first_line_def)
next
  case (Cons b w)
  then show ?case
    by (cases "w @ bs = []") (auto simp: first_line_def split: list.splits)
qed

lemma first_line_prefix: "no_newline w \<Longrightarrow> first_line (w @ bs) = w @ first_line bs"
  using jisyo_lines_prefix [of w bs] by (cases "w @ bs = []") (auto simp: first_line_def)

lemma first_line_line: "no_newline w \<Longrightarrow> c = lf \<or> c = cr \<Longrightarrow> first_line (w @ c # bs) = w @ [c]"
  by (simp add: first_line_def jisyo_lines_line)

lemma concat_jisyo_lines [simp]: "concat (jisyo_lines bs) = bs"
  by (induction bs) (auto split: list.splits)

lemma jisyo_lines_first:
  assumes "bs \<noteq> []"
  shows "jisyo_lines bs = first_line bs # jisyo_lines (drop (length (first_line bs)) bs)"
proof (cases "no_newline bs")
  case True
  then have "jisyo_lines bs = [bs]" using jisyo_lines_prefix [of bs "[]"] assms by (simp add: first_line_def)
  then show ?thesis by (simp add: first_line_def)
next
  case False
  then obtain w c v where "bs = w @ c # v" "no_newline w" "c = lf \<or> c = cr"
    using split_list_first_prop [of bs "\<lambda>c. c = lf \<or> c = cr"] by (auto simp: no_newline_def)
  then show ?thesis by (simp add: jisyo_lines_line first_line_line)
qed

lemma jisyo_piece_cases:
  obtains "no_newline a" "jisyo_piece a = (False, a)"
  | w c v where "a = w @ c # v" "no_newline w" "c = lf \<or> c = cr" "jisyo_piece a = (True, w @ [c])"
proof (cases "no_newline a")
  case True
  then have "find_cr_or_lf a = None" by (induction a) auto
  then show ?thesis using that(1) True by (simp add: jisyo_piece_def)
next
  case False
  then obtain w c v where a: "a = w @ c # v" "no_newline w" "c = lf \<or> c = cr"
    using split_list_first_prop [of a "\<lambda>c. c = lf \<or> c = cr"] by (auto simp: no_newline_def)
  from a(2,3) have "find_cr_or_lf (w @ c # v) = Some (length w)" by (induction w) auto
  then show ?thesis using that(2) [OF a] by (simp add: jisyo_piece_def a(1))
qed

text \<open>Reads deliver bytes until the end of the file; they may be interrupted.\<close>

definition reads_deliver :: "file_read list \<Rightarrow> bool" where
  "reads_deliver cs \<longleftrightarrow> (\<forall>c \<in> set cs. c = Chunk_Interrupted \<or> (\<exists>bs. c = Chunk bs \<and> bs \<noteq> []))"

definition chunk_bytes :: "file_read list \<Rightarrow> bytes" where
  "chunk_bytes cs = concat (map (\<lambda>c. case c of Chunk bs \<Rightarrow> bs | _ \<Rightarrow> []) cs)"

definition rest_of :: "file_reader \<Rightarrow> bytes" where
  "rest_of r = reader_buffer r @ chunk_bytes (reader_chunks r)"

lemma fill_file_buf_cases:
  assumes "reads_deliver (reader_chunks r)"
  obtains a r1 where "fill_file_buf r = (File_Data a, r1)" "reader_buffer r1 = a"
      "rest_of r = a @ chunk_bytes (reader_chunks r1)" "a = [] \<Longrightarrow> rest_of r = []" "reads_deliver (reader_chunks r1)"
  | r1 where "fill_file_buf r = (File_Interrupted, r1)" "rest_of r1 = rest_of r" "reads_deliver (reader_chunks r1)"
proof (cases "reader_buffer r = []")
  case False
  then show ?thesis using that(1) [of "reader_buffer r" r] assms by (simp add: fill_file_buf_def rest_of_def)
next
  case True
  show ?thesis
  proof (cases "reader_chunks r")
    case Nil
    then show ?thesis using that(1) [of "[]" r] True assms by (simp add: fill_file_buf_def rest_of_def chunk_bytes_def)
  next
    case (Cons c cs)
    then have c: "c = Chunk_Interrupted \<or> (\<exists>bs. c = Chunk bs \<and> bs \<noteq> [])" "reads_deliver cs"
      using assms by (simp_all add: reads_deliver_def)
    then show ?thesis
      using that(1) [of _ "r\<lparr>reader_buffer := _, reader_chunks := cs\<rparr>"] that(2) [of "r\<lparr>reader_chunks := cs\<rparr>"] True Cons
      by (auto simp: fill_file_buf_def rest_of_def chunk_bytes_def)
  qed
qed

lemma read_jisyo_line_loop_spec:
  "reads_deliver (reader_chunks r) \<Longrightarrow>
   \<exists>r'. read_jisyo_line_loop r line = (Ok (line @ first_line (rest_of r)), r') \<and> reads_deliver (reader_chunks r')
     \<and> rest_of r' = drop (length (first_line (rest_of r))) (rest_of r)"
proof (induction r line rule: read_jisyo_line_loop.induct)
  case (1 r line)
  from "1.prems" show ?case
  proof (cases r rule: fill_file_buf_cases)
    case (1 a r1)
    show ?thesis
    proof (cases a rule: jisyo_piece_cases)
      case 1
      note piece = this
      show ?thesis
      proof (cases "a = []")
        case True
        then show ?thesis
          using \<open>fill_file_buf r = _\<close> piece \<open>a = [] \<Longrightarrow> _\<close> \<open>reads_deliver (reader_chunks r1)\<close> \<open>reader_buffer r1 = a\<close>
            \<open>rest_of r = _\<close>
          by (simp add: read_jisyo_line_loop.simps [of r] first_line_def consume_file_def rest_of_def)
      next
        case False
        let ?r2 = "consume_file (length a) r1"
        have r2: "rest_of ?r2 = chunk_bytes (reader_chunks r1)" "reads_deliver (reader_chunks ?r2)"
          using \<open>reader_buffer r1 = a\<close> \<open>reads_deliver (reader_chunks r1)\<close> by (simp_all add: consume_file_def rest_of_def)
        have "read_jisyo_line_loop r line = read_jisyo_line_loop ?r2 (line @ a)"
          using \<open>fill_file_buf r = _\<close> piece False by (simp add: read_jisyo_line_loop.simps [of r])
        moreover obtain r' where "read_jisyo_line_loop ?r2 (line @ a) = (Ok ((line @ a) @ first_line (rest_of ?r2)), r')"
          "reads_deliver (reader_chunks r')" "rest_of r' = drop (length (first_line (rest_of ?r2))) (rest_of ?r2)"
          using "1.IH"(1) [OF \<open>fill_file_buf r = _\<close> [symmetric] refl refl piece(2) [symmetric] refl _ r2(2)] False
          by auto
        ultimately show ?thesis
          using \<open>rest_of r = _\<close> piece(1) r2(1) by (simp add: first_line_prefix)
      qed
    next
      case (2 w c v)
      then show ?thesis
        using \<open>fill_file_buf r = _\<close> \<open>rest_of r = _\<close> \<open>reads_deliver (reader_chunks r1)\<close> \<open>reader_buffer r1 = a\<close>
        by (auto simp: read_jisyo_line_loop.simps [of r] first_line_line consume_file_def rest_of_def)
    qed
  next
    case (2 r1)
    then show ?thesis
      using "1.IH"(2) [OF \<open>fill_file_buf r = _\<close> [symmetric] refl] by (simp add: read_jisyo_line_loop.simps [of r])
  qed
qed

text \<open>The loop over the file is the loop over its lines.\<close>

fun jisyo_turns ::
  "tables \<Rightarrow> twoway \<Rightarrow> encoding \<Rightarrow> encoding option \<Rightarrow> bytes list \<Rightarrow> bool \<times> jisyo_entries_map
     \<Rightarrow> jisyo_entries_map res" where
  "jisyo_turns t tw je oe [] st = Ok (snd st)"
| "jisyo_turns t tw je oe (l # ls) st = and_then (jisyo_line_turn t tw je oe l st) (jisyo_turns t tw je oe ls)"

lemma jisyo_lines_loop_turns:
  "reads_deliver (reader_chunks r) \<Longrightarrow>
   jisyo_lines_loop t tw je oe r st = jisyo_turns t tw je oe (jisyo_lines (rest_of r)) st"
proof (induction "length (rest_of r)" arbitrary: r st rule: less_induct)
  case less
  obtain r' where r': "read_until_skk_jisyo r = (Ok (first_line (rest_of r)), r')" "reads_deliver (reader_chunks r')"
    "rest_of r' = drop (length (first_line (rest_of r))) (rest_of r)"
    using read_jisyo_line_loop_spec [OF less.prems, of "[]"] by (auto simp: read_until_skk_jisyo_def)
  show ?case
  proof (cases "rest_of r = []")
    case True
    then show ?thesis using r'(1) by (simp add: jisyo_lines_loop.simps [of t tw je oe r] first_line_def)
  next
    case False
    have lines: "jisyo_lines (rest_of r) = first_line (rest_of r) # jisyo_lines (rest_of r')"
      using jisyo_lines_first [OF False] r'(3) by simp
    then have ne: "first_line (rest_of r) \<noteq> []" using jisyo_lines_not_Nil [of "first_line (rest_of r)" "rest_of r"] by simp
    then have "length (rest_of r') < length (rest_of r)" using r'(3) False by simp
    from less.hyps [OF this r'(2)]
    have "jisyo_lines_loop t tw je oe r' = jisyo_turns t tw je oe (jisyo_lines (rest_of r'))" by (rule ext)
    then show ?thesis
      using r'(1) ne by (simp add: jisyo_lines_loop.simps [of t tw je oe r] lines)
  qed
qed

text \<open>C10: Whatever pieces the operating system delivers a file in, and however often a read is interrupted, the reader goes through the lines of the file, the pieces up to each CR or LF, in order.\<close>

theorem jisyo_lines_any_cut:
  assumes "reads_deliver cs" and "chunk_bytes cs = content"
  shows "jisyo_lines_loop t tw je oe (file_reader_new cs) st = jisyo_turns t tw je oe (jisyo_lines content) st"
  using jisyo_lines_loop_turns [of "file_reader_new cs" t tw je oe st] assms
  by (simp add: file_reader_new_def rest_of_def)

end
