(* ===== verification/Jisyo_Map.thy ===== *)
theory Jisyo_Map
  imports Jisyo_Lines Free_Text Block_Units
begin

text \<open>
  The map that the reader builds: it is sorted by midashi, and every entry has the form that the creator of
  the dictionary needs. Then lines that the reader treats in a way of its own: the last one of a file without
  a newline, and one whose slashes are all before the space.
\<close>

section \<open>Entry lines\<close>

lemma first_occurrence:
  assumes "x \<in> set xs"
  obtains ys zs where "xs = ys @ x # zs" "x \<notin> set ys"
  using split_list_first [OF assms] by blast

lemma get_midashi_candidates_parts:
  assumes "twoway_documented tw" and "space \<notin> set m" and "slash \<notin> set z"
  shows "get_midashi_candidates tw (m @ space # c @ slash # z) = Ok (m, c @ [slash])"
proof -
  have "find_bytes tw (m @ space # c @ slash # z) [space] = Some (length m)"
    by (rule find_byte_first [OF assms(1,2)])
  moreover have "rfind_bytes tw ((m @ space # c) @ slash # z) [slash] = Some (length (m @ space # c))"
    by (rule rfind_byte_last [OF assms(1,3)])
  ultimately show ?thesis
    by (simp add: get_midashi_candidates_def slice_res_def slice_def)
qed

lemma get_midashi_candidates_slash_first:
  assumes "twoway_documented tw" and "space \<notin> set m" and "slash \<in> set m" and "slash \<notin> set rest"
  shows "get_midashi_candidates tw (m @ space # rest) = Panic"
proof -
  obtain a b where m: "m = a @ slash # b" "slash \<notin> set b"
    using split_list_last [OF assms(3)] by blast
  have "find_bytes tw (m @ space # rest) [space] = Some (length m)"
    by (rule find_byte_first [OF assms(1,2)])
  moreover have "rfind_bytes tw (a @ slash # (b @ space # rest)) [slash] = Some (length a)"
    by (rule rfind_byte_last [OF assms(1)]) (use m(2) assms(4) in simp)
  ultimately show ?thesis
    by (simp add: get_midashi_candidates_def slice_res_def m(1))
qed

lemma rfind_byte_none: "twoway_documented tw \<Longrightarrow> x \<notin> set ys \<Longrightarrow> rfind_bytes tw ys [x] = None"
proof -
  assume tw: "twoway_documented tw" and x: "x \<notin> set ys"
  have "case rfind_bytes tw ys [x] of None \<Rightarrow> \<forall>i. \<not> occurs_at ys [x] i
      | Some i \<Rightarrow> occurs_at ys [x] i \<and> (\<forall>j > i. \<not> occurs_at ys [x] j)"
    using tw by (simp add: twoway_documented_def)
  then show ?thesis
    using x by (cases "rfind_bytes tw ys [x]") (auto simp: occurs_at_single)
qed

lemma get_midashi_candidates_Ok:
  assumes tw: "twoway_documented tw" and ok: "get_midashi_candidates tw l = Ok (m, c)"
  shows "\<exists>rest z. l = m @ space # rest \<and> space \<notin> set m \<and> rest = c @ z \<and> last c = slash \<and> c \<noteq> []"
proof -
  have "space \<in> set l"
    using ok find_byte_none [OF tw, of space l] by (cases "space \<in> set l") (auto simp: get_midashi_candidates_def)
  then obtain m' rest where l: "l = m' @ space # rest" "space \<notin> set m'" by (rule first_occurrence)
  show ?thesis
  proof (cases "slash \<in> set rest")
    case True
    then obtain c' z where r: "rest = c' @ slash # z" "slash \<notin> set z" using split_list_last by metis
    show ?thesis using ok get_midashi_candidates_parts [OF tw l(2) r(2)] l r by auto
  next
    case False
    show ?thesis
    proof (cases "slash \<in> set m'")
      case True
      then show ?thesis using ok get_midashi_candidates_slash_first [OF tw l(2) _ False] l(1) by simp
    next
      case m: False
      then have "rfind_bytes tw l [slash] = None" using False l(1) by (intro rfind_byte_none [OF tw]) simp
      then show ?thesis using ok by (simp add: get_midashi_candidates_def split: option.splits)
    qed
  qed
qed

section \<open>The entries of the map\<close>

definition merged_entry :: "bytes \<times> bytes \<Rightarrow> bool" where
  "merged_entry p \<longleftrightarrow> fst p \<noteq> [] \<and> space \<notin> set (fst p) \<and> no_newline (fst p)
     \<and> no_newline (snd p) \<and> snd p \<noteq> [] \<and> last (snd p) = slash"

lemma merged_entry_ok: "merged_entry p \<Longrightarrow> entry_ok p"
  by (simp add: merged_entry_def entry_ok_def no_newline_def)

definition line_tables :: "tables \<Rightarrow> bool" where
  "line_tables t \<longleftrightarrow> tables_wf t \<and> free_of space t \<and> free_of lf t \<and> free_of cr t"

lemma encode_unit_not_Nil:
  assumes wf: "tables_wf t" and "bs \<noteq> []"
  shows "fst (encode_unit t bs) \<noteq> []"
proof -
  have esc: "escape x \<noteq> []" for x by (simp add: escape_def ascii_def)
  have part: "euc_part v \<noteq> []" if "v \<noteq> []" for v using that by (simp add: euc_part_def push_to_buffer_euc_def)
  have 3: "euc_part v \<noteq> []" if "length v = 3" for v using that by (intro part) auto
  have oe: "or_escape x m \<noteq> []" if "m \<noteq> Some []" for x m
    using that esc by (auto simp: or_escape_def split: option.split)
  have "utf8_3_to_euc_vec t ! get_utf8_3_to_euc_vec_index u \<in> set (utf8_3_to_euc_vec t)" for u
    using wf get_utf8_3_to_euc_vec_index_bound [of u] by (simp add: tables_wf_def)
  then have "utf8_3_meaning t u \<noteq> Some []" for u
    using part vec_values(1) [OF wf] by (simp add: utf8_3_meaning_def Let_def)
  moreover have "map_option euc_part (utf8_2_4_to_euc_map t k) \<noteq> Some []" for k
    using 3 map_sizes(1) [OF wf] by (cases "utf8_2_4_to_euc_map t k") auto
  moreover have "combine_utf8_4_to_euc_map t k = Some v \<Longrightarrow> euc_part v \<noteq> []"
    "combine_utf8_6_to_euc_map t k = Some v \<Longrightarrow> euc_part v \<noteq> []" for k v
    using 3 map_sizes(2,3) [OF wf] by blast+
  ultimately show ?thesis
    using esc oe by (auto simp: encode_unit_def Let_def)
qed

lemma encode_text:
  assumes "line_tables t" and "encode t bs = Ok out"
  shows "no_newline bs \<Longrightarrow> no_newline out" and "space \<notin> set bs \<Longrightarrow> space \<notin> set out"
    and "bs \<noteq> [] \<Longrightarrow> out \<noteq> []"
proof -
  have t: "tables_wf t" "free_of space t" "free_of lf t" "free_of cr t" using assms(1) by (simp_all add: line_tables_def)
  have out: "out = scan (encode_unit t) bs" using assms(2) encode_eq_scan [OF t(1), of bs] by simp
  show "no_newline bs \<Longrightarrow> no_newline out"
    using encode_no_control [OF t(1,3), of bs] encode_no_control [OF t(1,4), of bs] by (simp add: no_newline_def out)
  show "space \<notin> set bs \<Longrightarrow> space \<notin> set out"
    using encode_no_control [OF t(1,2), of bs] by (simp add: out)
  show "bs \<noteq> [] \<Longrightarrow> out \<noteq> []"
    using encode_unit_not_Nil [OF t(1), of bs] by (simp add: out scan.simps [of _ bs])
qed

lemma decode_text:
  assumes "line_tables t" and "decode t bs = Ok out"
  shows "no_newline bs \<Longrightarrow> no_newline out"
  using assms decode_eq_scan [of t bs] decode_no_control [of t lf bs] decode_no_control [of t cr bs]
  by (simp add: no_newline_def line_tables_def)

lemma encode_midashi_candidates_text:
  assumes t: "line_tables t" and "encode_midashi_candidates t (m, c) je oe = Ok (m', c')"
    and "no_newline m" "no_newline c" "space \<notin> set m" "m \<noteq> []"
  shows "no_newline m' \<and> no_newline c' \<and> space \<notin> set m' \<and> m' \<noteq> []"
  using assms(2-) encode_text(1,2) [OF t] encode_text(3) [OF t, of m] decode_text [OF t]
  by (auto simp: encode_midashi_candidates_def and_then_eq_Ok split: if_splits)

lemma merge_ends_with_slash:
  "merge_trimmed_slash_candidates base new \<noteq> [] \<and> last (merge_trimmed_slash_candidates base new) = slash"
proof -
  have "candidates_bytes_of cs \<noteq> [] \<and> last (candidates_bytes_of cs) = slash" for cs
    by (cases "cs = []") (auto simp: candidates_bytes_of_def concat_terminated)
  then show ?thesis using merge_shape [of base new] by metis
qed

lemma trim_no_newline: "no_newline c \<Longrightarrow> no_newline (trim_one_slash c)"
  using trim_one_slash_subset [of c] by (auto simp: no_newline_def)

lemma removed_entry: "no_newline c \<Longrightarrow> no_newline (remove_duplicates_bytes c)"
  using remove_duplicates_bytes_no_byte [of lf c] remove_duplicates_bytes_no_byte [of cr c]
  by (simp add: no_newline_def)

lemma merged_no_newline:
  "no_newline a \<Longrightarrow> no_newline b \<Longrightarrow> no_newline (merge_trimmed_slash_candidates a b)"
  using merge_no_byte [of lf a b] merge_no_byte [of cr a b] by (simp add: no_newline_def)

lemma btree_insert_entries:
  "btree_sorted m \<Longrightarrow> \<forall>p \<in> set m. P p \<Longrightarrow> P (k, v) \<Longrightarrow> \<forall>p \<in> set (btree_insert k v m). P p"
proof
  fix p assume a: "btree_sorted m" "\<forall>p \<in> set m. P p" "P (k, v)" "p \<in> set (btree_insert k v m)"
  then have "map_of (btree_insert k v m) (fst p) = Some (snd p)"
    using btree.entries_lookup [OF btree_sorted_insert [OF a(1)], of "fst p" "snd p"] by simp
  then have "p = (k, v) \<or> map_of m (fst p) = Some (snd p)"
    by (cases p) (auto simp: btree_lookup_insert [OF a(1)] split: if_splits)
  then show "P p" using a(2,3) by (auto dest: map_of_SomeD)
qed

definition entries_ordered :: "jisyo_entries_map \<Rightarrow> bool" where
  "entries_ordered m \<longleftrightarrow> btree_sorted m \<and> (\<forall>p \<in> set m. merged_entry p)"

lemma entries_ordered_insert:
  "entries_ordered m \<Longrightarrow> merged_entry (k, v) \<Longrightarrow> entries_ordered (btree_insert k v m)"
  using btree_insert_entries [of m merged_entry k v] by (simp add: entries_ordered_def btree_sorted_insert)

lemma update_entries_ordered:
  assumes tw: "twoway_documented tw" and t: "line_tables t" and m: "entries_ordered m"
    and l: "no_newline l" "l \<noteq> []" "hd l \<noteq> space" and ok: "update_jisyo_entries_map t tw m l je oe = Ok m'"
  shows "entries_ordered m'"
proof (cases "get_midashi_candidates tw l")
  case (Ok mc)
  obtain x c where mc: "mc = (x, c)" by fastforce
  obtain z where lp: "l = x @ space # c @ z" "space \<notin> set x"
    using get_midashi_candidates_Ok [OF tw, of l x c] Ok mc by auto
  have x: "x \<noteq> []" using lp(1) l(3) by (cases x) auto
  obtain x' c' where e: "encode_midashi_candidates t (x, c) je oe = Ok (x', c')"
    using ok by (auto simp: update_jisyo_entries_map_def Ok mc and_then_eq_Ok)
  have xc: "no_newline x'" "no_newline c'" "space \<notin> set x'" "x' \<noteq> []"
    using encode_midashi_candidates_text [OF t e _ _ lp(2) x] l(1) lp(1) by auto
  let ?r = "remove_duplicates_bytes c'"
  have m': "m' = (case map_of m x' of
        Some found \<Rightarrow> btree_insert x' (merge_trimmed_slash_candidates (trim_one_slash found) (trim_one_slash ?r)) m
      | None \<Rightarrow> btree_insert x' ?r m)"
    using ok by (auto simp: update_jisyo_entries_map_def Ok mc e and_then_eq_Ok Let_def)
  have r: "no_newline ?r" "?r \<noteq> []" "last ?r = slash"
    using removed_entry [OF xc(2)] by (simp_all add: remove_duplicates_bytes_def)
  show ?thesis
  proof (cases "map_of m x'")
    case None
    then show ?thesis using entries_ordered_insert [OF m, of x' ?r] xc r by (simp add: m' merged_entry_def)
  next
    case (Some found)
    then have "no_newline found" using m by (auto simp: entries_ordered_def merged_entry_def dest!: map_of_SomeD)
    then show ?thesis
      using entries_ordered_insert [OF m] Some xc r merge_ends_with_slash
      by (simp add: m' merged_entry_def merged_no_newline trim_no_newline)
  qed
qed (use ok m in \<open>auto simp: update_jisyo_entries_map_def and_then_eq_Ok\<close>)

text \<open>A line is free of newlines before its last byte.\<close>

lemma read_jisyo_line_loop_newline:
  "read_jisyo_line_loop r line = (Ok line', r') \<Longrightarrow> no_newline line \<Longrightarrow> no_newline (butlast line')"
proof (induction r line rule: read_jisyo_line_loop.induct)
  case (1 r line)
  have bl: "no_newline xs \<Longrightarrow> no_newline (butlast xs)" for xs
    by (auto simp: no_newline_def dest: in_set_butlastD)
  show ?case
  proof (cases "fill_file_buf r")
    case (Pair f r1)
    show ?thesis
    proof (cases f)
      case (File_Data a)
      show ?thesis
      proof (cases a rule: jisyo_piece_cases)
        case 1
        show ?thesis
        proof (cases "a = []")
          case True
          then have "line' = line"
            using "1.prems" Pair File_Data 1(2) by (simp add: read_jisyo_line_loop.simps [of r])
          then show ?thesis using "1.prems"(2) bl by simp
        next
          case False
          then have "read_jisyo_line_loop (consume_file (length a) r1) (line @ a) = (Ok line', r')"
            using "1.prems" Pair File_Data 1(2) by (simp add: read_jisyo_line_loop.simps [of r])
          then show ?thesis
            using "1.IH"(1) [OF Pair [symmetric] File_Data refl 1(2) [symmetric] refl] False "1.prems"(2) 1(1) by simp
        qed
      next
        case (2 w c v)
        then have "line' = line @ w @ [c]"
          using "1.prems" Pair File_Data by (simp add: read_jisyo_line_loop.simps [of r])
        then show ?thesis using "1.prems"(2) 2(2) by (simp add: butlast_append)
      qed
    next
      case File_Interrupted
      then have "read_jisyo_line_loop r1 line = (Ok line', r')"
        using "1.prems" Pair by (simp add: read_jisyo_line_loop.simps [of r])
      from "1.IH"(2) [OF Pair [symmetric] File_Interrupted this "1.prems"(2)] show ?thesis .
    next
      case File_Error
      then show ?thesis using "1.prems" Pair by (simp add: read_jisyo_line_loop.simps [of r])
    qed
  qed
qed

lemma chomp_no_newline:
  assumes "chomp line last_cr = Ok (Some l)" and "no_newline (butlast line)"
  shows "no_newline l"
  using assms in_set_butlastD
  by (cases line rule: rev_cases)
    (auto simp: chomp_def and_then_eq_Ok slice_res_def slice_def no_newline_def split: if_splits
      dest: in_set_takeD in_set_dropD)

lemma print_skip_not_Ok_False: "print_skip_warning t l je \<noteq> Ok False"
  by (simp add: print_skip_warning_def split: res.split)

lemma not_skipped:
  "is_skip_and_print_warning t tw l je = Ok False \<Longrightarrow> l \<noteq> [] \<and> hd l \<noteq> space"
  using print_skip_not_Ok_False [of t l je]
  by (cases l) (auto simp: is_skip_and_print_warning_def Let_def index_res_def split: if_splits)

lemma jisyo_line_turn_ordered:
  assumes "twoway_documented tw" and "line_tables t" and "entries_ordered (snd st)"
    and "no_newline (butlast line)" and ok: "jisyo_line_turn t tw je oe line st = Ok st'"
  shows "entries_ordered (snd st')"
proof -
  obtain ch where ch: "chomp line (fst st) = Ok ch" using ok by (auto simp: jisyo_line_turn_def and_then_eq_Ok)
  show ?thesis
  proof (cases ch)
    case None
    then show ?thesis using ok ch assms(3) by (simp add: jisyo_line_turn_def)
  next
    case (Some l)
    then obtain skip where skip: "is_skip_and_print_warning t tw l je = Ok skip"
      using ok ch by (auto simp: jisyo_line_turn_def and_then_eq_Ok)
    show ?thesis
    proof (cases skip)
      case True
      then show ?thesis using ok ch Some skip assms(3) by (auto simp: jisyo_line_turn_def and_then_eq_Ok)
    next
      case False
      then obtain m' where "update_jisyo_entries_map t tw (snd st) l je oe = Ok m'" "snd st' = m'"
        using ok ch Some skip by (auto simp: jisyo_line_turn_def and_then_eq_Ok)
      moreover have "chomp line (fst st) = Ok (Some l)" using ch Some by simp
      moreover have "l \<noteq> [] \<and> hd l \<noteq> space" using not_skipped [of t tw l je] skip False by simp
      ultimately show ?thesis
        using update_entries_ordered [OF assms(1-3), of l je oe m'] chomp_no_newline [OF _ assms(4)] by blast
    qed
  qed
qed

lemma jisyo_lines_loop_ordered:
  "twoway_documented tw \<Longrightarrow> line_tables t \<Longrightarrow> entries_ordered (snd st) \<Longrightarrow>
   jisyo_lines_loop t tw je oe r st = Ok m \<Longrightarrow> entries_ordered m"
proof (induction t tw je oe r st rule: jisyo_lines_loop.induct)
  case (1 t tw je oe r st)
  obtain res r' where rr: "read_until_skk_jisyo r = (res, r')" by fastforce
  show ?case
  proof (cases res)
    case (Ok line)
    show ?thesis
    proof (cases "line = []")
      case True
      then show ?thesis using "1.prems" rr Ok by (simp add: jisyo_lines_loop.simps [of t tw je oe r])
    next
      case False
      then obtain st' where st': "jisyo_line_turn t tw je oe line st = Ok st'" "jisyo_lines_loop t tw je oe r' st' = Ok m"
        using "1.prems" rr Ok by (auto simp: jisyo_lines_loop.simps [of t tw je oe r] and_then_eq_Ok)
      have "no_newline (butlast line)"
        using read_jisyo_line_loop_newline [of r "[]" line r'] rr Ok by (simp add: read_until_skk_jisyo_def)
      from jisyo_line_turn_ordered [OF "1.prems"(1-3) this st'(1)]
      show ?thesis using "1.IH" [OF rr [symmetric] Ok False st'(1) "1.prems"(1,2)] st'(2) by blast
    qed
  qed (use "1.prems" rr in \<open>simp_all add: jisyo_lines_loop.simps [of t tw je oe r]\<close>)
qed

lemma core_ordered:
  "twoway_documented tw \<Longrightarrow> line_tables t \<Longrightarrow> entries_ordered m \<Longrightarrow>
   get_merged_jisyo_entries_map_core t tw oe fs m = Ok m' \<Longrightarrow> entries_ordered m'"
proof (induction fs arbitrary: m)
  case (Cons f fs)
  then obtain m1 where m1: "read_jisyo_file t tw oe f m = Ok m1" "get_merged_jisyo_entries_map_core t tw oe fs m1 = Ok m'"
    by (auto simp: and_then_eq_Ok)
  have "entries_ordered m1"
    using m1(1) jisyo_lines_loop_ordered [OF Cons.prems(1,2), of "(False, m)"] Cons.prems(3)
    by (auto simp: read_jisyo_file_def and_then_eq_Ok split: option.splits)
  then show ?case using Cons.IH [OF Cons.prems(1,2) _ m1(2)] by simp
qed simp

lemma merged_entries_ordered:
  "twoway_documented tw \<Longrightarrow> line_tables t \<Longrightarrow> get_merged_jisyo_entries_map t tw fs oe = Ok m \<Longrightarrow> entries_ordered m"
  using core_ordered [of tw t "[]" "Some oe" fs m]
  by (simp add: get_merged_jisyo_entries_map_def entries_ordered_def btree_sorted_def)


section \<open>Lines of their own\<close>

lemma jisyo_lines_append:
  "pre = [] \<or> last pre = lf \<or> last pre = cr \<Longrightarrow> jisyo_lines (pre @ bs) = jisyo_lines pre @ jisyo_lines bs"
proof (induction pre)
  case (Cons b pre)
  show ?case
  proof (cases "pre = []")
    case False
    then have "jisyo_lines (pre @ bs) = jisyo_lines pre @ jisyo_lines bs" using Cons by simp
    then show ?thesis using False by (cases "jisyo_lines pre") auto
  qed (use Cons.prems in auto)
qed simp

lemma jisyo_turns_last:
  assumes "\<And>st. and_then (jisyo_line_turn t tw je oe l st) (\<lambda>st. Ok (snd st))
      = and_then (jisyo_line_turn t tw je oe l' st) (\<lambda>st. Ok (snd st))"
  shows "jisyo_turns t tw je oe (ls @ [l]) st = jisyo_turns t tw je oe (ls @ [l']) st"
proof (induction ls arbitrary: st)
  case Nil
  have "jisyo_turns t tw je oe [] = (\<lambda>st. Ok (snd st))" by (rule ext) simp
  then show ?case using assms by simp
next
  case (Cons x ls)
  have "jisyo_turns t tw je oe (ls @ [l]) = jisyo_turns t tw je oe (ls @ [l'])" by (rule ext) (rule Cons.IH)
  then show ?case by simp
qed

lemma chomp_line: "w \<noteq> [] \<Longrightarrow> no_newline w \<Longrightarrow> chomp (w @ [b]) f = Ok (Some w)"
  by (cases w) (auto simp: chomp_def index_res_def slice_res_def slice_def)

lemma jisyo_line_turn_line:
  "w \<noteq> [] \<Longrightarrow> no_newline w \<Longrightarrow>
   jisyo_line_turn t tw je oe (w @ [b]) st =
     and_then (is_skip_and_print_warning t tw w je) (\<lambda>skip.
       if skip then Ok (b = cr, snd st)
       else and_then (update_jisyo_entries_map t tw (snd st) w je oe) (\<lambda>m. Ok (b = cr, m)))"
  by (simp add: jisyo_line_turn_def chomp_line index_res_def)

text \<open>C34: The last byte of a file is cut off even when it is not a newline: a file whose last line has no newline gives the same map as the file with that byte replaced by a newline. In a line of the usual form this byte is the slash behind the last candidate, and that candidate is lost.\<close>

theorem last_byte_without_newline_lost:
  assumes "pre = [] \<or> last pre = lf \<or> last pre = cr" and "w \<noteq> []" and "no_newline w"
    and "b \<noteq> lf" and "b \<noteq> cr"
    and "reads_deliver cs" "chunk_bytes cs = pre @ w @ [b]" and "reads_deliver cs'" "chunk_bytes cs' = pre @ w @ [lf]"
  shows "jisyo_lines_loop t tw je oe (file_reader_new cs) st = jisyo_lines_loop t tw je oe (file_reader_new cs') st"
proof -
  have l: "jisyo_lines (w @ [b]) = [w @ [b]]" "jisyo_lines (w @ [lf]) = [w @ [lf]]"
    using jisyo_lines_prefix [of "w @ [b]" "[]"] jisyo_lines_line [of w lf "[]"] assms(2-5)
    by (simp_all add: first_line_def)
  have "jisyo_turns t tw je oe (jisyo_lines pre @ [w @ [b]]) st = jisyo_turns t tw je oe (jisyo_lines pre @ [w @ [lf]]) st"
    by (rule jisyo_turns_last) (auto simp: jisyo_line_turn_line [OF assms(2,3)] assms(5) and_then_assoc intro!: and_then_cong)
  then have "jisyo_turns t tw je oe (jisyo_lines (pre @ w @ [b])) st = jisyo_turns t tw je oe (jisyo_lines (pre @ w @ [lf])) st"
    by (simp add: jisyo_lines_append [OF assms(1)] l)
  then show ?thesis
    using assms(6-) jisyo_lines_loop_turns [of "file_reader_new cs" t tw je oe st]
      jisyo_lines_loop_turns [of "file_reader_new cs'" t tw je oe st]
    by (simp add: file_reader_new_def rest_of_def)
qed

lemma usual_line_not_skipped:
  assumes tw: "twoway_documented tw" and "x \<noteq> []" "space \<notin> set x" "hd x \<noteq> semicolon" "hd x \<noteq> 0x09"
    and "2 \<le> length rest" "hd rest \<noteq> space" "find_bytes tw rest [slash, slash] = None" "no_newline x"
    and "5 \<le> length (x @ space # rest)" "length (x @ space # rest) \<le> jisyo_maximum_line_length"
  shows "is_skip_and_print_warning t tw (x @ space # rest) je = Ok False"
proof -
  have f: "find_bytes tw (x @ space # rest) [space] = Some (length x)" by (rule find_byte_first [OF tw assms(3)])
  obtain b x' where x: "x = b # x'" using assms(2) by (cases x) auto
  have "\<not> is_space_cr_lf_only (x @ space # rest)"
    using assms(3,9) by (auto simp: is_space_cr_lf_only_def x list_ex_iff)
  moreover have "rest ! 0 \<noteq> space" "rest \<noteq> []" using assms(6,7) by (cases rest; simp)+
  ultimately show ?thesis
    using assms f [unfolded x] by (simp add: is_skip_and_print_warning_def Let_def index_res_def tail_res_def x
        jisyo_minimum_line_length_def jisyo_minimum_candidates_length_def nth_append)
qed

text \<open>C35: A line whose slashes all stand before its first space is not skipped and has no candidates: the slice from behind the space to the last slash starts after its end, and the program panics.\<close>

theorem slash_in_midashi_panics:
  assumes "twoway_documented tw" and "space \<notin> set x" and "slash \<in> set x" and "slash \<notin> set rest"
    and "no_newline (x @ space # rest)" and "hd x \<noteq> semicolon" "hd x \<noteq> 0x09" "hd rest \<noteq> space" "2 \<le> length rest"
    and "5 \<le> length (x @ space # rest)" "length (x @ space # rest) \<le> jisyo_maximum_line_length"
  shows "jisyo_line_turn t tw je oe (x @ space # rest @ [lf]) st = Panic"
proof -
  have x: "x \<noteq> []" using assms(3) by auto
  have "find_bytes tw rest [slash, slash] = None"
  proof (rule ccontr)
    assume "find_bytes tw rest [slash, slash] \<noteq> None"
    then obtain i where "find_bytes tw rest [slash, slash] = Some i" by auto
    then have "occurs_at rest [slash, slash] i"
      using assms(1) unfolding twoway_documented_def by (metis (mono_tags, lifting) option.case(2))
    then have "slash \<in> set (take 2 (drop i rest))" by (simp add: occurs_at_def numeral_2_eq_2)
    then show False using assms(4) by (auto dest: in_set_takeD in_set_dropD)
  qed
  then have "is_skip_and_print_warning t tw (x @ space # rest) je = Ok False"
    using usual_line_not_skipped [OF assms(1) x assms(2,6,7,9,8)] assms(5,10,11) by simp
  moreover have "update_jisyo_entries_map t tw (snd st) (x @ space # rest) je oe = Panic"
    using get_midashi_candidates_slash_first [OF assms(1-4)] by (simp add: update_jisyo_entries_map_def)
  ultimately show ?thesis
    using jisyo_line_turn_line [of "x @ space # rest" t tw je oe lf st] assms(5) x by simp
qed


section \<open>Witnesses\<close>

text \<open>A file that is read at once: \<open>aa /b/\<close> and \<open>aa /c/b/\<close> on two lines, or \<open>aa /b/c/\<close> without a newline.\<close>

definition sample_jisyo :: "bytes \<Rightarrow> jisyo_file" where
  "sample_jisyo content = \<lparr>jisyo_content = content, jisyo_first_read = Some 100, jisyo_chunks = \<lambda>p. [Chunk (drop p content)]\<rparr>"

definition sample_two_lines :: bytes where
  "sample_two_lines = [0x61, 0x61, 0x20, 0x2f, 0x62, 0x2f, 0x0a, 0x61, 0x61, 0x20, 0x2f, 0x63, 0x2f, 0x62, 0x2f, 0x0a]"

definition sample_no_newline :: bytes where
  "sample_no_newline = [0x61, 0x61, 0x20, 0x2f, 0x62, 0x2f, 0x63, 0x2f]"

named_theorems jisyo_eval

declare jisyo_line_turn_def [jisyo_eval] chomp_def [jisyo_eval] index_res_def [jisyo_eval] slice_res_def [jisyo_eval]
  slice_def [jisyo_eval] is_skip_and_print_warning_def [jisyo_eval] is_space_cr_lf_only_def [jisyo_eval]
  jisyo_minimum_line_length_def [jisyo_eval] jisyo_minimum_candidates_length_def [jisyo_eval]
  jisyo_maximum_line_length_def [jisyo_eval] naive_twoway_def [jisyo_eval] tail_res_def [jisyo_eval]
  update_jisyo_entries_map_def [jisyo_eval] get_midashi_candidates_def [jisyo_eval]
  encode_midashi_candidates_def [jisyo_eval] remove_duplicates_bytes_def [jisyo_eval]
  remove_duplicates_def [jisyo_eval] merge_trimmed_slash_candidates_def [jisyo_eval] trim_one_slash_def [jisyo_eval]

lemma sample_jisyo_reads:
  "s \<noteq> [] \<Longrightarrow> reads_deliver [Chunk s]" "chunk_bytes [Chunk s] = s"
  by (simp_all add: reads_deliver_def chunk_bytes_def)

lemma sample_jisyo_read:
  assumes "detect_encoding naive_twoway s = Ok (Euc, NoOptions)" and "5 \<le> length s" and "length s \<le> 100"
  shows "get_merged_jisyo_entries_map t naive_twoway [Some (sample_jisyo s)] Euc
     = jisyo_turns t naive_twoway Euc (Some Euc) (jisyo_lines s) (False, [])"
proof -
  have "s \<noteq> []" using assms(2) by auto
  then have "jisyo_lines_loop t naive_twoway Euc (Some Euc) (file_reader_new [Chunk s]) (False, [])
      = jisyo_turns t naive_twoway Euc (Some Euc) (jisyo_lines s) (False, [])"
    using sample_jisyo_reads jisyo_lines_loop_turns [of "file_reader_new [Chunk s]"]
    by (simp add: file_reader_new_def rest_of_def)
  moreover have "get_merged_jisyo_entries_map_core t naive_twoway (Some Euc) [] = Ok"
    by (rule ext) simp
  moreover have "and_then x Ok = x" for x :: "jisyo_entries_map res" by (cases x) simp_all
  ultimately show ?thesis
    using assms
    by (simp add: get_merged_jisyo_entries_map_def read_jisyo_file_def detect_jisyo_encoding_def sample_jisyo_def
        jisyo_encoding_detect_buffer_length_def jisyo_minimum_line_length_def)
qed

lemma sample_two_lines_turns:
  "jisyo_turns t naive_twoway Euc (Some Euc) (jisyo_lines sample_two_lines) (False, [])
     = Ok [([0x61, 0x61], [0x2f, 0x62, 0x2f, 0x63, 0x2f])]"
  by (simp add: sample_two_lines_def jisyo_eval)

lemma sample_two_lines_read:
  "get_merged_jisyo_entries_map t naive_twoway [Some (sample_jisyo sample_two_lines)] Euc
     = Ok [([0x61, 0x61], [0x2f, 0x62, 0x2f, 0x63, 0x2f])]"
proof -
  have "detect_encoding naive_twoway sample_two_lines = Ok (Euc, NoOptions)"
    by (simp add: sample_two_lines_def detect_encoding_def detect_loop.simps in_range_def Let_def naive_twoway_def
        ascii_def i32_quot_def)
  then show ?thesis
    using sample_jisyo_read [of sample_two_lines t] sample_two_lines_turns [of t]
    by (simp add: sample_two_lines_def)
qed

theorem jisyo_lines_any_cut_witness:
  "jisyo_lines_loop tables_new naive_twoway Euc (Some Euc)
     (file_reader_new [Chunk (take 3 sample_two_lines), Chunk_Interrupted, Chunk (drop 3 sample_two_lines)]) (False, [])
     = Ok [([0x61, 0x61], [0x2f, 0x62, 0x2f, 0x63, 0x2f])]"
  using jisyo_lines_any_cut [of "[Chunk (take 3 sample_two_lines), Chunk_Interrupted, Chunk (drop 3 sample_two_lines)]"
      sample_two_lines tables_new naive_twoway Euc "Some Euc" "(False, [])"] sample_two_lines_turns [of tables_new]
  by (simp add: reads_deliver_def chunk_bytes_def sample_two_lines_def)


theorem last_byte_without_newline_lost_witness:
  "jisyo_lines_loop tables_new naive_twoway Euc (Some Euc) (file_reader_new [Chunk sample_no_newline]) (False, [])
     = Ok [([0x61, 0x61], [0x2f, 0x62, 0x2f])]"
proof -
  let ?w = "[0x61, 0x61, 0x20, 0x2f, 0x62, 0x2f, 0x63] :: bytes"
  have e: "sample_no_newline = [] @ ?w @ [slash]" by (simp add: sample_no_newline_def)
  have "jisyo_turns tables_new naive_twoway Euc (Some Euc) (jisyo_lines ([] @ ?w @ [lf])) (False, [])
     = Ok [([0x61, 0x61], [0x2f, 0x62, 0x2f])]"
    by (simp add: jisyo_eval)
  then have "jisyo_lines_loop tables_new naive_twoway Euc (Some Euc) (file_reader_new [Chunk ([] @ ?w @ [lf])]) (False, [])
     = Ok [([0x61, 0x61], [0x2f, 0x62, 0x2f])]"
    using jisyo_lines_loop_turns [of "file_reader_new [Chunk ([] @ ?w @ [lf])]"]
    by (simp add: file_reader_new_def rest_of_def reads_deliver_def chunk_bytes_def)
  then show ?thesis
    unfolding e using last_byte_without_newline_lost [of "[]" ?w slash "[Chunk ([] @ ?w @ [slash])]" "[Chunk ([] @ ?w @ [lf])]"
        tables_new naive_twoway Euc "Some Euc" "(False, [])"]
    by (simp add: reads_deliver_def chunk_bytes_def)
qed

theorem slash_in_midashi_panics_witness:
  "jisyo_line_turn tables_new naive_twoway Euc (Some Euc) ([0x61, 0x2f, 0x62] @ space # [0x63, 0x64] @ [lf]) (False, [])
     = Panic"
  using slash_in_midashi_panics [OF naive_twoway_documented, of "[0x61, 0x2f, 0x62]" "[0x63, 0x64]"]
  by (simp add: jisyo_maximum_line_length_def)

end
