(* ===== verification/Jisyo_Creator.thy ===== *)
theory Jisyo_Creator
  imports Jisyo_Map Dictionary_Lookup
begin

text \<open>
  Writing SKK-JISYO files (\<open>src/skk/yaskkserv2_make_dictionary/jisyo_creator.rs\<close>): from a dictionary,
  whose units are read back and sorted into okuri-ari and okuri-nasi entries, and from a cache of online
  candidates. The file is written through a buffer that the program never flushes itself.
\<close>

section \<open>The buffered writer\<close>

text \<open>
  \<open>BufWriter\<close>, with the bytes that are pending, the bytes that are on the disk, and how many more the disk
  takes. When it is dropped it writes what is pending, and nobody sees whether that worked.
\<close>

record buf_writer =
  pending :: bytes
  on_disk :: bytes
  room :: nat

definition buf_writer_capacity :: nat where
  "buf_writer_capacity = 8 * 1024"

definition inner_write_all :: "bytes \<Rightarrow> buf_writer \<Rightarrow> unit res \<times> buf_writer" where
  "inner_write_all bs w =
     ((if length bs \<le> room w then Ok () else Err Io),
      w\<lparr>on_disk := on_disk w @ take (room w) bs, room := room w - length bs\<rparr>)"

definition flush_buf :: "buf_writer \<Rightarrow> unit res \<times> buf_writer" where
  "flush_buf w = (let (r, w') = inner_write_all (pending w) w in (r, w'\<lparr>pending := drop (room w) (pending w)\<rparr>))"

definition buf_write_all :: "bytes \<Rightarrow> buf_writer \<Rightarrow> unit res \<times> buf_writer" where
  "buf_write_all bs w =
     (let push = (\<lambda>w. (Ok (), w\<lparr>pending := pending w @ bs\<rparr>)) in
      if length bs < buf_writer_capacity - length (pending w) then push w
      else
        let (r, w1) = (if length bs > buf_writer_capacity - length (pending w) then flush_buf w else (Ok (), w))
        in case r of
             Ok _ \<Rightarrow> if length bs \<ge> buf_writer_capacity then inner_write_all bs w1 else push w1
           | e \<Rightarrow> (e, w1))"

fun buf_write_pieces :: "bytes list \<Rightarrow> buf_writer \<Rightarrow> unit res \<times> buf_writer" where
  "buf_write_pieces [] w = (Ok (), w)"
| "buf_write_pieces (p # ps) w =
     (case buf_write_all p w of (Ok _, w') \<Rightarrow> buf_write_pieces ps w' | (e, w') \<Rightarrow> (e, w'))"

definition buf_writer_drop :: "buf_writer \<Rightarrow> bytes" where
  "buf_writer_drop w = on_disk (snd (flush_buf w))"

section \<open>The file\<close>

definition jisyo_encoding_line :: "encoding \<Rightarrow> bytes" where
  "jisyo_encoding_line output_jisyo_encoding =
     (if output_jisyo_encoding = Euc then ascii '';; -*- mode: fundamental; coding: euc-jis-2004 -*-'' @ [lf]
      else ascii '';; -*- mode: fundamental; coding: utf-8 -*-'' @ [lf])"

definition jisyo_pieces :: "encoding \<Rightarrow> jisyo_entries_map \<Rightarrow> jisyo_entries_map \<Rightarrow> bytes list" where
  "jisyo_pieces output_jisyo_encoding okuri_ari_map okuri_nasi_map =
     [jisyo_encoding_line output_jisyo_encoding,
      ascii '';; yaskkserv2 dictionary'' @ [lf],
      ascii '';; okuri-ari entries.'' @ [lf]]
     @ concat (map (\<lambda>midashi. [midashi, [space], the (map_of okuri_ari_map midashi), [lf]])
         (rev (map fst okuri_ari_map)))
     @ [ascii '';; okuri-nasi entries.'' @ [lf]]
     @ concat (map (\<lambda>(midashi, candidates). [midashi, [space], candidates, [lf]]) okuri_nasi_map)"

text \<open>
  The result and the file that is left; \<open>None\<close> for a file that cannot be opened, otherwise the bytes that
  the disk takes.
\<close>

definition jisyo_write ::
  "nat option \<Rightarrow> encoding \<Rightarrow> jisyo_entries_map \<Rightarrow> jisyo_entries_map \<Rightarrow> unit res \<times> bytes option" where
  "jisyo_write disk output_jisyo_encoding okuri_ari_map okuri_nasi_map =
     (case disk of
        None \<Rightarrow> (Err Io, None)
      | Some n \<Rightarrow>
          let (r, w) = buf_write_pieces (jisyo_pieces output_jisyo_encoding okuri_ari_map okuri_nasi_map)
                \<lparr>pending = [], on_disk = [], room = n\<rparr>
          in (r, Some (buf_writer_drop w)))"

section \<open>From a dictionary\<close>

function get_okuri_ari_nasi_maps_loop ::
  "tables \<Rightarrow> twoway \<Rightarrow> bytes \<Rightarrow> encoding \<Rightarrow> encoding \<Rightarrow> nat \<Rightarrow> jisyo_entries_map \<times> jisyo_entries_map
     \<Rightarrow> (jisyo_entries_map \<times> jisyo_entries_map) res" where
  "get_okuri_ari_nasi_maps_loop t tw buffer output_jisyo_encoding dictionary_encoding offset maps =
     and_then (tail_res buffer offset) (\<lambda>rest.
     case find_bytes tw rest [space] of
       None \<Rightarrow> Ok maps
     | Some space_find \<Rightarrow>
         and_then (tail_res buffer (offset + space_find)) (\<lambda>rest.
         case find_bytes tw rest [lf] of
           None \<Rightarrow> Err BrokenDictionary
         | Some lf_find \<Rightarrow>
             and_then (slice_res buffer (offset + space_find + 1) (offset + space_find + lf_find)) (\<lambda>candidates_slice.
             and_then
               (if output_jisyo_encoding = Euc \<and> dictionary_encoding = Utf8 then encode t candidates_slice
                else if output_jisyo_encoding = Utf8 \<and> dictionary_encoding = Euc then decode t candidates_slice
                else Ok candidates_slice) (\<lambda>candidates.
             and_then (slice_res buffer (offset + 1) (offset + space_find)) (\<lambda>euc_midashi_slice.
             and_then
               (if output_jisyo_encoding = Euc then Ok euc_midashi_slice else decode t euc_midashi_slice) (\<lambda>midashi.
             get_okuri_ari_nasi_maps_loop t tw buffer output_jisyo_encoding dictionary_encoding
               (offset + (space_find + lf_find))
               (if is_okuri_ari euc_midashi_slice then (btree_insert midashi candidates (fst maps), snd maps)
                else (fst maps, btree_insert midashi candidates (snd maps)))))))))"
  by pat_completeness auto
termination
  by (relation "measure (\<lambda>(t, tw, buffer, oe, de, offset, maps). Suc (length buffer) - offset)")
    (auto simp: tail_res_def slice_res_def split: if_splits)

declare get_okuri_ari_nasi_maps_loop.simps [simp del]

definition get_okuri_ari_nasi_maps ::
  "tables \<Rightarrow> twoway \<Rightarrow> bytes \<Rightarrow> encoding \<Rightarrow> encoding \<Rightarrow> jisyo_entries_map \<times> jisyo_entries_map
     \<Rightarrow> (jisyo_entries_map \<times> jisyo_entries_map) res" where
  "get_okuri_ari_nasi_maps t tw buffer output_jisyo_encoding dictionary_encoding maps =
     get_okuri_ari_nasi_maps_loop t tw buffer output_jisyo_encoding dictionary_encoding 0 maps"

definition read_dictionary_block_information ::
  "tables \<Rightarrow> twoway \<Rightarrow> encoding \<Rightarrow> on_memory \<Rightarrow> bytes \<Rightarrow> block_information
     \<Rightarrow> jisyo_entries_map \<times> jisyo_entries_map \<Rightarrow> (jisyo_entries_map \<times> jisyo_entries_map) res" where
  "read_dictionary_block_information t tw output_jisyo_encoding om file info maps =
     and_then (read_exact_at file (unat (blocks_offset (dictionary_fixed_header om)) + unat (info_offset info))
         (unat (info_length info))) (\<lambda>buffer.
     and_then (encoding_from_u32 (header_encoding (dictionary_fixed_header om))) (\<lambda>dictionary_encoding.
     get_okuri_ari_nasi_maps t tw buffer output_jisyo_encoding dictionary_encoding maps))"

fun read_dictionary_block_informations ::
  "tables \<Rightarrow> twoway \<Rightarrow> encoding \<Rightarrow> on_memory \<Rightarrow> bytes \<Rightarrow> block_information list
     \<Rightarrow> jisyo_entries_map \<times> jisyo_entries_map \<Rightarrow> (jisyo_entries_map \<times> jisyo_entries_map) res" where
  "read_dictionary_block_informations t tw oe om file [] maps = Ok maps"
| "read_dictionary_block_informations t tw oe om file (info # infos) maps =
     and_then (read_dictionary_block_information t tw oe om file info maps)
       (read_dictionary_block_informations t tw oe om file infos)"

text \<open>The order in which the hash map of the index is visited is a parameter: a list that holds its keys.\<close>

definition jisyo_create ::
  "endianness \<Rightarrow> (bytes \<Rightarrow> bytes) \<Rightarrow> nat \<Rightarrow> twoway \<Rightarrow> dictionary_midashi_key list
     \<Rightarrow> encoding \<Rightarrow> bytes option \<Rightarrow> tables option \<Rightarrow> nat option \<Rightarrow> unit res \<times> bytes option" where
  "jisyo_create e sha1 read_buffer_length tw keys output_encoding file once disk =
     (case and_then (dictionary_setup e sha1 read_buffer_length file once) (\<lambda>(om, once').
           case (file, once') of
             (Some bs, Some t) \<Rightarrow>
               let infos = concat (map (\<lambda>k. case index_map om k of None \<Rightarrow> [] | Some infos \<Rightarrow> infos) keys)
                     @ concat (index_ascii_hiragana_vec om)
               in read_dictionary_block_informations t tw output_encoding om bs infos ([], [])
           | _ \<Rightarrow> Panic) of
        Ok (okuri_ari_map, okuri_nasi_map) \<Rightarrow> jisyo_write disk output_encoding okuri_ari_map okuri_nasi_map
      | e \<Rightarrow> (and_then e (\<lambda>_. Ok ()), None))"

section \<open>From a cache\<close>

text \<open>The first value of a cache entry is its time.\<close>

definition cache_candidates :: "bytes list \<Rightarrow> bytes" where
  "cache_candidates values = concat (map (\<lambda>v. quote_and_add_prefix v (Some slash)) (drop 1 values))"

definition unwrap_res :: "'a res \<Rightarrow> 'a res" where
  "unwrap_res r = (case r of Err _ \<Rightarrow> Panic | _ \<Rightarrow> r)"

fun cache_entries_loop ::
  "tables \<Rightarrow> encoding \<Rightarrow> google_cache_map \<Rightarrow> jisyo_entries_map \<Rightarrow> jisyo_entries_map res" where
  "cache_entries_loop t output_jisyo_encoding [] okuri_nasi_map = Ok okuri_nasi_map"
| "cache_entries_loop t output_jisyo_encoding ((key, values) # rest) okuri_nasi_map =
     (let utf8_candidates = cache_candidates values in
      and_then (if output_jisyo_encoding = Euc then
                  and_then (unwrap_res (encode t key)) (\<lambda>midashi.
                  and_then (unwrap_res (encode t utf8_candidates)) (\<lambda>candidates. Ok (midashi, candidates)))
                else Ok (key, utf8_candidates)) (\<lambda>(midashi, candidates).
      cache_entries_loop t output_jisyo_encoding rest
        (btree_insert midashi (candidates @ [slash]) okuri_nasi_map)))"

definition jisyo_create_from_cache ::
  "bincode \<Rightarrow> (bytes \<Rightarrow> bytes) \<Rightarrow> tables \<Rightarrow> bytes option \<Rightarrow> encoding \<Rightarrow> nat option \<Rightarrow> unit res \<times> bytes option" where
  "jisyo_create_from_cache bc sha1 t cache output_jisyo_encoding disk =
     (case and_then (google_cache_read bc sha1 cache) (\<lambda>m. cache_entries_loop t output_jisyo_encoding m []) of
        Ok okuri_nasi_map \<Rightarrow> jisyo_write disk output_jisyo_encoding [] okuri_nasi_map
      | e \<Rightarrow> (and_then e (\<lambda>_. Ok ()), None))"

end
