(* ===== verification/Jisyo_Roundtrip.thy ===== *)
theory Jisyo_Roundtrip
  imports Jisyo_Creator
begin

text \<open>
  The file that is written from a created dictionary: it lists the entries, and reading it gives the
  same dictionary again. Then the buffered writer, on a disk with enough room and on a full one, and the
  file that is written from a cache.
\<close>

section \<open>The writer\<close>

lemma inner_write_all_Ok:
  "length bs \<le> room w \<Longrightarrow> inner_write_all bs w = (Ok (), w\<lparr>on_disk := on_disk w @ bs, room := room w - length bs\<rparr>)"
  by (simp add: inner_write_all_def)

lemma flush_buf_Ok:
  "length (pending w) \<le> room w \<Longrightarrow>
   flush_buf w = (Ok (), \<lparr>pending = [], on_disk = on_disk w @ pending w, room = room w - length (pending w)\<rparr>)"
  by (cases w) (simp add: flush_buf_def inner_write_all_Ok)

definition writer_holds :: "buf_writer \<Rightarrow> bytes \<Rightarrow> nat \<Rightarrow> bool" where
  "writer_holds w bs n \<longleftrightarrow> on_disk w @ pending w = bs \<and> room w = n + length (pending w)
     \<and> length (pending w) \<le> buf_writer_capacity"

lemma buf_write_all_Ok:
  assumes "writer_holds w xs (length bs + n)"
  shows "\<exists>w'. buf_write_all bs w = (Ok (), w') \<and> writer_holds w' (xs @ bs) n"
proof (cases "length bs < buf_writer_capacity - length (pending w)")
  case True
  then show ?thesis using assms by (auto simp: buf_write_all_def writer_holds_def)
next
  case False
  define w1 where "w1 = (if length bs > buf_writer_capacity - length (pending w)
    then \<lparr>pending = [], on_disk = on_disk w @ pending w, room = room w - length (pending w)\<rparr> else w)"
  have "buf_write_all bs w = (if length bs \<ge> buf_writer_capacity then inner_write_all bs w1
      else (Ok (), w1\<lparr>pending := pending w1 @ bs\<rparr>))"
    using False assms by (auto simp: buf_write_all_def w1_def writer_holds_def flush_buf_Ok)
  moreover have "writer_holds w1 xs (length bs + n)" using assms by (auto simp: writer_holds_def w1_def)
  moreover have "pending w1 = []" if "length bs \<ge> buf_writer_capacity"
  proof (cases "length bs > buf_writer_capacity - length (pending w)")
    case False
    moreover have "length (pending w) \<le> buf_writer_capacity" "0 < buf_writer_capacity"
      using assms by (simp_all add: writer_holds_def buf_writer_capacity_def)
    ultimately have "length (pending w) = 0" using that by linarith
    then show ?thesis by (simp add: w1_def)
  qed (simp add: w1_def)
  moreover have "length (pending w1) + length bs \<le> buf_writer_capacity" if "\<not> length bs \<ge> buf_writer_capacity"
    using that assms by (auto simp: w1_def writer_holds_def)
  ultimately show ?thesis by (auto simp: inner_write_all_Ok writer_holds_def)
qed

lemma buf_write_pieces_Ok:
  "writer_holds w xs (length (concat ps) + n) \<Longrightarrow>
   \<exists>w'. buf_write_pieces ps w = (Ok (), w') \<and> writer_holds w' (xs @ concat ps) n"
proof (induction ps arbitrary: w xs)
  case (Cons p ps)
  then have "writer_holds w xs (length p + (length (concat ps) + n))" by (simp add: add.assoc)
  from buf_write_all_Ok [OF this] obtain w1 where "buf_write_all p w = (Ok (), w1)"
    "writer_holds w1 (xs @ p) (length (concat ps) + n)" by blast
  then show ?case using Cons.IH [of w1 "xs @ p"] by simp
qed simp

definition jisyo_text :: "encoding \<Rightarrow> jisyo_entries_map \<Rightarrow> jisyo_entries_map \<Rightarrow> bytes" where
  "jisyo_text enc ari nasi = concat (jisyo_pieces enc ari nasi)"

lemma jisyo_write_Ok:
  assumes "length (jisyo_text enc ari nasi) \<le> n"
  shows "jisyo_write (Some n) enc ari nasi = (Ok (), Some (jisyo_text enc ari nasi))"
proof -
  let ?w = "\<lparr>pending = [], on_disk = [], room = n\<rparr>"
  have "writer_holds ?w [] (length (concat (jisyo_pieces enc ari nasi)) + (n - length (jisyo_text enc ari nasi)))"
    using assms by (simp add: writer_holds_def jisyo_text_def)
  from buf_write_pieces_Ok [OF this] obtain w where "buf_write_pieces (jisyo_pieces enc ari nasi) ?w = (Ok (), w)"
    and w: "writer_holds w (jisyo_text enc ari nasi) (n - length (jisyo_text enc ari nasi))"
    by (auto simp: jisyo_text_def)
  moreover have "buf_writer_drop w = jisyo_text enc ari nasi"
    using w by (simp add: buf_writer_drop_def flush_buf_Ok writer_holds_def)
  ultimately show ?thesis by (simp add: jisyo_write_def)
qed

lemma buf_write_pieces_pending:
  "length (pending w) + length (concat ps) < buf_writer_capacity \<Longrightarrow>
   buf_write_pieces ps w = (Ok (), w\<lparr>pending := pending w @ concat ps\<rparr>)"
proof (induction ps arbitrary: w)
  case (Cons p ps)
  then have "length p < buf_writer_capacity - length (pending w)" by simp
  then have "buf_write_all p w = (Ok (), w\<lparr>pending := pending w @ p\<rparr>)" by (simp add: buf_write_all_def)
  then show ?case using Cons.IH [of "w\<lparr>pending := pending w @ p\<rparr>"] Cons.prems by simp
qed simp

text \<open>C36: A file below eight kilobytes stays in the buffer of the writer until that is dropped: the program reports success whatever the disk does then, and on a full disk a part of the file, or an empty one, is left.\<close>

theorem jisyo_write_error_lost:
  assumes "length (jisyo_text enc ari nasi) < buf_writer_capacity"
  shows "jisyo_write (Some n) enc ari nasi = (Ok (), Some (take n (jisyo_text enc ari nasi)))"
  using assms
  by (simp add: jisyo_write_def buf_write_pieces_pending jisyo_text_def buf_writer_drop_def flush_buf_def
      inner_write_all_def)

theorem jisyo_write_error_lost_witness:
  "jisyo_write (Some 0) Euc [] [] = (Ok (), Some [])"
  using jisyo_write_error_lost [of Euc "[]" "[]" 0]
  by (simp add: jisyo_text_def jisyo_pieces_def jisyo_encoding_line_def ascii_def buf_writer_capacity_def)

section \<open>The lines of the file\<close>

lemma map_of_pieces:
  assumes "distinct (map fst m)" "set ks \<subseteq> set (map fst m)"
  shows "concat (concat (map (\<lambda>k. [k, [space], the (map_of m k), [lf]]) ks))
    = concat (map (\<lambda>k. entry_line (k, the (map_of m k))) ks)"
  by (induction ks) (simp_all add: entry_line_def)

lemma jisyo_text_lines:
  assumes "distinct (map fst ari)"
  shows "jisyo_text enc ari nasi = jisyo_encoding_line enc @ ascii '';; yaskkserv2 dictionary'' @ [lf]
    @ ascii '';; okuri-ari entries.'' @ [lf] @ concat (map entry_line (rev ari))
    @ ascii '';; okuri-nasi entries.'' @ [lf] @ concat (map entry_line nasi)"
proof -
  have e: "entry_line (fst p, the (map_of ari (fst p))) = entry_line p" if "p \<in> set (rev ari)" for p
  proof -
    have "(fst p, snd p) \<in> set ari" using that by simp
    from map_of_is_SomeI [OF assms this] show ?thesis by simp
  qed
  have "concat (concat (map (\<lambda>k. [k, [space], the (map_of ari k), [lf]]) (rev (map fst ari))))
      = concat (map (\<lambda>p. entry_line (fst p, the (map_of ari (fst p)))) (rev ari))"
    using map_of_pieces [of ari "rev (map fst ari)"] assms by (simp add: rev_map comp_def)
  also have "\<dots> = concat (map entry_line (rev ari))"
    using e by (intro arg_cong [where f = concat] map_cong) simp_all
  finally have "concat (concat (map (\<lambda>k. [k, [space], the (map_of ari k), [lf]]) (rev (map fst ari))))
      = concat (map entry_line (rev ari))" .
  moreover have "concat (concat (map (\<lambda>(m, c). [m, [space], c, [lf]]) nasi)) = concat (map entry_line nasi)"
    by (induction nasi) (auto simp: entry_line_def)
  ultimately show ?thesis by (simp add: jisyo_text_def jisyo_pieces_def)
qed

section \<open>Sorted maps\<close>

lemma btree_sorted_unique:
  assumes "btree_sorted a" "btree_sorted b" "set a = set b"
  shows "a = b"
proof (rule map_sorted_distinct_set_unique [where f = fst])
  have s: "sorted (map fst x) \<and> distinct (map fst x)" if "btree_sorted x" for x :: "(bytes \<times> 'a) list"
    using that btree_distinct [OF that] by (simp add: btree_sorted_def strict_sorted_imp_sorted)
  show "sorted (map fst a)" "distinct (map fst a)" "sorted (map fst b)" "distinct (map fst b)"
    using s assms(1,2) by auto
  show "inj_on fst (set a \<union> set b)"
    using s [OF assms(1)] assms(3) by (simp add: distinct_map)
qed (rule assms(3))

lemma from_list_sorted:
  assumes "btree_sorted b" "set xs = set b"
  shows "btree.from_list xs = b"
proof (rule btree_sorted_unique [OF btree.from_list_ordered assms(1)])
  have d: "distinct (map fst b)" using btree_distinct [OF assms(1)] .
  have "map_of (rev xs) k = Some v \<longleftrightarrow> (k, v) \<in> set b" for k v
  proof
    assume "map_of (rev xs) k = Some v"
    from map_of_SomeD [OF this] show "(k, v) \<in> set b" using assms(2) by simp
  next
    assume kv: "(k, v) \<in> set b"
    then have "(k, v) \<in> set (rev xs)" using assms(2) by simp
    from weak_map_of_SomeI [OF this] obtain v' where v': "map_of (rev xs) k = Some v'" by blast
    from map_of_SomeD [OF this] have "(k, v') \<in> set b" using assms(2) by simp
    with kv have "v' = v" using eq_key_imp_eq_value [OF d] by blast
    then show "map_of (rev xs) k = Some v" using v' by simp
  qed
  then have "(k, v) \<in> set (btree.from_list xs) \<longleftrightarrow> (k, v) \<in> set b" for k v
    using btree.entries_lookup [OF btree.from_list_ordered, of k v xs] btree.lookup_from_list [of xs k] by simp
  then show "set (btree.from_list xs) = set b" by (intro set_eqI) (metis surj_pair)
qed

definition insert_entry ::
  "bytes \<times> bytes \<Rightarrow> jisyo_entries_map \<times> jisyo_entries_map \<Rightarrow> jisyo_entries_map \<times> jisyo_entries_map" where
  "insert_entry p maps = (if is_okuri_ari (fst p) then (btree_insert (fst p) (snd p) (fst maps), snd maps)
     else (fst maps, btree_insert (fst p) (snd p) (snd maps)))"

lemma fold_insert_entry:
  "fold insert_entry ps (a, b) =
     (fold (\<lambda>(k, v). btree_insert k v) (filter (\<lambda>p. is_okuri_ari (fst p)) ps) a,
      fold (\<lambda>(k, v). btree_insert k v) (filter (\<lambda>p. \<not> is_okuri_ari (fst p)) ps) b)"
  by (induction ps arbitrary: a b) (auto simp: insert_entry_def)

lemma ascending_sorted: "ascending es \<Longrightarrow> btree_sorted (filter P es)"
  by (simp add: ascending_def btree_sorted_def sorted_wrt_map sorted_wrt_filter)

lemma fold_insert_entry_sorted:
  assumes "ascending es" "set ps = set es"
  shows "fold insert_entry ps ([], []) =
    (filter (\<lambda>p. is_okuri_ari (fst p)) es, filter (\<lambda>p. \<not> is_okuri_ari (fst p)) es)"
proof -
  have "btree.from_list (filter P ps) = filter P es" for P
    using from_list_sorted [OF ascending_sorted [OF assms(1), of P], of "filter P ps"] assms(2) by auto
  then show ?thesis by (simp add: fold_insert_entry btree.from_list_def)
qed

section \<open>Reading the units back\<close>

definition jisyo_candidates :: "tables \<Rightarrow> encoding \<Rightarrow> bytes \<Rightarrow> bytes" where
  "jisyo_candidates t dictionary_encoding c = (if dictionary_encoding = Utf8 then scan (encode_unit t) c else c)"

definition jisyo_entry :: "tables \<Rightarrow> encoding \<Rightarrow> bytes \<times> bytes \<Rightarrow> bytes \<times> bytes" where
  "jisyo_entry t dictionary_encoding p = (fst p, jisyo_candidates t dictionary_encoding (snd p))"

lemma get_okuri_ari_nasi_maps_loop_block:
  assumes tw: "twoway_documented tw" and wf: "tables_wf t"
  shows "\<forall>p \<in> set g2. entry_ok p \<Longrightarrow>
   get_okuri_ari_nasi_maps_loop t tw (block_of (g1 @ g2)) Euc de (lines_length g1) maps
     = Ok (fold insert_entry (map (jisyo_entry t de) g2) maps)"
proof (induction g2 arbitrary: g1 maps)
  case Nil
  have "drop (lines_length g1) (block_of g1) = [lf]" using drop_block [of g1 "[]"] by (simp add: block_of_def)
  moreover have "lines_length g1 \<le> length (block_of g1)" by (simp add: block_of_def lines_length_def length_concat)
  ultimately have "tail_res (block_of g1) (lines_length g1) = Ok [lf]" by (simp add: tail_res_def)
  moreover have "find_bytes tw [lf] [space] = None" by (rule find_byte_none [OF tw]) simp
  ultimately show ?case by (simp add: get_okuri_ari_nasi_maps_loop.simps)
next
  case (Cons p g2)
  obtain m c where p: "p = (m, c)" by (cases p)
  let ?b = "block_of (g1 @ p # g2)" and ?o = "lines_length g1"
  have ok: "space \<notin> set (lf # m)" "lf \<notin> set (space # c)" using Cons.prems by (simp_all add: entry_ok_def p)
  have rest: "drop ?o ?b = (lf # m) @ space # (c @ block_of g2)"
    using drop_block [of g1 "p # g2"] by (simp add: block_of_def p entry_line_def)
  have len: "?o \<le> length ?b" by (simp add: block_of_def lines_length_def length_concat)
  have "?o + Suc (length m) \<le> length ?b" using arg_cong [OF rest, of length] len by simp
  moreover have "drop (?o + Suc (length m)) ?b = space # c @ block_of g2"
    using arg_cong [OF rest, of "drop (Suc (length m))"] by (simp add: add.commute)
  ultimately have t2: "tail_res ?b (?o + length (lf # m)) = Ok ((space # c) @ lf # tl (block_of g2))"
    by (simp add: tail_res_def block_of_def)
  have s1: "slice_res ?b (?o + length (lf # m) + 1) (?o + length (lf # m) + length (space # c)) = Ok c"
  proof -
    have "drop (?o + length (lf # m) + 1) ?b = c @ block_of g2"
      using arg_cong [OF rest, of "drop (length (lf # m) + 1)"] by (simp add: add.commute add.left_commute)
    moreover have "?o + length (lf # m) + length (space # c) \<le> length ?b"
      using arg_cong [OF rest, of length] len by (simp add: block_of_def)
    ultimately show ?thesis by (simp add: slice_res_def slice_def)
  qed
  have s2: "slice_res ?b (?o + 1) (?o + length (lf # m)) = Ok m"
  proof -
    have "drop (?o + 1) ?b = m @ space # c @ block_of g2"
      using arg_cong [OF rest, of "drop 1"] by simp
    moreover have "?o + length (lf # m) \<le> length ?b" using arg_cong [OF rest, of length] len by simp
    ultimately show ?thesis by (simp add: slice_res_def slice_def)
  qed
  have next_offset: "?o + (length (lf # m) + length (space # c)) = lines_length (g1 @ [p])"
    by (simp add: lines_length_def p entry_line_def)
  have e: "encode t c = Ok (scan (encode_unit t) c)" by (rule encode_eq_scan [OF wf])
  have "get_okuri_ari_nasi_maps_loop t tw ?b Euc de ?o maps
      = get_okuri_ari_nasi_maps_loop t tw ?b Euc de (lines_length (g1 @ [p])) (insert_entry (jisyo_entry t de p) maps)"
    using rest len find_byte_first [OF tw ok(1), of "c @ block_of g2"] t2 s1 s2
      find_byte_first [OF tw ok(2), of "tl (block_of g2)"] e next_offset
    by (subst get_okuri_ari_nasi_maps_loop.simps)
      (simp add: tail_res_def insert_entry_def jisyo_entry_def jisyo_candidates_def p del: length_Cons)
  also have "\<dots> = Ok (fold insert_entry (map (jisyo_entry t de) g2) (insert_entry (jisyo_entry t de p) maps))"
    using Cons.IH [of "g1 @ [p]"] Cons.prems by simp
  finally show ?case by simp
qed

lemma unit_bytes:
  assumes gs: "concat gs = es" "j < length gs" and blocks: "blocks = pre @ padded (block_of es) @ post"
    and at: "drop off file = blocks" "off + length blocks = length file" and size: "length blocks < 2 ^ 32"
    and info: "info = infos_for (length pre) 0 gs ! j"
  shows "read_exact_at file (off + unat (info_offset info)) (unat (info_length info)) = Ok (block_of (gs ! j))"
proof -
  define k where "k = length pre + lines_length (concat (take j gs))"
  note unit = unit_of_block [OF gs, of pre post, folded blocks k_def]
  have un: "unat (of_nat x :: u32) = x" if "x \<le> length blocks" for x
    using that size by (simp add: unsigned_of_nat take_bit_nat_eq_self)
  have "unat (info_offset info) = k" "unat (info_length info) = Suc (lines_length (gs ! j))"
    using unit(2) un [of k] un [of "Suc (lines_length (gs ! j))"] by (simp_all add: info infos_for_nth gs(2) k_def)
  then show ?thesis using read_exact_at_behind [OF at unit(2)] unit(1) by simp
qed

lemma read_informations_append:
  "read_dictionary_block_informations t tw oe om file (as @ bs) maps =
     and_then (read_dictionary_block_informations t tw oe om file as maps)
       (read_dictionary_block_informations t tw oe om file bs)"
  by (induction as arbitrary: maps) (auto simp: and_then_assoc intro!: and_then_cong)

text \<open>A list of units whose entries are \<open>ps\<close>.\<close>

definition reads_entries ::
  "tables \<Rightarrow> twoway \<Rightarrow> encoding \<Rightarrow> on_memory \<Rightarrow> bytes \<Rightarrow> block_information list \<Rightarrow> (bytes \<times> bytes) set \<Rightarrow> bool" where
  "reads_entries t tw de om file infos S \<longleftrightarrow>
     (\<exists>ps. set ps = S \<and> (\<forall>maps. read_dictionary_block_informations t tw Euc om file infos maps
        = Ok (fold insert_entry (map (jisyo_entry t de) ps) maps)))"

lemma reads_entries_Nil: "reads_entries t tw de om file [] {}"
  by (auto simp: reads_entries_def intro: exI [of _ "[]"])

lemma reads_entries_append:
  assumes "reads_entries t tw de om file as S" "reads_entries t tw de om file bs T"
  shows "reads_entries t tw de om file (as @ bs) (S \<union> T)"
proof -
  obtain ps qs where "set ps = S" "set qs = T"
    "\<And>maps. read_dictionary_block_informations t tw Euc om file as maps = Ok (fold insert_entry (map (jisyo_entry t de) ps) maps)"
    "\<And>maps. read_dictionary_block_informations t tw Euc om file bs maps = Ok (fold insert_entry (map (jisyo_entry t de) qs) maps)"
    using assms unfolding reads_entries_def by blast
  then show ?thesis
    unfolding reads_entries_def by (intro exI [of _ "ps @ qs"]) (simp add: read_informations_append)
qed

lemma reads_entries_block:
  assumes tw: "twoway_documented tw" and wf: "tables_wf t" and de: "header_encoding (dictionary_fixed_header om) = encoding_as_u32 de"
    and ok: "\<forall>p \<in> set g. entry_ok p"
    and bytes: "read_exact_at file (unat (blocks_offset (dictionary_fixed_header om)) + unat (info_offset info))
      (unat (info_length info)) = Ok (block_of g)"
  shows "reads_entries t tw de om file [info] (set g)"
proof -
  have "get_okuri_ari_nasi_maps t tw (block_of g) Euc de maps = Ok (fold insert_entry (map (jisyo_entry t de) g) maps)" for maps
    using get_okuri_ari_nasi_maps_loop_block [OF tw wf ok, of "[]" de maps] by (simp add: get_okuri_ari_nasi_maps_def)
  then show ?thesis
    unfolding reads_entries_def
    by (intro exI [of _ g]) (simp add: read_dictionary_block_information_def bytes de)
qed

lemma reads_entries_concat:
  "(\<And>x. x \<in> set xs \<Longrightarrow> reads_entries t tw de om file (f x) (S x)) \<Longrightarrow>
   reads_entries t tw de om file (concat (map f xs)) (\<Union>x \<in> set xs. S x)"
  by (induction xs) (simp_all add: reads_entries_Nil reads_entries_append)

lemma reads_entries_key:
  assumes tw: "twoway_documented tw" and wf: "tables_wf t" and ok: "\<forall>p \<in> set es. entry_ok p"
    and holds: "holds_entries es enc dict om us blocks" and k: "(k, infos) \<in> set us"
  shows "reads_entries t tw enc om dict infos (set (entries_with k es))"
proof -
  have h: "header_encoding (dictionary_fixed_header om) = encoding_as_u32 enc"
    "drop (unat (blocks_offset (dictionary_fixed_header om))) dict = blocks"
    "unat (blocks_offset (dictionary_fixed_header om)) + length blocks = length dict" "length blocks < 2 ^ 32"
    "block_of_key es blocks k infos"
    using holds k by (auto simp: holds_entries_def Let_def)
  from h(5) obtain gs pre post where g: "concat gs = entries_with k es"
    "infos = rev (infos_for (length pre) 0 gs)" "blocks = pre @ padded (block_of (entries_with k es)) @ post"
    unfolding block_of_key_def by blast
  let ?is = "rev [0..<length gs]"
  have infos: "infos = concat (map (\<lambda>j. [infos_for (length pre) 0 gs ! j]) ?is)"
    using map_nth [of "infos_for (length pre) 0 gs"]
    unfolding concat_map_singleton g(2) by (simp add: rev_map [symmetric])
  have "entry_ok p" if "p \<in> set (gs ! j)" "j < length gs" for j p
  proof -
    have "p \<in> set (concat gs)" using that nth_mem [of j gs] by auto
    then show ?thesis using g(1) ok by (simp add: entries_with_def)
  qed
  then have "reads_entries t tw enc om dict [infos_for (length pre) 0 gs ! j] (set (gs ! j))" if "j \<in> set ?is" for j
    using that reads_entries_block [OF tw wf h(1)] unit_bytes [OF g(1) _ g(3) h(2-4) refl] by simp
  then have "reads_entries t tw enc om dict infos (\<Union>j \<in> set ?is. set (gs ! j))"
    unfolding infos by (rule reads_entries_concat)
  moreover have "(\<Union>j \<in> set ?is. set (gs ! j)) = set (concat gs)"
  proof (rule set_eqI)
    fix p
    have "p \<in> set (concat gs) \<longleftrightarrow> (\<exists>j < length gs. p \<in> set (gs ! j))"
      using in_group [of p gs] nth_mem [of _ gs] unfolding set_concat by blast
    then show "p \<in> (\<Union>j \<in> set ?is. set (gs ! j)) \<longleftrightarrow> p \<in> set (concat gs)" by auto
  qed
  ultimately show ?thesis using g(1) by simp
qed

text \<open>Every list of units in the index belongs to a key, and every key has its list there.\<close>

lemma store_units_map:
  "fst (store_units us maps) k = Some infos \<Longrightarrow> fst maps k = Some infos \<or> (k, infos) \<in> set us"
proof (induction us arbitrary: maps)
  case (Cons u us)
  have "fst (store_informations (fst u) (snd u) maps) k = Some infos \<Longrightarrow> fst maps k = Some infos \<or> (k, infos) = u"
    by (cases u) (auto simp: store_informations_def split: option.splits if_splits)
  then show ?case
    using Cons.IH [of "store_informations (fst u) (snd u) maps"] Cons.prems by (auto simp: store_units_def)
qed (simp add: store_units_def)

lemma store_units_vec:
  "snd (store_units us maps) ! i \<noteq> snd maps ! i \<Longrightarrow> \<exists>u \<in> set us. get_ascii_hiragana_vec_index (fst u) = Some i"
proof (induction us arbitrary: maps)
  case (Cons u us)
  let ?m = "store_informations (fst u) (snd u) maps"
  have "snd ?m ! i \<noteq> snd maps ! i \<Longrightarrow> get_ascii_hiragana_vec_index (fst u) = Some i"
    by (auto simp: store_informations_def nth_list_update split: option.splits) (metis nth_list_update_neq)
  then show ?case
    using Cons.IH [of ?m] Cons.prems by (cases "snd ?m ! i = snd maps ! i") (auto simp: store_units_def)
qed (simp add: store_units_def)

lemma holds_entries_indexed:
  assumes "holds_entries es enc dict om us blocks" and "k \<in> set (map fst us)"
  shows "indexed_key k"
proof -
  obtain infos where "(k, infos) \<in> set us" using assms(2) by auto
  moreover have "\<forall>(k, infos) \<in> set us. block_of_key es blocks k infos"
    using assms(1) by (simp add: holds_entries_def Let_def)
  ultimately show ?thesis by (auto simp: block_of_key_def)
qed

lemma reads_entries_vec:
  assumes tw: "twoway_documented tw" and wf: "tables_wf t" and ok: "\<forall>p \<in> set es. entry_ok p"
    and holds: "holds_entries es enc dict om us blocks" and i: "i < index_ascii_hiragana_vec_length"
  shows "reads_entries t tw enc om dict (index_ascii_hiragana_vec om ! i)
    (\<Union>k \<in> {k \<in> set (map fst us). get_ascii_hiragana_vec_index k = Some i}. set (entries_with k es))"
proof (cases "\<exists>k \<in> set (map fst us). get_ascii_hiragana_vec_index k = Some i")
  case False
  have "index_ascii_hiragana_vec om = snd (store_units us (Map.empty, replicate index_ascii_hiragana_vec_length []))"
    using holds by (auto simp: holds_entries_def Let_def dest: arg_cong [where f = snd])
  then have "index_ascii_hiragana_vec om ! i = []"
    using False store_units_vec [of us "(Map.empty, replicate index_ascii_hiragana_vec_length [])" i] i by auto
  moreover have "{k \<in> set (map fst us). get_ascii_hiragana_vec_index k = Some i} = {}" using False by blast
  ultimately show ?thesis by (simp only: UN_empty reads_entries_Nil)
next
  case True
  then obtain k infos where k: "(k, infos) \<in> set us" "get_ascii_hiragana_vec_index k = Some i" by auto
  have ix: "indexed_key k'" if "k' \<in> set (map fst us)" for k'
    using that by (rule holds_entries_indexed [OF holds])
  have ik: "indexed_key k" using ix k(1) by force
  have "{k \<in> set (map fst us). get_ascii_hiragana_vec_index k = Some i} = {k}"
    using vec_index_inj [OF ix ik _ k(2)] k by force
  moreover have "map_of us k = Some infos" using k(1) holds by (simp add: holds_entries_def Let_def)
  then have "index_ascii_hiragana_vec om ! i = infos"
    using holds_entries_vectors [OF holds ik] k(2)
    by (auto simp: get_block_information_vectors_def index_res_def split: if_splits)
  ultimately show ?thesis using reads_entries_key [OF tw wf ok holds k(1)] by simp
qed

lemma reads_entries_all:
  assumes tw: "twoway_documented tw" and wf: "tables_wf t" and ok: "\<forall>p \<in> set es. entry_ok p"
    and has_key: "\<forall>p \<in> set es. \<exists>k \<in> set keys. get_dictionary_midashi_key (fst p) = Ok k"
    and holds: "holds_entries es enc dict om us blocks"
  shows "reads_entries t tw enc om dict
    (concat (map (\<lambda>k. case index_map om k of None \<Rightarrow> [] | Some infos \<Rightarrow> infos) keys)
       @ concat (index_ascii_hiragana_vec om)) (set es)"
proof -
  let ?f = "\<lambda>k. case index_map om k of None \<Rightarrow> [] | Some infos \<Rightarrow> infos"
  let ?S = "\<lambda>k. if index_map om k = None then {} else set (entries_with k es)"
  let ?T = "\<lambda>i. \<Union>k \<in> {k \<in> set (map fst us). get_ascii_hiragana_vec_index k = Some i}. set (entries_with k es)"
  let ?is = "[0..<index_ascii_hiragana_vec_length]"
  have maps: "(index_map om, index_ascii_hiragana_vec om)
      = store_units us (Map.empty, replicate index_ascii_hiragana_vec_length [])"
    and us: "\<And>k. k \<in> set (map fst us) \<longleftrightarrow> entries_with k es \<noteq> []"
    using holds by (auto simp: holds_entries_def Let_def)
  have "reads_entries t tw enc om dict (?f k) (?S k)" for k
  proof (cases "index_map om k")
    case (Some infos)
    have "(k, infos) \<in> set us"
      using store_units_map [of us "(Map.empty, replicate index_ascii_hiragana_vec_length [])" k infos] Some
      by (simp flip: maps)
    then show ?thesis using reads_entries_key [OF tw wf ok holds] Some by simp
  qed (simp add: reads_entries_Nil)
  then have A: "reads_entries t tw enc om dict (concat (map ?f keys)) (\<Union>k \<in> set keys. ?S k)"
    by (intro reads_entries_concat)
  have len: "length (index_ascii_hiragana_vec om) = index_ascii_hiragana_vec_length"
  proof -
    have "length (snd (store_units us m)) = length (snd m)" for m
      by (induction us arbitrary: m)
        (simp_all add: store_units_def store_informations_def split: option.splits)
    from this [of "(Map.empty, replicate index_ascii_hiragana_vec_length [])"] show ?thesis by (simp flip: maps)
  qed
  then have "concat (index_ascii_hiragana_vec om) = concat (map (\<lambda>i. index_ascii_hiragana_vec om ! i) ?is)"
    using map_nth [of "index_ascii_hiragana_vec om"] by simp
  then have B: "reads_entries t tw enc om dict (concat (index_ascii_hiragana_vec om)) (\<Union>i \<in> set ?is. ?T i)"
    using reads_entries_concat [of ?is t tw enc om dict "\<lambda>i. index_ascii_hiragana_vec om ! i" ?T]
      reads_entries_vec [OF tw wf ok holds] by simp
  have "p \<in> (\<Union>k \<in> set keys. ?S k) \<union> (\<Union>i \<in> set ?is. ?T i)" if p: "p \<in> set es" for p
  proof -
    obtain k where k: "k \<in> set keys" "get_dictionary_midashi_key (fst p) = Ok k" using has_key p by blast
    then have pk: "p \<in> set (entries_with k es)" using p by (simp add: entries_with_def)
    then have ku: "k \<in> set (map fst us)" using us [of k] by force
    show ?thesis
    proof (cases "get_ascii_hiragana_vec_index k")
      case None
      have "indexed_key k" by (rule holds_entries_indexed [OF holds ku])
      then have "index_map om k = map_of us k"
        using holds_entries_vectors [OF holds] None by (fastforce simp: get_block_information_vectors_def)
      then have "index_map om k \<noteq> None" using ku by (simp add: map_of_eq_None_iff)
      then show ?thesis using k(1) pk by auto
    next
      case (Some i)
      then show ?thesis using get_ascii_hiragana_vec_index_less [of k] pk ku by auto
    qed
  qed
  moreover have "(\<Union>k \<in> set keys. ?S k) \<union> (\<Union>i \<in> set ?is. ?T i) \<subseteq> set es"
    by (auto simp: entries_with_def split: if_splits)
  ultimately have "(\<Union>k \<in> set keys. ?S k) \<union> (\<Union>i \<in> set ?is. ?T i) = set es" by blast
  then show ?thesis using reads_entries_append [OF A B] by simp
qed

section \<open>The file of a dictionary\<close>

abbreviation okuri_ari :: "jisyo_entries_map \<Rightarrow> jisyo_entries_map" where
  "okuri_ari es \<equiv> filter (\<lambda>p. is_okuri_ari (fst p)) es"

abbreviation okuri_nasi :: "jisyo_entries_map \<Rightarrow> jisyo_entries_map" where
  "okuri_nasi es \<equiv> filter (\<lambda>p. \<not> is_okuri_ari (fst p)) es"

lemma jisyo_of_dictionary:
  assumes tw: "twoway_documented tw" and sha: "\<And>x. length (sha1 x) = sha1sum_length" and n: "0 < n"
    and asc: "ascending es" and ok: "\<forall>p \<in> set es. served_entry p" and sizes: "sizes_fit e tw es table"
    and once: "once_init_encoding_table e table once = Ok (Some t)" and wf: "tables_wf t"
    and has_key: "\<forall>p \<in> set es. \<exists>k \<in> set keys. get_dictionary_midashi_key (fst p) = Ok k"
  shows "\<exists>dict. create_dictionary e tw sha1 enc table (Ok es) = Ok dict
    \<and> (\<forall>disk. jisyo_create e sha1 n tw keys Euc (Some dict) once disk
       = jisyo_write disk Euc (okuri_ari (map (jisyo_entry t enc) es)) (okuri_nasi (map (jisyo_entry t enc) es)))"
proof -
  obtain dict om us blocks where d: "create_dictionary e tw sha1 enc table (Ok es) = Ok dict"
    "dictionary_setup e sha1 n (Some dict) once = Ok (om, Some t)" "holds_entries es enc dict om us blocks"
    using created_dictionary_holds [where ?sha1.0 = sha1, OF tw sha n ok sizes once] by blast
  have "\<forall>p \<in> set es. entry_ok p" using ok served_entry_ok by blast
  from reads_entries_all [OF tw wf this has_key d(3)] obtain ps where ps: "set ps = set es"
    "\<And>maps. read_dictionary_block_informations t tw Euc om dict
       (concat (map (\<lambda>k. case index_map om k of None \<Rightarrow> [] | Some infos \<Rightarrow> infos) keys)
          @ concat (index_ascii_hiragana_vec om)) maps
       = Ok (fold insert_entry (map (jisyo_entry t enc) ps) maps)"
    unfolding reads_entries_def by blast
  have "ascending (map (jisyo_entry t enc) es)"
    using asc by (simp add: ascending_def sorted_wrt_map jisyo_entry_def)
  then have "fold insert_entry (map (jisyo_entry t enc) ps) ([], [])
      = (okuri_ari (map (jisyo_entry t enc) es), okuri_nasi (map (jisyo_entry t enc) es))"
    using ps(1) by (intro fold_insert_entry_sorted) simp_all
  then have "jisyo_create e sha1 n tw keys Euc (Some dict) once disk
       = jisyo_write disk Euc (okuri_ari (map (jisyo_entry t enc) es)) (okuri_nasi (map (jisyo_entry t enc) es))" for disk
    by (simp add: jisyo_create_def d(2) ps(2) Let_def)
  then show ?thesis using d(1) by blast
qed

lemma distinct_okuri: "ascending es \<Longrightarrow> distinct (map fst (filter P es))"
  using btree_distinct [OF ascending_sorted] .

section \<open>Reading the file\<close>

definition written_entry :: "bytes \<times> bytes \<Rightarrow> bool" where
  "written_entry p \<longleftrightarrow> served_entry p \<and> no_newline (fst p) \<and> hd (fst p) \<noteq> semicolon \<and> hd (fst p) \<noteq> 0x09
     \<and> (\<exists>cs. snd p = candidates_bytes_of cs \<and> cs \<noteq> [] \<and> distinct cs \<and> (\<forall>c \<in> set cs. candidate_ok c \<and> no_newline c))"

lemma jisyo_lines_concat:
  "\<forall>l \<in> set ls. no_newline l \<Longrightarrow> jisyo_lines (concat (map (\<lambda>l. l @ [lf]) ls)) = map (\<lambda>l. l @ [lf]) ls"
  by (induction ls) (simp_all add: jisyo_lines_line)

lemma split_on_append: "split_on s (xs @ s # ys) = split_on s xs @ split_on s ys"
  by (induction xs) (auto split: list.splits)

lemma find_two_slashes:
  assumes tw: "twoway_documented tw" and cs: "\<forall>c \<in> set cs. candidate_ok c"
  shows "find_bytes tw (candidates_bytes_of cs) [slash, slash] = None"
proof (rule ccontr)
  assume "find_bytes tw (candidates_bytes_of cs) [slash, slash] \<noteq> None"
  then obtain i where "occurs_at (candidates_bytes_of cs) [slash, slash] i"
    using tw unfolding twoway_documented_def by (metis (mono_tags, lifting) not_None_eq option.case(2))
  then obtain xs ys where "candidates_bytes_of cs = xs @ slash # slash # ys" by (auto simp: occurs_at_parts)
  then have "split_on slash (candidates_bytes_of cs) = split_on slash xs @ [] # split_on slash ys"
    by (simp add: split_on_append)
  moreover have "split_on slash (candidates_bytes_of cs) = [] # cs @ [[]]"
    using cs by (intro split_candidates_bytes_of) (auto simp: candidate_ok_def)
  ultimately have eq: "[] # cs @ [[]] = split_on slash xs @ [] # split_on slash ys" by simp
  obtain a as where xs: "split_on slash xs = a # as" by (cases "split_on slash xs") auto
  obtain bs b where ys: "split_on slash ys = bs @ [b]" by (cases "split_on slash ys" rule: rev_cases) auto
  have "cs @ [[]] = (as @ [] # bs) @ [b]" using eq xs ys by simp
  then have "[] \<in> set cs" by auto
  then show False using cs by (auto simp: candidate_ok_def)
qed

lemma written_candidates:
  assumes "cs \<noteq> []" "distinct cs" "\<forall>c \<in> set cs. candidate_ok c \<and> no_newline c"
  shows "remove_duplicates_bytes (candidates_bytes_of cs) = candidates_bytes_of cs"
    "no_newline (candidates_bytes_of cs)" "\<exists>c. candidates_bytes_of cs = c @ [slash] \<and> c \<noteq> []"
proof -
  show "remove_duplicates_bytes (candidates_bytes_of cs) = candidates_bytes_of cs"
    using remove_duplicates_bytes_eq [of cs] assms by simp
  show "no_newline (candidates_bytes_of cs)"
    using assms(3) by (auto simp: candidates_bytes_of_def no_newline_def)
  show "\<exists>c. candidates_bytes_of cs = c @ [slash] \<and> c \<noteq> []"
    using candidates_bytes_of_join [OF assms(1)] by auto
qed

lemma entry_turn:
  assumes tw: "twoway_documented tw" and p: "written_entry p" and new: "map_of m (fst p) = None"
  shows "jisyo_line_turn t tw Euc (Some Euc) (entry_line p) (f, m) = Ok (False, btree_insert (fst p) (snd p) m)"
proof -
  obtain cs where cs: "snd p = candidates_bytes_of cs" "cs \<noteq> []" "distinct cs" "\<forall>c \<in> set cs. candidate_ok c \<and> no_newline c"
    using p by (auto simp: written_entry_def)
  have ok: "entry_ok p" "short_entry p" using p by (auto simp: written_entry_def served_entry_ok) (simp add: served_entry_def)
  obtain c where c: "snd p = c @ [slash]" "c \<noteq> []" using written_candidates(3) [OF cs(2-4)] cs(1) by auto
  let ?w = "fst p @ space # snd p"
  have w: "no_newline ?w" "?w \<noteq> []" "entry_line p = ?w @ [lf]"
    using p written_candidates(2) [OF cs(2-4)] cs(1) by (simp_all add: written_entry_def entry_line_def)
  have "find_bytes tw (snd p) [slash, slash] = None" using find_two_slashes [OF tw] cs(1,4) by simp
  moreover have "hd (snd p) \<noteq> space" by (simp add: cs(1) candidates_bytes_of_def)
  moreover have "2 \<le> length (snd p)" using c by (simp add: Suc_le_eq)
  moreover have "5 \<le> length ?w"
  proof -
    have "3 \<le> length (candidates_bytes_of cs)"
      using cs(2,4) by (cases cs; cases "hd cs") (auto simp: candidates_bytes_of_def candidate_ok_def)
    then show ?thesis using ok(1) cs(1) by (cases "fst p") (auto simp: entry_ok_def)
  qed
  moreover have "length ?w \<le> jisyo_maximum_line_length"
    using ok(2) by (simp add: short_entry_def entry_line_def dictionary_block_unit_length_def jisyo_maximum_line_length_def)
  ultimately have "is_skip_and_print_warning t tw ?w Euc = Ok False"
    using p ok(1) by (intro usual_line_not_skipped [OF tw]) (auto simp: written_entry_def entry_ok_def)
  moreover have "get_midashi_candidates tw ?w = Ok (fst p, snd p)"
    using get_midashi_candidates_parts [OF tw, of "fst p" "[]" c] ok(1) c(1) by (simp add: entry_ok_def)
  then have "update_jisyo_entries_map t tw m ?w Euc (Some Euc) = Ok (btree_insert (fst p) (snd p) m)"
    using written_candidates(1) [OF cs(2-4)] cs(1) new
    by (simp add: update_jisyo_entries_map_def encode_midashi_candidates_def)
  ultimately show ?thesis using jisyo_line_turn_line [OF w(2,1)] by (simp add: w(3))
qed

lemma entry_turns:
  "twoway_documented tw \<Longrightarrow> btree_sorted m \<Longrightarrow> \<forall>p \<in> set ps. written_entry p \<and> map_of m (fst p) = None \<Longrightarrow>
   distinct (map fst ps) \<Longrightarrow>
   jisyo_turns t tw Euc (Some Euc) (map entry_line ps @ ls) (False, m)
     = jisyo_turns t tw Euc (Some Euc) ls (False, fold (\<lambda>(k, v). btree_insert k v) ps m)"
proof (induction ps arbitrary: m)
  case (Cons p ps)
  let ?m = "btree_insert (fst p) (snd p) m"
  have "\<forall>q \<in> set ps. fst q \<noteq> fst p" using Cons.prems(4) by simp (metis image_eqI)
  then have "jisyo_turns t tw Euc (Some Euc) (map entry_line ps @ ls) (False, ?m)
      = jisyo_turns t tw Euc (Some Euc) ls (False, fold (\<lambda>(k, v). btree_insert k v) ps ?m)"
    using Cons.prems by (intro Cons.IH) (auto simp: btree_sorted_insert btree_lookup_insert)
  then show ?case using entry_turn [OF Cons.prems(1), of p m t False] Cons.prems(3) by (cases p) simp
qed simp

lemma comment_turn:
  assumes "no_newline w" "w \<noteq> []" "hd w = semicolon"
  shows "jisyo_line_turn t tw je oe (w @ [lf]) (f, m) = Ok (False, m)"
proof -
  have "is_skip_and_print_warning t tw w je = Ok True"
    using assms(2,3) by (cases w) (auto simp: is_skip_and_print_warning_def is_space_cr_lf_only_def Let_def index_res_def)
  then show ?thesis using jisyo_line_turn_line [OF assms(2,1)] by simp
qed

lemma jisyo_text_turns:
  assumes tw: "twoway_documented tw" and asc: "ascending es" and ok: "\<forall>p \<in> set es. written_entry p"
  shows "jisyo_turns t tw Euc (Some Euc) (jisyo_lines (jisyo_text Euc (okuri_ari es) (okuri_nasi es))) (False, [])
    = Ok es"
proof -
  define c1 c2 c3 c4 where "c1 = ascii '';; -*- mode: fundamental; coding: euc-jis-2004 -*-''"
    and "c2 = ascii '';; yaskkserv2 dictionary''" and "c3 = ascii '';; okuri-ari entries.''"
    and "c4 = ascii '';; okuri-nasi entries.''"
  note c_def = c1_def c2_def c3_def c4_def
  have c: "no_newline w \<and> w \<noteq> [] \<and> hd w = semicolon" if "w \<in> {c1, c2, c3, c4}" for w
    using that by (auto simp: c_def ascii_def no_newline_def)
  let ?body = "\<lambda>p. fst p @ space # snd p"
  have line: "entry_line p = ?body p @ [lf]" for p by (simp add: entry_line_def)
  have body: "no_newline (?body p)" if "p \<in> set es" for p
    using ok that written_candidates(2) by (fastforce simp: written_entry_def)
  let ?a = "rev (okuri_ari es)" and ?n = "okuri_nasi es"
  have "jisyo_text Euc (okuri_ari es) ?n
      = concat (map (\<lambda>l. l @ [lf]) ([c1, c2, c3] @ map ?body ?a @ [c4] @ map ?body ?n))"
    unfolding jisyo_text_lines [OF distinct_okuri [OF asc]] by (simp add: c_def jisyo_encoding_line_def comp_def entry_line_def [abs_def])
  then have "jisyo_lines (jisyo_text Euc (okuri_ari es) ?n)
      = map (\<lambda>l. l @ [lf]) ([c1, c2, c3] @ map ?body ?a @ [c4] @ map ?body ?n)"
    using c body by (simp only:) (rule jisyo_lines_concat, auto)
  then have lines: "jisyo_lines (jisyo_text Euc (okuri_ari es) ?n)
      = [c1 @ [lf], c2 @ [lf], c3 @ [lf]] @ map entry_line ?a @ [c4 @ [lf]] @ map entry_line ?n"
    by (simp add: comp_def entry_line_def [abs_def])
  let ?ins = "fold (\<lambda>(k, v). btree_insert k v)"
  have step: "jisyo_turns t tw Euc (Some Euc) ((w @ [lf]) # ls) (f, m) = jisyo_turns t tw Euc (Some Euc) ls (False, m)"
    if "w \<in> {c1, c2, c3, c4}" for w ls f m
    using comment_turn [of w t tw Euc "Some Euc" f m] c [OF that] by simp
  have "c1 \<in> {c1, c2, c3, c4}" "c2 \<in> {c1, c2, c3, c4}" "c3 \<in> {c1, c2, c3, c4}" "c4 \<in> {c1, c2, c3, c4}" by simp_all
  note steps = this [THEN step]
  have sorted: "btree_sorted (?ins ?a [])" using btree.from_list_ordered [of ?a] by (simp add: btree.from_list_def)
  have nil: "btree_sorted ([] :: jisyo_entries_map)" by (simp add: btree_sorted_def)
  have look: "map_of (?ins ?a []) (fst p) = None" if "p \<in> set ?n" for p
  proof -
    have "map_of (rev ?a) (fst p) = None" using that by (auto simp: map_of_eq_None_iff)
    then show ?thesis using btree.lookup_from_list [of ?a "fst p"] by (simp add: btree.from_list_def)
  qed
  have "distinct (map fst ?a)" using distinct_okuri [OF asc] by (simp add: rev_map [symmetric])
  from entry_turns [OF tw nil _ this, of t] have 1: "jisyo_turns t tw Euc (Some Euc) (map entry_line ?a @ ls) (False, [])
      = jisyo_turns t tw Euc (Some Euc) ls (False, ?ins ?a [])" for ls
    using ok by simp
  have "\<forall>p \<in> set ?n. written_entry p \<and> map_of (?ins ?a []) (fst p) = None" using ok look by simp
  from entry_turns [OF tw sorted this distinct_okuri [OF asc], of t "[]"]
  have 2: "jisyo_turns t tw Euc (Some Euc) (map entry_line ?n) (False, ?ins ?a []) = Ok (?ins ?n (?ins ?a []))"
    by simp
  have "?ins ?n (?ins ?a []) = btree.from_list (?a @ ?n)" by (simp add: btree.from_list_def)
  also have "\<dots> = es"
    using ascending_sorted [OF asc, of "\<lambda>_. True"] by (intro from_list_sorted) auto
  finally have "?ins ?n (?ins ?a []) = es" .
  then show ?thesis
    using 2 unfolding lines append_Cons append_Nil steps 1 by simp
qed

text \<open>C18: The SKK-JISYO file that is written from a created dictionary lists exactly the entries of the dictionary, each once: first the okuri-ari ones in descending order of midashi, then the others in ascending order, with the candidates converted to EUC. The order in which the hash map of the index is visited does not matter.\<close>

theorem created_dictionary_jisyo:
  assumes "twoway_documented tw" and "\<And>x. length (sha1 x) = sha1sum_length" and "0 < n"
    and "ascending es" and "\<forall>p \<in> set es. served_entry p" and "sizes_fit e tw es table"
    and "once_init_encoding_table e table once = Ok (Some t)" and "tables_wf t"
    and "\<forall>p \<in> set es. \<exists>k \<in> set keys. get_dictionary_midashi_key (fst p) = Ok k"
    and "jisyo = ascii '';; -*- mode: fundamental; coding: euc-jis-2004 -*-'' @ [lf]
        @ ascii '';; yaskkserv2 dictionary'' @ [lf] @ ascii '';; okuri-ari entries.'' @ [lf]
        @ concat (map entry_line (rev (okuri_ari (map (jisyo_entry t enc) es))))
        @ ascii '';; okuri-nasi entries.'' @ [lf]
        @ concat (map entry_line (okuri_nasi (map (jisyo_entry t enc) es)))"
    and "length jisyo \<le> disk"
  shows "\<exists>dict. create_dictionary e tw sha1 enc table (Ok es) = Ok dict
    \<and> jisyo_create e sha1 n tw keys Euc (Some dict) once (Some disk) = (Ok (), Some jisyo)"
proof -
  obtain dict where d: "create_dictionary e tw sha1 enc table (Ok es) = Ok dict"
    "\<And>disk. jisyo_create e sha1 n tw keys Euc (Some dict) once disk
       = jisyo_write disk Euc (okuri_ari (map (jisyo_entry t enc) es)) (okuri_nasi (map (jisyo_entry t enc) es))"
    using jisyo_of_dictionary [where ?sha1.0 = sha1 and enc = enc, OF assms(1-9)] by blast
  have "ascending (map (jisyo_entry t enc) es)"
    using assms(4) by (simp add: ascending_def sorted_wrt_map jisyo_entry_def)
  from jisyo_text_lines [OF distinct_okuri [OF this]]
  have "jisyo = jisyo_text Euc (okuri_ari (map (jisyo_entry t enc) es)) (okuri_nasi (map (jisyo_entry t enc) es))"
    by (simp add: assms(10) jisyo_encoding_line_def)
  then show ?thesis using d jisyo_write_Ok assms(11) by simp
qed


section \<open>From a cache\<close>

lemma cache_entries_loop_Utf8:
  "cache_entries_loop t Utf8 m acc
     = Ok (fold (\<lambda>(k, v). btree_insert k v) (map (\<lambda>(k, vs). (k, cache_candidates vs @ [slash])) m) acc)"
  by (induction m arbitrary: acc) auto

lemma cache_candidates_quoted: "cache_candidates vs = concat (map (\<lambda>c. slash # quoted c) (drop 1 vs))"
  by (simp add: cache_candidates_def quote_and_add_prefix_eq)


section \<open>Witnesses\<close>

lemma sample_keys: "\<forall>p \<in> set sample_entries. \<exists>k \<in> set [[0x61, 0, 0, 0]]. get_dictionary_midashi_key (fst p) = Ok k"
  by (simp add: sample_entries_def get_dictionary_midashi_key_def index_res_def in_range_def)

lemma sample_once: "once_init_encoding_table Little [] (Some (fresh_vecs tables_new)) = Ok (Some (fresh_vecs tables_new))"
  by (simp add: once_init_encoding_table_def)

definition sample_written :: bytes where
  "sample_written = ascii '';; -*- mode: fundamental; coding: euc-jis-2004 -*-'' @ [lf]
     @ ascii '';; yaskkserv2 dictionary'' @ [lf] @ ascii '';; okuri-ari entries.'' @ [lf]
     @ ascii '';; okuri-nasi entries.'' @ [lf] @ [0x61, 0x20, 0x2f, 0x62, 0x2f, 0x0a]"

lemma sample_okuri:
  "okuri_ari sample_entries = []" "okuri_nasi sample_entries = sample_entries"
  "map (jisyo_entry t Euc) sample_entries = sample_entries"
  by (simp_all add: sample_entries_def is_okuri_ari_def jisyo_entry_def jisyo_candidates_def)

lemma length_sample_written: "length sample_written \<le> 1000"
  by (simp add: sample_written_def ascii_def)

lemma sample_16: "0 < (16 :: nat)"
  by simp

theorem created_dictionary_jisyo_witness:
  "\<exists>dict. create_dictionary Little naive_twoway sample_sha1 Euc [] (Ok sample_entries) = Ok dict
    \<and> jisyo_create Little sample_sha1 16 naive_twoway [[0x61, 0, 0, 0]] Euc (Some dict)
        (Some (fresh_vecs tables_new)) (Some 1000) = (Ok (), Some sample_written)"
  by (rule created_dictionary_jisyo [where ?sha1.0 = sample_sha1, OF naive_twoway_documented length_sample_sha1 sample_16
        sample_ascending sample_served sample_sizes sample_once fresh_tables_wf sample_keys _ length_sample_written])
    (simp add: sample_okuri, simp add: sample_written_def sample_entries_def entry_line_def)

lemma sample_written_text: "jisyo_text Euc (okuri_ari sample_entries) (okuri_nasi sample_entries) = sample_written"
  using jisyo_text_lines [of "[]" Euc sample_entries] unfolding sample_okuri
  by (simp add: jisyo_encoding_line_def sample_written_def sample_entries_def entry_line_def)

lemma sample_written_encoding: "detect_jisyo_encoding naive_twoway (sample_jisyo sample_written) = Ok (Euc, NoOptions)"
proof -
  have "list_all (in_range 0x01 0x7f) (take 100 sample_written)" by code_simp
  from detect_loop_ascii [OF this, of 0] have "detect_loop (take 100 sample_written) 0 0 0 = (0, 0)" .
  moreover have "length (take 100 sample_written) = 100" by code_simp
  moreover have "naive_find (take 100 sample_written) (ascii ''coding: euc-'') = Some 26" by code_simp
  moreover have "take 100 sample_written ! 0 = semicolon" by code_simp
  ultimately have "detect_encoding naive_twoway (take 100 sample_written) = Ok (Euc, NoOptions)"
    by (simp add: detect_encoding_def Let_def i32_quot_def naive_twoway_def)
  moreover have "jisyo_minimum_line_length \<le> length (take 100 sample_written)" by code_simp
  ultimately show ?thesis
    by (simp add: detect_jisyo_encoding_def sample_jisyo_def jisyo_encoding_detect_buffer_length_def
        min_less_iff_disj)
qed


definition sample_cache_bytes :: bytes where
  "sample_cache_bytes = concat (map mark_entry [([0x61], [[0x35, 0x30], [0x62], [0x2f]])])"


end
