(* ===== verification/Run_Loop.thy ===== *)
theory Run_Loop
  imports Server
begin

text \<open>
  The event loop of the server (\<open>src/skk/yaskkserv2.rs\<close>): reading a request from a buffered
  non-blocking socket, the table of connections, and what is done for each event that \<open>mio\<close> reports.
  The network is a parameter: every socket carries the outcomes of its coming reads and writes, every
  event the outcomes of its system calls. The last sections make a step relation of the events and
  the arrival of data, and show the invariant of the table.
\<close>

section \<open>A buffered socket\<close>

text \<open>
  The outcome of one read of the socket. \<open>Data []\<close> is the end of the stream; a socket with no outcome
  left would block. \<open>buffered\<close> is what the \<open>BufReader\<close> holds and has not given out.
\<close>

datatype read_event = Data bytes | Would_Block | Interrupted | Read_Error

record mio_socket =
  buffered :: bytes
  reads :: "read_event list"
  stream :: tcp_output

definition mio_socket_new :: "read_event list \<Rightarrow> tcp_output \<Rightarrow> mio_socket" where
  "mio_socket_new es s = \<lparr>buffered = [], reads = es, stream = s\<rparr>"

datatype fill_result = Filled bytes | Fill_Interrupted | Fill_Would_Block | Fill_Error

definition fill_buf :: "mio_socket \<Rightarrow> fill_result \<times> mio_socket" where
  "fill_buf s =
     (if buffered s \<noteq> [] then (Filled (buffered s), s)
      else case reads s of
             [] \<Rightarrow> (Fill_Would_Block, s)
           | Data bs # es \<Rightarrow> (Filled bs, s\<lparr>buffered := bs, reads := es\<rparr>)
           | Would_Block # es \<Rightarrow> (Fill_Would_Block, s\<lparr>reads := es\<rparr>)
           | Interrupted # es \<Rightarrow> (Fill_Interrupted, s\<lparr>reads := es\<rparr>)
           | Read_Error # es \<Rightarrow> (Fill_Error, s\<lparr>reads := es\<rparr>))"

definition consume :: "nat \<Rightarrow> mio_socket \<Rightarrow> mio_socket" where
  "consume n s = s\<lparr>buffered := drop n (buffered s)\<rparr>"

text \<open>A request of one character (0, 2 or 3) in front, behind line ends only.\<close>

fun find_one_character_protocol :: "bytes \<Rightarrow> nat option" where
  "find_one_character_protocol [] = None"
| "find_one_character_protocol (c # cs) =
     (if c = 0x30 \<or> c = 0x32 \<or> c = 0x33 then Some 0
      else if c \<noteq> lf \<and> c \<noteq> cr then None
      else map_option Suc (find_one_character_protocol cs))"

datatype read_result = Read nat | Read_Would_Block | Read_Failed

text \<open>One turn of the loop of \<open>read_until_skk_server\<close>: the part of the buffer that is used, and whether it ends a request.\<close>

definition take_request :: "twoway \<Rightarrow> bytes \<Rightarrow> (bool \<times> bytes) res" where
  "take_request tw available =
     (case find_bytes tw available [space] of
        Some i \<Rightarrow> and_then (slice_res available 0 (i + 1)) (\<lambda>used. Ok (True, used))
      | None \<Rightarrow>
          (case find_one_character_protocol available of
             Some i \<Rightarrow> and_then (slice_res available 0 (i + 1)) (\<lambda>used. Ok (True, used))
           | None \<Rightarrow> Ok (False, available)))"

function read_until_loop :: "twoway \<Rightarrow> mio_socket \<Rightarrow> bytes \<Rightarrow> nat \<Rightarrow> (read_result \<times> mio_socket \<times> bytes) res" where
  "read_until_loop tw s buffer read =
     (case fill_buf s of
        (Filled available, s1) \<Rightarrow>
          (case take_request tw available of
             Ok (finished, used) \<Rightarrow>
               let s2 = consume (length used) s1;
                   read' = read + length used
               in if finished \<or> used = [] then Ok (Read read', s2, buffer @ used)
                  else read_until_loop tw s2 (buffer @ used) read'
           | e \<Rightarrow> Panic)
      | (Fill_Interrupted, s1) \<Rightarrow> read_until_loop tw s1 buffer read
      | (Fill_Would_Block, s1) \<Rightarrow> Ok (Read_Would_Block, s1, buffer)
      | (Fill_Error, s1) \<Rightarrow> Ok (Read_Failed, s1, buffer))"
  by pat_completeness auto
termination
  by (relation "measure (\<lambda>(tw, s, b, n). 2 * length (reads s) + (if buffered s = [] then 0 else 1))")
    (auto simp: fill_buf_def consume_def take_request_def and_then_eq_Ok
      split: if_splits list.splits read_event.splits option.splits)

declare read_until_loop.simps [simp del]

definition stream_read_until_skk_server :: "twoway \<Rightarrow> mio_socket \<Rightarrow> bytes \<Rightarrow> (read_result \<times> mio_socket \<times> bytes) res" where
  "stream_read_until_skk_server tw s buffer = read_until_loop tw s buffer 0"


text \<open>How many line ends in front of a request are skipped: two at most.\<close>

definition get_buffer_skip_count :: "bytes \<Rightarrow> nat \<Rightarrow> nat" where
  "get_buffer_skip_count buffer n =
     (if n \<ge> 2 \<and> (buffer ! 1 = lf \<or> buffer ! 1 = cr) \<and> (buffer ! 0 = lf \<or> buffer ! 0 = cr) then 2
      else if n \<ge> 1 \<and> (buffer ! 0 = lf \<or> buffer ! 0 = cr) then 1
      else 0)"

section \<open>The state of the loop\<close>

record loop_state =
  sockets :: "mio_socket option list"
  sockets_some_count :: nat
  next_socket_index :: nat
  loop_buffer :: bytes
  loop_file :: dictionary_file
  loop_cache :: google_cache_object

definition initial_dictionary_file_read_buffer_length :: nat where
  "initial_dictionary_file_read_buffer_length = 8 * 1024"

text \<open>\<open>0..max_connections\<close> runs over an \<open>i32\<close>, and is empty for a negative one.\<close>

definition loop_state_new :: "config \<Rightarrow> bytes \<Rightarrow> google_cache_object \<Rightarrow> loop_state" where
  "loop_state_new cfg file g =
     \<lparr>sockets = replicate (nat (max_connections cfg)) None, sockets_some_count = 0,
      next_socket_index = 0, loop_buffer = [],
      loop_file = dictionary_file_new file initial_dictionary_file_read_buffer_length,
      loop_cache = g\<rparr>"

text \<open>The cast of an \<open>i32\<close> to \<open>usize\<close> sign-extends and wraps.\<close>

definition max_connections_usize :: "config \<Rightarrow> nat" where
  "max_connections_usize cfg = nat (max_connections cfg mod 2 ^ 64)"

section \<open>Reading and handling one request\<close>

text \<open>What is left after a request: whether the connection goes on, the flag for the shutdown, and the state.\<close>

definition read_until_skk_server ::
  "tables \<Rightarrow> 'j outside \<Rightarrow> server \<Rightarrow> mio_socket \<Rightarrow> bytes \<Rightarrow> dictionary_file \<Rightarrow> google_cache_object
     \<Rightarrow> (handle_client_result \<times> bool \<times> mio_socket \<times> dictionary_file \<times> google_cache_object) res" where
  "read_until_skk_server t env srv s buffer df g =
     and_then (stream_read_until_skk_server (the_twoway env) s buffer) (\<lambda>(r, s', buffer').
       case r of
         Read n \<Rightarrow>
           if n = 0 then Ok (Exit, False, s', df, g)
           else
             let skip = get_buffer_skip_count buffer' n in
             if n = skip then Ok (Exit, False, s', df, g)
             else if n - skip > 0 then
               and_then (tail_res buffer' skip) (\<lambda>request.
               and_then (handle_client t env srv
                   \<lparr>request_output = stream s', request_file = df, request_cache = g\<rparr> request)
                 (\<lambda>(result, st). Ok (result, False, s'\<lparr>stream := request_output st\<rparr>, request_file st, request_cache st)))
             else Ok (Continue, False, s', df, g)
       | Read_Would_Block \<Rightarrow> Ok (Continue, False, s', df, g)
       | Read_Failed \<Rightarrow> Ok (Exit, True, s', df, g))"

section \<open>The table of connections\<close>

fun empty_index_loop :: "'a option list \<Rightarrow> nat \<Rightarrow> nat \<Rightarrow> nat \<Rightarrow> nat res" where
  "empty_index_loop socks sockets_length index 0 = Panic"
| "empty_index_loop socks sockets_length index (Suc n) =
     (let index' = (if index + 1 \<ge> sockets_length then 0 else index + 1)
      in and_then (index_res socks index') (\<lambda>socket.
         if socket = None then Ok index' else empty_index_loop socks sockets_length index' n))"

definition get_empty_sockets_index :: "'a option list \<Rightarrow> nat \<Rightarrow> nat \<Rightarrow> nat res" where
  "get_empty_sockets_index socks sockets_length next_index =
     (let index = (if next_index + 1 \<ge> sockets_length then 0 else next_index + 1)
      in and_then (index_res socks index) (\<lambda>socket.
         if socket = None then Ok index else empty_index_loop socks sockets_length index sockets_length))"

text \<open>The outcome of \<open>accept\<close>; a connection comes with the outcome of its registration.\<close>

datatype accept_result = Accepted mio_socket bool | Accept_Would_Block | Accept_Failed

datatype listener_result = Listener_Nop | Listener_Break

definition run_loop_listener :: "config \<Rightarrow> accept_result \<Rightarrow> loop_state \<Rightarrow> listener_result res \<times> loop_state" where
  "run_loop_listener cfg a st =
     (case a of
        Accepted socket registered \<Rightarrow>
          if sockets_some_count st \<ge> max_connections_usize cfg then (Ok Listener_Break, st)
          else if \<not> registered then (Err Io, st)
          else if next_socket_index st \<ge> length (sockets st) then (Panic, st)
          else
            let socks = (sockets st)[next_socket_index st := Some socket];
                count = sockets_some_count st + 1;
                st' = st\<lparr>sockets := socks, sockets_some_count := count\<rparr>
            in if count < max_connections_usize cfg
               then (case get_empty_sockets_index socks (length (sockets st)) (next_socket_index st) of
                       Ok i \<Rightarrow> (Ok Listener_Nop, st'\<lparr>next_socket_index := i\<rparr>)
                     | e \<Rightarrow> (and_then e (\<lambda>_. Ok Listener_Nop), st'))
               else (Ok Listener_Nop, st')
      | Accept_Would_Block \<Rightarrow> (Ok Listener_Break, st)
      | Accept_Failed \<Rightarrow> (Err Io, st))"

text \<open>Accepting goes on until it would block.\<close>

fun listener_loop :: "config \<Rightarrow> accept_result list \<Rightarrow> loop_state \<Rightarrow> unit res \<times> loop_state" where
  "listener_loop cfg [] st = (Ok (), st)"
| "listener_loop cfg (a # as) st =
     (case run_loop_listener cfg a st of
        (Ok Listener_Nop, st') \<Rightarrow> listener_loop cfg as st'
      | (Ok Listener_Break, st') \<Rightarrow> (Ok (), st')
      | (e, st') \<Rightarrow> (and_then e (\<lambda>_. Ok ()), st'))"

datatype token_result = Token_Nop | Token_Return

definition run_loop_token ::
  "tables \<Rightarrow> 'j outside \<Rightarrow> server \<Rightarrow> nat \<Rightarrow> bool \<Rightarrow> loop_state \<Rightarrow> token_result res \<times> loop_state" where
  "run_loop_token t env srv token deregistered st =
     (if token \<ge> length (sockets st) then (Panic, st)
      else case sockets st ! token of
        None \<Rightarrow> (Ok Token_Return, st)
      | Some socket \<Rightarrow>
          (case read_until_skk_server t env srv socket (loop_buffer st) (loop_file st) (loop_cache st) of
             Ok (result, is_shutdown, socket', df, g) \<Rightarrow>
               let st' = st\<lparr>sockets := (sockets st)[token := Some socket'], loop_file := df, loop_cache := g\<rparr>
               in (case result of
                     Continue \<Rightarrow> (Ok Token_Nop, st'\<lparr>loop_buffer := []\<rparr>)
                   | Exit \<Rightarrow>
                       if \<not> deregistered then (Err Io, st')
                       else (Ok Token_Nop, st'\<lparr>sockets := (sockets st)[token := None],
                              sockets_some_count := sockets_some_count st - 1,
                              next_socket_index := token, loop_buffer := []\<rparr>))
           | e \<Rightarrow> (and_then e (\<lambda>_. Ok Token_Nop), st)))"

text \<open>
  One event: the listener with the outcomes of accepting, or a connection. The result \<open>False\<close> ends the
  loop.
\<close>

datatype loop_event = Listener_Event "accept_result list" | Token_Event nat bool

definition run_loop_event ::
  "tables \<Rightarrow> 'j outside \<Rightarrow> server \<Rightarrow> loop_event \<Rightarrow> loop_state \<Rightarrow> bool res \<times> loop_state" where
  "run_loop_event t env srv e st =
     (case e of
        Listener_Event as \<Rightarrow>
          let (r, st') = listener_loop (server_config srv) as st in (and_then r (\<lambda>_. Ok True), st')
      | Token_Event token deregistered \<Rightarrow>
          let (r, st') = run_loop_token t env srv token deregistered st
          in (and_then r (\<lambda>k. Ok (k = Token_Nop)), st'))"

text \<open>The loop over the events that have been reported so far.\<close>

fun run_loop ::
  "tables \<Rightarrow> 'j outside \<Rightarrow> server \<Rightarrow> loop_event list \<Rightarrow> loop_state \<Rightarrow> bool res \<times> loop_state" where
  "run_loop t env srv [] st = (Ok True, st)"
| "run_loop t env srv (e # es) st =
     (case run_loop_event t env srv e st of
        (Ok True, st') \<Rightarrow> run_loop t env srv es st'
      | (r, st') \<Rightarrow> (r, st'))"


section \<open>The invariant of the table\<close>

definition open_count :: "'a option list \<Rightarrow> nat" where
  "open_count socks = length (filter (\<lambda>s. s \<noteq> None) socks)"

lemma open_count_le: "open_count socks \<le> length socks"
  by (simp add: open_count_def)

lemma open_count_None: "i < length socks \<Longrightarrow> socks ! i = None \<Longrightarrow> open_count socks < length socks"
  unfolding open_count_def by (rule length_filter_less [of None]) (auto simp: in_set_conv_nth)

lemma open_count_room: "open_count socks < length socks \<Longrightarrow> \<exists>i < length socks. socks ! i = None"
proof (rule ccontr)
  assume "open_count socks < length socks" and "\<not> (\<exists>i < length socks. socks ! i = None)"
  then have "filter (\<lambda>s. s \<noteq> None) socks = socks"
    by (auto simp: filter_id_conv in_set_conv_nth simp del: not_None_eq)
  then show False using \<open>open_count socks < length socks\<close> by (simp add: open_count_def)
qed

lemma open_count_update:
  assumes "i < length socks"
  shows "socks ! i = None \<Longrightarrow> open_count (socks[i := Some s]) = Suc (open_count socks)"
    and "socks ! i \<noteq> None \<Longrightarrow> open_count (socks[i := Some s]) = open_count socks"
    and "socks ! i \<noteq> None \<Longrightarrow> Suc (open_count (socks[i := None])) = open_count socks"
proof -
  have split: "open_count socks = open_count (take i socks) + open_count [socks ! i] + open_count (drop (Suc i) socks)"
    by (subst id_take_nth_drop [OF assms]) (simp add: open_count_def)
  have upd: "open_count (socks[i := v]) = open_count (take i socks) + open_count [v] + open_count (drop (Suc i) socks)" for v
    by (simp add: upd_conv_take_nth_drop [OF assms] open_count_def)
  show "socks ! i = None \<Longrightarrow> open_count (socks[i := Some s]) = Suc (open_count socks)"
    and "socks ! i \<noteq> None \<Longrightarrow> open_count (socks[i := Some s]) = open_count socks"
    and "socks ! i \<noteq> None \<Longrightarrow> Suc (open_count (socks[i := None])) = open_count socks"
    unfolding split upd by (simp_all add: open_count_def)
qed

text \<open>The search finds a free place when there is one: its panic cannot be reached.\<close>

lemma next_index: "index < n \<Longrightarrow> (if index + 1 \<ge> n then 0 else index + 1) = (index + 1) mod n" for n :: nat
  by (auto simp: mod_if)

lemma empty_index_loop_finds:
  assumes "index < length socks" and "0 < d" and "d \<le> k" and "socks ! ((index + d) mod length socks) = None"
  shows "\<exists>i. empty_index_loop socks (length socks) index k = Ok i \<and> i < length socks \<and> socks ! i = None"
  using assms
proof (induction k arbitrary: index d)
  case (Suc k)
  define index' where "index' = (index + 1) mod length socks"
  have ne: "0 < length socks" using Suc.prems(1) by linarith
  then have index': "index' < length socks" by (simp add: index'_def)
  have step: "empty_index_loop socks (length socks) index (Suc k)
      = (if socks ! index' = None then Ok index' else empty_index_loop socks (length socks) index' k)"
    using index' by (simp add: Let_def next_index [OF Suc.prems(1), simplified] index'_def)
  show ?case
  proof (cases "socks ! index' = None")
    case True
    then show ?thesis using step index' by simp
  next
    case False
    then have "d \<noteq> 1" using Suc.prems(4) by (auto simp: index'_def)
    then obtain d' where d: "d = Suc d'" "0 < d'" using Suc.prems(2) by (cases d) auto
    have "(index' + d') mod length socks = (index + d) mod length socks"
      by (simp add: index'_def d mod_add_left_eq)
    then show ?thesis
      unfolding step using False Suc.IH [OF index' d(2)] Suc.prems(3,4) d index' by simp
  qed
qed simp

lemma get_empty_sockets_index_finds:
  assumes "i < length socks" and "socks ! i = None" and "next_index < length socks"
  shows "\<exists>j. get_empty_sockets_index socks (length socks) next_index = Ok j
    \<and> j < length socks \<and> socks ! j = None"
proof -
  define index where "index = (next_index + 1) mod length socks"
  have n: "0 < length socks" using assms(1) by linarith
  then have index: "index < length socks" by (simp add: index_def)
  have step: "get_empty_sockets_index socks (length socks) next_index
      = (if socks ! index = None then Ok index else empty_index_loop socks (length socks) index (length socks))"
    using index
    by (simp add: get_empty_sockets_index_def Let_def next_index [OF assms(3), simplified] index_def)
  define d where "d = (if i > index then i - index else length socks + i - index)"
  have "0 < d" "d \<le> length socks" "(index + d) mod length socks = i"
    using index assms(1) by (auto simp: d_def not_less)
  then show ?thesis
    using step index empty_index_loop_finds [OF index, of d "length socks"] assms(2) by auto
qed

definition valid_connections :: "config \<Rightarrow> bool" where
  "valid_connections cfg \<longleftrightarrow> 1 \<le> max_connections cfg \<and> max_connections cfg \<le> 1024"

lemma valid_connections_usize:
  "valid_connections cfg \<Longrightarrow> max_connections_usize cfg = nat (max_connections cfg)"
  by (simp add: valid_connections_def max_connections_usize_def)

definition loop_inv :: "config \<Rightarrow> loop_state \<Rightarrow> bool" where
  "loop_inv cfg st \<longleftrightarrow>
     length (sockets st) = nat (max_connections cfg)
     \<and> sockets_some_count st = open_count (sockets st)
     \<and> (sockets_some_count st < length (sockets st) \<longrightarrow>
          next_socket_index st < length (sockets st) \<and> sockets st ! next_socket_index st = None)
     \<and> loop_buffer st = []"

lemma loop_inv_new: "valid_connections cfg \<Longrightarrow> loop_inv cfg (loop_state_new cfg file g)"
  by (auto simp: loop_inv_def loop_state_new_def open_count_def valid_connections_def)


lemma listener_keeps:
  assumes cfg: "valid_connections cfg" and inv: "loop_inv cfg st"
  shows "loop_inv cfg (snd (run_loop_listener cfg a st))"
    and "fst (run_loop_listener cfg a st) \<in> range Ok \<union> {Err Io}"
proof -
  have max: "max_connections_usize cfg = length (sockets st)"
    using inv valid_connections_usize [OF cfg] by (simp add: loop_inv_def)
  have "loop_inv cfg (snd (run_loop_listener cfg a st))
    \<and> fst (run_loop_listener cfg a st) \<in> range Ok \<union> {Err Io}"
  proof (cases "\<exists>s. a = Accepted s True \<and> sockets_some_count st < length (sockets st)")
    case False
    then show ?thesis
      using inv by (cases a) (auto simp: run_loop_listener_def max)
  next
    case True
    then obtain s where a: "a = Accepted s True" and room: "sockets_some_count st < length (sockets st)"
      by blast
    define i where "i = next_socket_index st"
    have i: "i < length (sockets st)" "sockets st ! i = None"
      using inv room by (simp_all add: loop_inv_def i_def)
    define socks where "socks = (sockets st)[i := Some s]"
    have len: "length socks = length (sockets st)" by (simp add: socks_def)
    have count: "open_count socks = Suc (sockets_some_count st)"
      using open_count_update(1) [OF i] inv by (simp add: socks_def loop_inv_def)
    show ?thesis
    proof (cases "Suc (sockets_some_count st) < length (sockets st)")
      case False
      then show ?thesis
        using room i inv count len
        by (simp add: run_loop_listener_def a max flip: i_def socks_def) (simp add: loop_inv_def)
    next
      case True
      then obtain k where "k < length socks" "socks ! k = None"
        using open_count_room [of socks] count len by auto
      then obtain j where j: "get_empty_sockets_index socks (length socks) i = Ok j"
        "j < length socks" "socks ! j = None"
        using get_empty_sockets_index_finds [of k socks i] i len by auto
      then show ?thesis
        using True room i inv count len
        by (simp add: run_loop_listener_def a max flip: i_def socks_def) (simp add: loop_inv_def)
    qed
  qed
  then show "loop_inv cfg (snd (run_loop_listener cfg a st))"
    and "fst (run_loop_listener cfg a st) \<in> range Ok \<union> {Err Io}" by simp_all
qed

lemma listener_loop_keeps:
  assumes "valid_connections cfg"
  shows "loop_inv cfg st \<Longrightarrow> loop_inv cfg (snd (listener_loop cfg as st))
    \<and> fst (listener_loop cfg as st) \<in> {Ok (), Err Io}"
proof (induction as arbitrary: st)
  case (Cons a as)
  obtain r st' where r: "run_loop_listener cfg a st = (r, st')" by (cases "run_loop_listener cfg a st")
  have "loop_inv cfg st'" and "r \<in> range Ok \<union> {Err Io}"
    using listener_keeps [OF assms Cons.prems, of a] by (simp_all add: r)
  then show ?case using Cons.IH [of st'] by (auto simp: r split: listener_result.split)
qed simp

lemma token_keeps:
  assumes "loop_inv cfg st" and "token < length (sockets st)"
  shows "loop_inv cfg (snd (run_loop_token t env srv token deregistered st))
    \<or> fst (run_loop_token t env srv token deregistered st) \<notin> range Ok"
proof (cases "sockets st ! token")
  case None
  then show ?thesis using assms by (simp add: run_loop_token_def)
next
  case (Some s)
  show ?thesis
  proof (cases "read_until_skk_server t env srv s (loop_buffer st) (loop_file st) (loop_cache st)")
    case (Ok x)
    obtain result is_shutdown s' df g where x: "x = (result, is_shutdown, s', df, g)" by (cases x) auto
    show ?thesis
    proof (cases result)
      case Continue
      have "open_count ((sockets st)[token := Some s']) = open_count (sockets st)"
        using open_count_update(2) [OF assms(2)] Some by simp
      moreover have "sockets st ! next_socket_index st = None \<Longrightarrow> next_socket_index st \<noteq> token"
        using Some by auto
      ultimately show ?thesis
        using assms Some Ok x Continue by (auto simp: run_loop_token_def loop_inv_def nth_list_update)
    next
      case Exit
      have "Suc (open_count ((sockets st)[token := None])) = open_count (sockets st)"
        using open_count_update(3) [OF assms(2)] Some by simp
      then show ?thesis
        using assms Some Ok x Exit by (auto simp: run_loop_token_def loop_inv_def Let_def)
    qed
  qed (use Some assms in \<open>auto simp: run_loop_token_def\<close>)
qed


section \<open>Steps of the server and its network\<close>

text \<open>
  Data, a failure or the end of the stream arrives at an open connection; the listener accepts; a
  connection that \<open>mio\<close> has registered, so an open one, is handled. The clock and the answers of the
  online services may differ from step to step: \<open>envs\<close> are the possible ones.
\<close>

inductive loop_step :: "tables \<Rightarrow> server \<Rightarrow> 'j outside \<Rightarrow> loop_state \<Rightarrow> loop_state \<Rightarrow> bool" for t srv env where
  arrive: "i < length (sockets st) \<Longrightarrow> sockets st ! i = Some s \<Longrightarrow>
    loop_step t srv env st (st\<lparr>sockets := (sockets st)[i := Some (s\<lparr>reads := reads s @ [e]\<rparr>)]\<rparr>)"
| listen: "run_loop_event t env srv (Listener_Event as) st = (Ok True, st') \<Longrightarrow> loop_step t srv env st st'"
| handle: "i < length (sockets st) \<Longrightarrow> sockets st ! i = Some s \<Longrightarrow>
    run_loop_event t env srv (Token_Event i deregistered) st = (Ok True, st') \<Longrightarrow> loop_step t srv env st st'"

inductive_cases loop_step_cases: "loop_step t srv env st st'"

inductive loop_reachable ::
  "tables \<Rightarrow> server \<Rightarrow> 'j outside set \<Rightarrow> bytes \<Rightarrow> google_cache_object \<Rightarrow> loop_state \<Rightarrow> bool"
  for t srv envs content g where
  start: "loop_reachable t srv envs content g (loop_state_new (server_config srv) content g)"
| step: "loop_reachable t srv envs content g st \<Longrightarrow> env \<in> envs \<Longrightarrow> loop_step t srv env st st' \<Longrightarrow>
    loop_reachable t srv envs content g st'"

lemma loop_step_keeps:
  assumes "valid_connections (server_config srv)" and "loop_inv (server_config srv) st" and "loop_step t srv env st st'"
  shows "loop_inv (server_config srv) st'"
  using assms(3)
proof (cases rule: loop_step.cases)
  case (arrive i s e)
  then have "open_count ((sockets st)[i := Some (s\<lparr>reads := reads s @ [e]\<rparr>)]) = open_count (sockets st)"
    using open_count_update(2) [of i "sockets st"] by simp
  then show ?thesis using arrive assms(2) by (auto simp: loop_inv_def nth_list_update)
next
  case (listen as)
  then show ?thesis
    using listener_loop_keeps [OF assms(1,2), of as]
    by (auto simp: run_loop_event_def split: prod.splits)
next
  case (handle i s deregistered)
  then show ?thesis
    using token_keeps [OF assms(2), of i t env srv deregistered]
    by (auto simp: run_loop_event_def and_then_eq_Ok split: prod.splits)
qed

lemma reachable_inv:
  "loop_reachable t srv envs content g st \<Longrightarrow> valid_connections (server_config srv) \<Longrightarrow> loop_inv (server_config srv) st"
  by (induction rule: loop_reachable.induct) (auto intro: loop_inv_new loop_step_keeps)

text \<open>C5: Whatever arrives, and in whatever order the events are reported, the counter of the connections is the number of occupied places, never above the configured number, and the place for the next connection is free whenever there is room.\<close>

theorem connection_table_invariant:
  assumes "loop_reachable t srv envs content g st" and "valid_connections (server_config srv)"
  shows "length (sockets st) = nat (max_connections (server_config srv))
    \<and> sockets_some_count st = open_count (sockets st)
    \<and> sockets_some_count st \<le> nat (max_connections (server_config srv))
    \<and> (sockets_some_count st < nat (max_connections (server_config srv)) \<longrightarrow>
         next_socket_index st < length (sockets st) \<and> sockets st ! next_socket_index st = None)"
  using reachable_inv [OF assms] open_count_le [of "sockets st"] by (auto simp: loop_inv_def)

text \<open>C19: Accepting connections never panics: the search for a free place always finds one, and no place is read outside of the table. The only error is one of the operating system.\<close>

theorem listener_never_panics:
  assumes "loop_reachable t srv envs content g st" and "valid_connections (server_config srv)"
  shows "fst (run_loop_event t env srv (Listener_Event as) st) \<in> {Ok True, Err Io}"
  using listener_loop_keeps [OF assms(2) reachable_inv [OF assms], of as]
  by (auto simp: run_loop_event_def split: prod.splits)



section \<open>Requests in pieces\<close>

text \<open>A piece that neither ends a request nor is taken for a request of one character.\<close>

definition inner_piece :: "bytes \<Rightarrow> bool" where
  "inner_piece c \<longleftrightarrow> c \<noteq> [] \<and> space \<notin> set c \<and> find_one_character_protocol c = None"

lemma take_request_inner:
  "twoway_documented tw \<Longrightarrow> inner_piece c \<Longrightarrow> take_request tw c = Ok (False, c)"
  by (simp add: take_request_def inner_piece_def find_byte_none)

lemma take_request_last:
  "twoway_documented tw \<Longrightarrow> space \<notin> set p \<Longrightarrow> take_request tw (p @ space # q) = Ok (True, p @ [space])"
  by (simp add: take_request_def find_byte_first slice_def)

lemma read_until_pieces:
  assumes tw: "twoway_documented tw"
  shows "\<forall>c \<in> set cs. inner_piece c \<Longrightarrow> buffered s = [] \<Longrightarrow> reads s = map Data cs @ rest \<Longrightarrow>
    read_until_loop tw s buffer n
      = read_until_loop tw (s\<lparr>reads := rest\<rparr>) (buffer @ concat cs) (n + length (concat cs))"
proof (induction cs arbitrary: s buffer n)
  case (Cons c cs)
  have c: "inner_piece c" "c \<noteq> []" using Cons.prems(1) by (simp_all add: inner_piece_def)
  have same: "s\<lparr>buffered := [], reads := rest\<rparr> = s\<lparr>reads := rest\<rparr>"
    using Cons.prems(2) by (cases s) simp
  have swap: "s\<lparr>reads := map Data cs @ rest, buffered := []\<rparr> = s\<lparr>buffered := [], reads := map Data cs @ rest\<rparr>"
    by (cases s) simp
  have "read_until_loop tw s buffer n
      = read_until_loop tw (s\<lparr>buffered := [], reads := map Data cs @ rest\<rparr>) (buffer @ c) (n + length c)"
    using Cons.prems c
    by (subst read_until_loop.simps)
      (simp add: fill_buf_def take_request_inner [OF tw] consume_def swap)
  also have "\<dots> = read_until_loop tw (s\<lparr>reads := rest\<rparr>) (buffer @ concat (c # cs)) (n + length (concat (c # cs)))"
    using Cons.IH [of "s\<lparr>buffered := [], reads := map Data cs @ rest\<rparr>" "buffer @ c" "n + length c"] Cons.prems
    by (simp add: add.assoc same)
  finally show ?case .
next
  case Nil
  then have "s\<lparr>reads := rest\<rparr> = s" by (cases s) simp
  then show ?case by simp
qed

lemma request_in_pieces':
  assumes "twoway_documented tw" and "\<forall>c \<in> set cs. inner_piece c" and "space \<notin> set p"
    and "buffered s = []" and "reads s = map Data cs @ Data (p @ space # q) # rest"
  shows "stream_read_until_skk_server tw s []
    = Ok (Read (length (concat cs @ p @ [space])), s\<lparr>buffered := q, reads := rest\<rparr>, concat cs @ p @ [space])"
proof -
  have "stream_read_until_skk_server tw s []
      = read_until_loop tw (s\<lparr>reads := Data (p @ space # q) # rest\<rparr>) (concat cs) (length (concat cs))"
    using read_until_pieces [OF assms(1,2,4,5)] by (simp add: stream_read_until_skk_server_def)
  also have "\<dots> = Ok (Read (length (concat cs @ p @ [space])), s\<lparr>buffered := q, reads := rest\<rparr>, concat cs @ p @ [space])"
    using assms(4)
    by (subst read_until_loop.simps)
      (cases s, simp add: fill_buf_def take_request_last [OF assms(1,3)] consume_def)
  finally show ?thesis .
qed


lemma read_until_partial:
  assumes "twoway_documented tw" and "inner_piece a" and "buffered s = []" and "reads s = [Data a]"
  shows "stream_read_until_skk_server tw s [] = Ok (Read_Would_Block, s\<lparr>reads := []\<rparr>, a)"
proof -
  have "stream_read_until_skk_server tw s [] = read_until_loop tw (s\<lparr>reads := []\<rparr>) a (length a)"
    using read_until_pieces [OF assms(1), of "[a]" s "[]"] assms by (simp add: stream_read_until_skk_server_def)
  also have "\<dots> = Ok (Read_Would_Block, s\<lparr>reads := []\<rparr>, a)"
    using assms(3) by (subst read_until_loop.simps) (simp add: fill_buf_def)
  finally show ?thesis .
qed

text \<open>C14: When only a part of a request has arrived at the time of its event, the part is taken from the socket and thrown away: the state afterwards is as if the part had never been sent.\<close>

theorem partial_request_lost:
  assumes "twoway_documented (the_twoway env)" and "i < length (sockets st)" and "sockets st ! i = Some s"
    and "loop_buffer st = []" and "buffered s = []" and "reads s = [Data a]" and "inner_piece a"
  shows "run_loop_event t env srv (Token_Event i deregistered) st
    = (Ok True, st\<lparr>sockets := (sockets st)[i := Some (s\<lparr>reads := []\<rparr>)]\<rparr>)"
  using assms read_until_partial [OF assms(1,7,5,6)]
  by (simp add: run_loop_event_def run_loop_token_def read_until_skk_server_def)

text \<open>C33: Of two requests that arrive together one event answers the first; the second stays in the buffer of the connection, where no later event of the socket reports it until more data comes.\<close>

theorem second_request_waits:
  assumes "twoway_documented (the_twoway env)" and "i < length (sockets st)" and "sockets st ! i = Some s"
    and "loop_buffer st = []" and "buffered s = []" and "reads s = [Data (p @ space # q)]"
    and "space \<notin> set p" and "p \<noteq> []" and "hd p \<notin> {lf, cr, 0x30}"
    and "handle_client t env srv \<lparr>request_output = stream s, request_file = loop_file st,
           request_cache = loop_cache st\<rparr> (p @ [space]) = Ok (Continue, rs)"
    and "run_loop_event t env srv (Token_Event i deregistered) st = (r, st')"
  shows "r = Ok True \<and> sockets st' ! i
    = Some (s\<lparr>buffered := q, reads := [], stream := request_output rs\<rparr>)"
proof -
  have read: "stream_read_until_skk_server (the_twoway env) s []
      = Ok (Read (length (p @ [space])), s\<lparr>buffered := q, reads := []\<rparr>, p @ [space])"
    using request_in_pieces' [of "the_twoway env" "[]" p s q "[]"] assms by simp
  obtain b bs where p: "p = b # bs" using assms(8) by (cases p) auto
  have "get_buffer_skip_count (p @ [space]) (length (p @ [space])) = 0"
    using assms(9) by (simp add: get_buffer_skip_count_def p)
  then show ?thesis
    using assms read
    by (auto simp: run_loop_event_def run_loop_token_def read_until_skk_server_def tail_res_def)
qed


section \<open>A request that is no EUC text\<close>

lemma broken_key_panics: "get_dictionary_midashi_key [0x8f, space] = Panic"
  by (simp add: get_dictionary_midashi_key_def index_res_def in_range_def)

lemma malformed_request_panics:
  assumes "\<not> is_midashi_utf8 (server_config srv)" and "b = 0x31 \<or> b = 0x34"
  shows "handle_client t env srv st [b, 0x8f, space] = Panic"
proof -
  have request: "get_midashi [b, 0x8f, space] = Ok [0x8f]" "tail_res [b, 0x8f, space] 1 = Ok [0x8f, space]"
    by (simp_all add: get_midashi_def slice_res_def slice_def tail_res_def)
  have "validate_buffer_for_protocol_1_and_4 [b, 0x8f, space]"
    by (simp add: validate_buffer_for_protocol_1_and_4_def protocol_minimum_length_def protocol_maximum_length_def Let_def)
  then show ?thesis
    using assms request
    by (auto simp: handle_client_def with_euc_buffer_def handle_client_protocol_1_def handle_client_protocol_4_def
        read_candidates_def read_abbrev_def broken_key_panics index_res_def Let_def)
qed

text \<open>C12: A client ends the server with three bytes: a request for candidates or completions whose midashi is the single byte 8F, the first of a three-byte EUC code, panics in the loop, whatever the dictionary holds and whatever state the other connections are in.\<close>

theorem malformed_request_ends_server:
  assumes "twoway_documented (the_twoway env)" and "\<not> is_midashi_utf8 (server_config srv)"
    and "i < length (sockets st)" and "sockets st ! i = Some s" and "loop_buffer st = []"
    and "buffered s = []" and "reads s = Data [b, 0x8f, space] # rest" and "b = 0x31 \<or> b = 0x34"
  shows "run_loop t env srv (Token_Event i deregistered # es) st = (Panic, st)"
proof -
  have "space \<notin> set [b, 0x8f]" using assms(8) by auto
  then have read: "stream_read_until_skk_server (the_twoway env) s []
      = Ok (Read 3, s\<lparr>buffered := [], reads := rest\<rparr>, [b, 0x8f, space])"
    using request_in_pieces' [OF assms(1), of "[]" "[b, 0x8f]" s "[]" rest] assms(6,7) by simp
  have "get_buffer_skip_count [b, 0x8f, space] 3 = 0" using assms(8) by (auto simp: get_buffer_skip_count_def)
  then show ?thesis
    using assms(3-5) read
    by (simp add: run_loop_event_def run_loop_token_def read_until_skk_server_def tail_res_def
        malformed_request_panics [OF assms(2,8)])
qed

section \<open>Witnesses\<close>

definition sample_socket :: "read_event list \<Rightarrow> mio_socket" where
  "sample_socket es = mio_socket_new es \<lparr>sent = [], write_outcomes = []\<rparr>"

definition sample_loop :: "read_event list \<Rightarrow> loop_state" where
  "sample_loop es =
     \<lparr>sockets = [Some (sample_socket es), Some (sample_socket [])], sockets_some_count = 2, next_socket_index = 0,
      loop_buffer = [], loop_file = dictionary_file_new [] 0, loop_cache = google_cache_object_new None\<rparr>"

definition sample_start :: loop_state where
  "sample_start = loop_state_new config_new [] (google_cache_object_new None)"

lemma sample_connections: "valid_connections (server_config sample_server)"
  by (simp add: valid_connections_def sample_server_def config_new_def default_max_connections_def)

lemma sample_accept:
  "run_loop_event t env sample_server (Listener_Event [Accepted (sample_socket []) True, Accept_Would_Block]) sample_start
     = (Ok True, sample_start\<lparr>sockets := (sockets sample_start)[0 := Some (sample_socket [])],
          sockets_some_count := 1, next_socket_index := 1\<rparr>)"
  by (simp add: run_loop_event_def run_loop_listener_def sample_start_def loop_state_new_def sample_server_def
      config_new_def default_max_connections_def Let_def max_connections_usize_def get_empty_sockets_index_def index_res_def)

lemma sample_reachable:
  "loop_reachable (fresh_vecs tables_new) sample_server {sample_outside} [] (google_cache_object_new None)
     (sample_start\<lparr>sockets := (sockets sample_start)[0 := Some (sample_socket [])],
        sockets_some_count := 1, next_socket_index := 1\<rparr>)"
proof (rule loop_reachable.step)
  show "loop_reachable (fresh_vecs tables_new) sample_server {sample_outside} [] (google_cache_object_new None) sample_start"
    using loop_reachable.start [where srv = sample_server] by (simp add: sample_start_def sample_server_def)
  show "sample_outside \<in> {sample_outside}" by simp
qed (rule loop_step.listen [OF sample_accept])

theorem connection_table_invariant_witness:
  "open_count ((replicate 16 None)[0 := Some (sample_socket [])]) = 1
     \<and> (replicate 16 None)[0 := Some (sample_socket [])] ! 1 = None"
  using connection_table_invariant [OF sample_reachable sample_connections]
  by (simp add: sample_start_def loop_state_new_def sample_server_def config_new_def default_max_connections_def)

theorem listener_never_panics_witness:
  "fst (run_loop_event (fresh_vecs tables_new) sample_outside sample_server
     (Listener_Event [Accepted (sample_socket []) True, Accept_Failed])
     (sample_start\<lparr>sockets := (sockets sample_start)[0 := Some (sample_socket [])],
        sockets_some_count := 1, next_socket_index := 1\<rparr>)) \<in> {Ok True, Err Io}"
  by (rule listener_never_panics [OF sample_reachable sample_connections])

lemma sample_end_of_stream:
  "run_loop_event (fresh_vecs tables_new) sample_outside sample_server (Token_Event 0 True) (sample_loop [Data []])
     = (Ok True, (sample_loop [])\<lparr>sockets := [None, Some (sample_socket [])], sockets_some_count := 1\<rparr>)"
  by (simp add: run_loop_event_def run_loop_token_def read_until_skk_server_def stream_read_until_skk_server_def
      read_until_loop.simps fill_buf_def take_request_def consume_def sample_loop_def sample_socket_def
      mio_socket_new_def sample_outside_def naive_twoway_def)



theorem partial_request_lost_witness:
  "run_loop_event (fresh_vecs tables_new) sample_outside sample_server (Token_Event 0 True) (sample_loop [Data [0x31, 0x61]])
     = (Ok True, sample_loop [])"
  using partial_request_lost [of sample_outside 0 "sample_loop [Data [0x31, 0x61]]" "sample_socket [Data [0x31, 0x61]]"
      "[0x31, 0x61]" "fresh_vecs tables_new" sample_server True] naive_twoway_documented
  by (simp add: sample_loop_def sample_socket_def mio_socket_new_def inner_piece_def sample_outside_def)

theorem second_request_waits_witness:
  "sockets (snd (run_loop_event (fresh_vecs tables_new) sample_outside sample_server (Token_Event 0 True)
      (sample_loop [Data [0x31, 0x61, 0x20, 0x32]]))) ! 0
     = Some ((sample_socket [])\<lparr>buffered := [0x32], stream :=
         \<lparr>sent = [0x31, 0x2f, 0x41, 0x31, 0x2f, 0x0a], write_outcomes = []\<rparr>\<rparr>)"
  using second_request_waits [of sample_outside 0 "sample_loop [Data [0x31, 0x61, 0x20, 0x32]]"
      "sample_socket [Data [0x31, 0x61, 0x20, 0x32]]" "[0x31, 0x61]" "[0x32]" "fresh_vecs tables_new" sample_server,
      OF _ _ _ _ _ _ _ _ _ _ surjective_pairing] naive_twoway_documented sample_handle
  by (simp add: sample_loop_def sample_socket_def mio_socket_new_def sample_outside_def sample_state_def)

theorem malformed_request_ends_server_witness:
  "run_loop (fresh_vecs tables_new) sample_outside sample_server [Token_Event 0 True, Token_Event 1 True]
     (sample_loop [Data [0x31, 0x8f, 0x20]]) = (Panic, sample_loop [Data [0x31, 0x8f, 0x20]])"
  using malformed_request_ends_server [of sample_outside sample_server 0 "sample_loop [Data [0x31, 0x8f, 0x20]]"
      "sample_socket [Data [0x31, 0x8f, 0x20]]" "0x31" "[]"] naive_twoway_documented
  by (simp add: sample_outside_def sample_loop_def sample_socket_def mio_socket_new_def sample_server_def config_new_def)

end
