(* ===== verification/Program.thy ===== *)
theory Program
  imports Config_File Jisyo_Roundtrip Run_Loop
begin

text \<open>
  The two programs: \<open>run_yaskkserv2\<close> and \<open>run_yaskkserv2_make_dictionary\<close> of \<open>src/skk.rs\<close>, with the setup and
  the start of the server (\<open>Yaskkserv2\<close> in \<open>src/skk/yaskkserv2.rs\<close>) and the three jobs of the creator
  (\<open>src/skk/yaskkserv2_make_dictionary.rs\<close>). The theorems follow files and arguments through both programs.
\<close>

section \<open>The machine\<close>

text \<open>
  What both programs find: the files and how they are read, how much the disk takes, the order of the bytes,
  and whether the operating system polls, binds an address and makes a daemon. A daemon has the working
  directory that the package \<open>daemonize\<close> gives it, so a relative path may name another file there.
\<close>

record machine =
  byte_order :: endianness
  files :: "string \<Rightarrow> bytes option"
  daemon_files :: "string \<Rightarrow> bytes option"
  jisyo_files :: "string \<Rightarrow> jisyo_file option"
  disk_room :: "string \<Rightarrow> nat option"
  polls :: bool
  binds :: "string \<Rightarrow> nat \<Rightarrow> bool"
  daemonizes :: bool
  help_prints :: bool

definition server_sha1_read_buffer_length :: nat where
  "server_sha1_read_buffer_length = 64 * 1024"

definition make_sha1_read_buffer_length :: nat where
  "make_sha1_read_buffer_length = 256 * 1024"

section \<open>The server\<close>

definition yaskkserv2_new :: server where
  "yaskkserv2_new = server_new"

definition yaskkserv2_setup ::
  "machine \<Rightarrow> 'j outside \<Rightarrow> config \<Rightarrow> server \<Rightarrow> tables option \<Rightarrow> (server \<times> google_cache_object \<times> tables option) res" where
  "yaskkserv2_setup mc env cfg srv once =
     (let cache = google_cache_object_new (files mc (google_cache_full_path cfg));
          cache = (if is_google_cache_enabled cfg then setup_use_rwlock_internally (the_bincode env) (the_sha1 env) cache
                   else cache)
      in and_then (dictionary_setup (byte_order mc) (the_sha1 env) server_sha1_read_buffer_length
             (files mc (dictionary_full_path cfg)) once) (\<lambda>(om, once').
         Ok (server_setup cfg om srv, cache, once')))"

text \<open>The start of \<open>run_loop\<close>, up to its endless loop.\<close>

definition run_loop_start :: "machine \<Rightarrow> config \<Rightarrow> google_cache_object \<Rightarrow> loop_state res" where
  "run_loop_start mc cfg cache =
     (if \<not> polls mc then Err Io
      else if \<not> parse_ip_addr (listen_address cfg) then Panic
      else case parse_unsigned 16 (port cfg) of
             None \<Rightarrow> Panic
           | Some p \<Rightarrow>
               if \<not> binds mc (listen_address cfg) p then Err Io
               else case files mc (dictionary_full_path cfg) of
                      None \<Rightarrow> Err Io
                    | Some content \<Rightarrow> Ok (loop_state_new cfg content cache))"

text \<open>How the program goes on: it ends, \<open>run\<close> reports an error and ends, or it serves.\<close>

datatype running = Ended | Reported skk_error | Serving server loop_state "tables option"

definition yaskkserv2_run :: "machine \<Rightarrow> server \<Rightarrow> google_cache_object \<Rightarrow> tables option \<Rightarrow> running res" where
  "yaskkserv2_run mc srv cache once =
     (case run_loop_start mc (server_config srv) cache of
        Ok st \<Rightarrow> Ok (Serving srv st once)
      | Err e \<Rightarrow> Ok (Reported e)
      | e \<Rightarrow> and_then e (\<lambda>_. Ok Ended))"

definition run_yaskkserv2_impl :: "machine \<Rightarrow> server \<Rightarrow> google_cache_object \<Rightarrow> tables option \<Rightarrow> bool \<Rightarrow> running res" where
  "run_yaskkserv2_impl mc srv cache once no_daemonize =
     (if no_daemonize then yaskkserv2_run mc srv cache once
      else if daemonizes mc then yaskkserv2_run (mc\<lparr>files := daemon_files mc\<rparr>) srv cache once
      else Ok Ended)"

text \<open>\<open>clap\<close> ends the program by itself when it has no matches.\<close>

definition run_yaskkserv2 :: "machine \<Rightarrow> surroundings \<Rightarrow> 'j outside \<Rightarrow> cli_matches option \<Rightarrow> running res" where
  "run_yaskkserv2 mc sur env matches =
     (case matches of
        None \<Rightarrow> Ok Ended
      | Some m \<Rightarrow>
          let (r, command_line_config) = command_line_start m (help_prints mc) command_line_new in
          and_then r (\<lambda>is_help_exit.
          if is_help_exit then Ok Ended
          else
            and_then (config_file_read sur (files mc) (config_file_new command_line_config)) (\<lambda>f.
            let cfg = file_config f in
            and_then (yaskkserv2_setup mc env cfg yaskkserv2_new None) (\<lambda>(srv, cache, once).
            run_yaskkserv2_impl mc srv cache once (is_no_daemonize cfg)))))"

section \<open>The creator\<close>

text \<open>
  A job returns its result and the file that it writes. A dictionary that does not fit is an error; the part of
  it that is on the disk then is left out.
\<close>

definition run_create_dictionary ::
  "machine \<Rightarrow> twoway \<Rightarrow> (bytes \<Rightarrow> bytes) \<Rightarrow> tables \<Rightarrow> config \<Rightarrow> bytes \<Rightarrow> string list \<Rightarrow> unit res \<times> (string \<times> bytes) option" where
  "run_create_dictionary mc tw sha1 t cfg encoding_table paths =
     (case create_dictionary (byte_order mc) tw sha1 (config_encoding cfg) encoding_table
             (get_merged_jisyo_entries_map t tw (map (jisyo_files mc) paths) (config_encoding cfg)) of
        Ok dict \<Rightarrow>
          (case disk_room mc (dictionary_full_path cfg) of
             None \<Rightarrow> (Err Io, None)
           | Some n \<Rightarrow> if length dict \<le> n then (Ok (), Some (dictionary_full_path cfg, dict)) else (Err Io, None))
      | e \<Rightarrow> (and_then e (\<lambda>_. Ok ()), None))"

definition run_create_jisyo ::
  "machine \<Rightarrow> twoway \<Rightarrow> (bytes \<Rightarrow> bytes) \<Rightarrow> dictionary_midashi_key list \<Rightarrow> tables option \<Rightarrow> config \<Rightarrow> string
     \<Rightarrow> unit res \<times> (string \<times> bytes) option" where
  "run_create_jisyo mc tw sha1 keys once cfg output_path =
     (let (r, content) = jisyo_create (byte_order mc) sha1 make_sha1_read_buffer_length tw keys (config_encoding cfg)
            (files mc (dictionary_full_path cfg)) once (disk_room mc output_path)
      in (r, map_option (\<lambda>c. (output_path, c)) content))"

definition run_create_jisyo_from_cache ::
  "machine \<Rightarrow> bincode \<Rightarrow> (bytes \<Rightarrow> bytes) \<Rightarrow> tables \<Rightarrow> string \<Rightarrow> string \<Rightarrow> encoding \<Rightarrow> unit res \<times> (string \<times> bytes) option" where
  "run_create_jisyo_from_cache mc bc sha1 t input_path output_path output_encoding =
     (let (r, content) = jisyo_create_from_cache bc sha1 t (files mc input_path) output_encoding (disk_room mc output_path)
      in (r, map_option (\<lambda>c. (output_path, c)) content))"

text \<open>The encoding table of the program (\<open>EncodingTable::get\<close>) is a parameter.\<close>

definition run_yaskkserv2_make_dictionary ::
  "machine \<Rightarrow> 'j outside \<Rightarrow> dictionary_midashi_key list \<Rightarrow> bytes \<Rightarrow> cli_matches option
     \<Rightarrow> unit res \<times> (string \<times> bytes) option" where
  "run_yaskkserv2_make_dictionary mc env keys encoding_table matches =
     (case matches of
        None \<Rightarrow> (Ok (), None)
      | Some m \<Rightarrow>
          let (r, c) = make_command_line_start m (help_prints mc) make_command_line_new in
          case r of
            Ok is_help_exit \<Rightarrow>
              if is_help_exit then (Ok (), None)
              else
                (case once_init_encoding_table (byte_order mc) encoding_table None of
                   Ok (Some t) \<Rightarrow>
                     if input_cache_full_path c \<noteq> [] then
                       run_create_jisyo_from_cache mc (the_bincode env) (the_sha1 env) t (input_cache_full_path c)
                         (output_jisyo_full_path c) (config_encoding (make_config c))
                     else if output_jisyo_full_path c = [] then
                       run_create_dictionary mc (the_twoway env) (the_sha1 env) t (make_config c) encoding_table
                         (jisyo_full_paths c)
                     else
                       run_create_jisyo mc (the_twoway env) (the_sha1 env) keys (Some t) (make_config c)
                         (output_jisyo_full_path c)
                 | Ok None \<Rightarrow> (Panic, None)
                 | e \<Rightarrow> (and_then e (\<lambda>_. Ok ()), None))
          | e \<Rightarrow> (and_then e (\<lambda>_. Ok ()), None))"

section \<open>The port\<close>

lemma parse_digits_grows: "0 < radix \<Longrightarrow> parse_digits radix m acc s = Some n \<Longrightarrow> acc \<le> n"
proof (induction s arbitrary: acc)
  case (Cons b s)
  then obtain d where "parse_digits radix m (acc * radix + d) s = Some n" by (auto split: option.splits if_splits)
  from Cons.IH [OF Cons.prems(1) this] Cons.prems(1) show ?case
    by (metis add_leD1 le_trans mult.commute mult_le_mono1 mult_1 Suc_leI One_nat_def)
qed simp

lemma parse_digits_shrink:
  "0 < radix \<Longrightarrow> parse_digits radix m acc s = Some n \<Longrightarrow> n \<le> m' \<Longrightarrow> parse_digits radix m' acc s = Some n"
proof (induction s arbitrary: acc)
  case (Cons b s)
  then obtain d where d: "digit_of radix b = Some d" "parse_digits radix m (acc * radix + d) s = Some n"
    by (auto split: option.splits if_splits)
  then show ?case
    using Cons.IH [OF Cons.prems(1) d(2) Cons.prems(3)] parse_digits_grows [OF Cons.prems(1) d(2)] Cons.prems(3) by simp
qed simp

lemma from_str_radix_shrink:
  "0 < radix \<Longrightarrow> from_str_radix radix m s = Some n \<Longrightarrow> n \<le> m' \<Longrightarrow> from_str_radix radix m' s = Some n"
  using parse_digits_shrink [of radix m 0 _ n m']
  by (auto simp: from_str_radix_def simp del: parse_digits.simps split: list.splits if_splits)

lemma ascii_Cons: "ascii (c # s) = of_char c # ascii s"
  by (simp add: ascii_def)

lemma of_char_minus: "(of_char c :: u8) = 0x2d \<longleftrightarrow> c = CHR ''-''"
proof
  assume "(of_char c :: u8) = 0x2d"
  then have "of_char c = (of_char (CHR ''-'') :: u8)" by simp
  then have "of_nat (of_char c) = (of_nat (of_char (CHR ''-'')) :: u8)" by (simp only: of_nat_of_char)
  moreover have "(of_char c :: nat) < 256" by simp
  ultimately have "(of_char c :: nat) = of_char (CHR ''-'')"
    by (simp add: word_unat_eq_iff unsigned_of_nat take_bit_nat_eq_self)
  then show "c = CHR ''-''" by (simp only: of_char_eq_iff)
qed simp

lemma port_of_u16:
  assumes "port_validator p" and "hd p \<noteq> CHR ''-''"
  shows "\<exists>n. parse_unsigned 16 p = Some n"
proof -
  obtain i where i: "parse_i32 p = Some i" "0 \<le> i" "i \<le> 65535"
    using assms(1) by (auto simp: port_validator_def range_validator_def split: option.splits)
  then obtain c s where p: "p = c # s" by (cases p) (auto simp: parse_i32_def i32_from_str_def ascii_def)
  then have "(of_char c :: u8) \<noteq> 0x2d" using assms(2) by (auto simp only: of_char_minus list.sel)
  then have "map_option int (from_str_radix 10 (2 ^ 31 - 1) (ascii p)) = Some i"
    using i(1) p by (simp add: parse_i32_def i32_from_str_def ascii_Cons)
  then obtain k where k: "from_str_radix 10 (2 ^ 31 - 1) (ascii p) = Some k" "i = int k" by auto
  have "k \<le> 2 ^ 16 - 1" using i(3) k(2) by simp
  from from_str_radix_shrink [OF _ k(1) this] show ?thesis by (simp add: parse_unsigned_def)
qed

text \<open>C39: A port with a minus sign that is accepted as minus zero, on the command line or in the file, ends the server: the port is parsed a second time, as a number without a sign, and the program panics.\<close>

theorem minus_zero_port_panics:
  assumes "port (server_config srv) = CHR ''-'' # s" and "port_validator (port (server_config srv))"
    and "polls mc" and "valid_config sur (server_config srv)"
  shows "parse_i32 (port (server_config srv)) = Some 0 \<and> yaskkserv2_run mc srv cache once = Panic"
proof -
  have "parse_unsigned 16 (port (server_config srv)) = None"
    by (simp add: assms(1) parse_unsigned_def from_str_radix_def ascii_Cons digit_of_def in_range_def)
  moreover have "parse_i32 (port (server_config srv)) = Some 0"
    using assms(2) by (auto simp: assms(1) port_validator_def range_validator_def parse_i32_def i32_from_str_def
        ascii_Cons split: option.splits if_splits)
  ultimately show ?thesis
    using assms(3,4) by (simp add: yaskkserv2_run_def run_loop_start_def valid_config_def)
qed

section \<open>From SKK-JISYO files to the answers of the server\<close>

lemma run_yaskkserv2_make:
  assumes "once_init_encoding_table (byte_order mc) table None = Ok (Some t)"
    and "make_command_line_start mm (help_prints mc) make_command_line_new = (Ok False, c)"
    and "input_cache_full_path c = []" and "output_jisyo_full_path c = []"
    and "create_dictionary (byte_order mc) (the_twoway env) (the_sha1 env) (config_encoding (make_config c)) table
       (get_merged_jisyo_entries_map t (the_twoway env) (map (jisyo_files mc) (jisyo_full_paths c))
         (config_encoding (make_config c))) = Ok dict"
    and "disk_room mc (dictionary_full_path (make_config c)) = Some n" and "length dict \<le> n"
  shows "run_yaskkserv2_make_dictionary mc env keys table (Some mm)
    = (Ok (), Some (dictionary_full_path (make_config c), dict))"
  using assms by (simp add: run_yaskkserv2_make_dictionary_def run_create_dictionary_def Let_def)

lemma valid_config_connections: "valid_config sur cfg \<Longrightarrow> valid_connections cfg"
  by (simp add: valid_config_def valid_connections_def max_connection_def)

lemma run_yaskkserv2_serves:
  assumes doc: "clap_documented (yaskkserv2_args sur) m"
    and args: "command_line_start m (help_prints mc) command_line_new = (Ok False, cfg0)"
    and conf: "config_file_read sur (files mc) (config_file_new cfg0) = Ok f"
    and dict: "files mc (dictionary_full_path (file_config f)) = Some dict"
    and om: "dictionary_setup (byte_order mc) (the_sha1 env) server_sha1_read_buffer_length (Some dict) None = Ok (om, once)"
    and ready: "polls mc" "\<And>p. binds mc (listen_address (file_config f)) p"
      "is_no_daemonize (file_config f) \<or> daemonizes mc \<and> daemon_files mc (dictionary_full_path (file_config f)) = Some dict"
      "hd (port (file_config f)) \<noteq> CHR ''-''"
  shows "\<exists>cache. run_yaskkserv2 mc sur env (Some m)
    = Ok (Serving (server_setup (file_config f) om server_new) (loop_state_new (file_config f) dict cache) once)"
proof -
  let ?cfg = "file_config f" and ?srv = "server_setup (file_config f) om server_new"
  have valid: "valid_config sur ?cfg" using started_config_valid [OF doc args conf] by simp
  then obtain p where p: "parse_unsigned 16 (port ?cfg) = Some p"
    using port_of_u16 ready(4) by (auto simp: valid_config_def)
  have run: "yaskkserv2_run (mc\<lparr>files := fs\<rparr>) ?srv cache once = Ok (Serving ?srv (loop_state_new ?cfg dict cache) once)"
    if "fs (dictionary_full_path ?cfg) = Some dict" for cache fs
    using valid p ready(1,2) that
    by (simp add: yaskkserv2_run_def run_loop_start_def server_setup_def valid_config_def)
  have same: "mc\<lparr>files := files mc\<rparr> = mc" by simp
  define cache where "cache = (let g = google_cache_object_new (files mc (google_cache_full_path ?cfg)) in
    if is_google_cache_enabled ?cfg then setup_use_rwlock_internally (the_bincode env) (the_sha1 env) g else g)"
  have "yaskkserv2_setup mc env ?cfg yaskkserv2_new None = Ok (?srv, cache, once)"
    using dict om by (simp add: yaskkserv2_setup_def yaskkserv2_new_def cache_def Let_def)
  then show ?thesis
    using args conf ready(3) run [of "daemon_files mc" cache] run [of "files mc" cache, unfolded same, OF dict]
    by (intro exI [of _ cache]) (auto simp: run_yaskkserv2_def run_yaskkserv2_impl_def Let_def)
qed


text \<open>
  The setup reads the dictionary before the daemon is made, the loop opens it afterwards. A path that the
  daemon cannot resolve passes the setup, and the server ends.
\<close>

lemma daemon_without_dictionary:
  assumes doc: "clap_documented (yaskkserv2_args sur) m"
    and args: "command_line_start m (help_prints mc) command_line_new = (Ok False, cfg0)"
    and conf: "config_file_read sur (files mc) (config_file_new cfg0) = Ok f"
    and dict: "files mc (dictionary_full_path (file_config f)) = Some dict"
    and om: "dictionary_setup (byte_order mc) (the_sha1 env) server_sha1_read_buffer_length (Some dict) None = Ok (om, once)"
    and daemon: "\<not> is_no_daemonize (file_config f)" "daemonizes mc" "daemon_files mc (dictionary_full_path (file_config f)) = None"
    and ready: "polls mc" "\<And>p. binds mc (listen_address (file_config f)) p" "hd (port (file_config f)) \<noteq> CHR ''-''"
  shows "run_yaskkserv2 mc sur env (Some m) = Ok (Reported Io)"
proof -
  have valid: "valid_config sur (file_config f)" using started_config_valid [OF doc args conf] by simp
  then obtain p where "parse_unsigned 16 (port (file_config f)) = Some p"
    using port_of_u16 ready(3) by (auto simp: valid_config_def)
  then show ?thesis
    using args conf dict om daemon ready(1,2) valid
    by (simp add: run_yaskkserv2_def run_yaskkserv2_impl_def yaskkserv2_setup_def yaskkserv2_new_def yaskkserv2_run_def
        run_loop_start_def server_setup_def valid_config_def Let_def)
qed

text \<open>One request of a client for a midashi of the dictionary, and the answer.\<close>

definition entry_request :: "bytes \<times> bytes \<Rightarrow> bytes" where
  "entry_request p = 0x31 # fst p @ [space]"

definition entry_answer :: "bytes \<times> bytes \<Rightarrow> bytes" where
  "entry_answer p = 0x31 # snd p @ [lf]"

definition served_socket :: "bytes \<Rightarrow> nat \<Rightarrow> mio_socket \<Rightarrow> loop_state \<Rightarrow> bool" where
  "served_socket dict i s st \<longleftrightarrow> i < length (sockets st) \<and> sockets st ! i = Some s \<and> loop_buffer st = []
     \<and> df_valid (loop_file st) \<and> df_file (loop_file st) = dict \<and> buffered s = [] \<and> write_outcomes (stream s) = []"

lemma serve_entry:
  assumes tw: "twoway_documented (the_twoway env)" and asc: "ascending entries" and ok: "\<forall>p \<in> set entries. served_entry p"
    and holds: "holds_entries entries enc dict om us blocks"
    and cfg: "\<not> is_midashi_utf8 cfg" "google_timing cfg = NotFound"
    and p: "p \<in> set entries" "length (fst p) + 2 \<le> protocol_maximum_length"
    and s: "served_socket dict i s st" "reads s = Data (entry_request p) # rest"
  shows "\<exists>s' st'. run_loop_event t env (server_setup cfg om server_new) (Token_Event i d) st = (Ok True, st')
      \<and> served_socket dict i s' st' \<and> reads s' = rest \<and> sent (stream s') = sent (stream s) @ entry_answer p"
proof -
  let ?srv = "server_setup cfg om server_new"
  obtain m c where pc: "p = (m, c)" by (cases p)
  have m: "(m, c) \<in> set entries" "length m + 2 \<le> protocol_maximum_length" using p pc by simp_all
  have space: "space \<notin> set (0x31 # m)"
    using ok m(1) by (auto simp: served_entry_def good_midashi_def)
  have read: "stream_read_until_skk_server (the_twoway env) s []
      = Ok (Read (length (0x31 # m @ [space])), s\<lparr>buffered := [], reads := rest\<rparr>, 0x31 # m @ [space])"
    using request_in_pieces' [OF tw, of "[]" "0x31 # m" s "[]" rest] space s
    by (simp add: served_socket_def entry_request_def pc)
  have skip: "get_buffer_skip_count (0x31 # m @ [space]) (length (0x31 # m @ [space])) = 0"
    by (simp add: get_buffer_skip_count_def)
  obtain rs where rs: "handle_client t env ?srv \<lparr>request_output = stream s, request_file = loop_file st,
        request_cache = loop_cache st\<rparr> (0x31 # m @ [space]) = Ok (Continue, rs)"
      "sent (request_output rs) = sent (stream s) @ 0x31 # c @ [lf]" "write_outcomes (request_output rs) = []"
      "df_valid (request_file rs)" "df_file (request_file rs) = dict"
    using holds_entries_answer [OF tw asc ok holds cfg m,
        of "\<lparr>request_output = stream s, request_file = loop_file st, request_cache = loop_cache st\<rparr>" t] s(1)
    by (auto simp: served_socket_def)
  show ?thesis
    using s(1) read skip rs
    by (intro exI [of _ "s\<lparr>buffered := [], reads := rest, stream := request_output rs\<rparr>"])
      (simp add: served_socket_def run_loop_event_def run_loop_token_def read_until_skk_server_def tail_res_def
        entry_answer_def pc)
qed

lemma serve_entries:
  assumes tw: "twoway_documented (the_twoway env)" and asc: "ascending entries" and ok: "\<forall>p \<in> set entries. served_entry p"
    and holds: "holds_entries entries enc dict om us blocks"
    and cfg: "\<not> is_midashi_utf8 cfg" "google_timing cfg = NotFound"
  shows "\<forall>p \<in> set ps. p \<in> set entries \<and> length (fst p) + 2 \<le> protocol_maximum_length \<Longrightarrow>
    served_socket dict i s st \<Longrightarrow> reads s = map (Data \<circ> entry_request) ps \<Longrightarrow>
    \<exists>s' st'. run_loop t env (server_setup cfg om server_new) (map (\<lambda>_. Token_Event i False) ps) st = (Ok True, st')
      \<and> served_socket dict i s' st' \<and> sent (stream s') = sent (stream s) @ concat (map entry_answer ps)"
proof (induction ps arbitrary: s st)
  case (Cons p ps)
  have "p \<in> set entries" "length (fst p) + 2 \<le> protocol_maximum_length" using Cons.prems(1) by simp_all
  from serve_entry [OF tw asc ok holds cfg this Cons.prems(2), of "map (Data \<circ> entry_request) ps" t False] Cons.prems(3)
  obtain s1 st1 where s1: "run_loop_event t env (server_setup cfg om server_new) (Token_Event i False) st = (Ok True, st1)"
    "served_socket dict i s1 st1" "reads s1 = map (Data \<circ> entry_request) ps"
    "sent (stream s1) = sent (stream s) @ entry_answer p" by auto
  from Cons.IH [OF _ s1(2,3)] Cons.prems(1) s1(1,4) show ?case by auto
qed auto

lemma first_connection:
  assumes "valid_connections cfg" and "reads s = es" and "buffered s = []" and "write_outcomes (stream s) = []"
  shows "\<exists>st'. run_loop_event t env (server_setup cfg om server_new)
      (Listener_Event [Accepted s True, Accept_Would_Block]) (loop_state_new cfg dict cache) = (Ok True, st')
    \<and> served_socket dict 0 s st'"
proof -
  have n: "max_connections_usize cfg = nat (max_connections cfg)" "0 < nat (max_connections cfg)"
    using valid_connections_usize [OF assms(1)] assms(1) by (simp_all add: valid_connections_def)
  show ?thesis
  proof (cases "nat (max_connections cfg) = 1")
    case True
    then show ?thesis
      using n assms(3,4)
      by (simp add: run_loop_event_def run_loop_listener_def loop_state_new_def server_setup_def served_socket_def
          dictionary_file_new_valid) (simp add: dictionary_file_new_def)
  next
    case False
    then have "Suc 0 < nat (max_connections cfg)" using n(2) by linarith
    then show ?thesis
      using n assms(3,4)
      by (simp add: run_loop_event_def run_loop_listener_def loop_state_new_def server_setup_def served_socket_def
          get_empty_sockets_index_def index_res_def dictionary_file_new_valid) (simp add: dictionary_file_new_def)
  qed
qed


lemma first_client_served:
  assumes tw: "twoway_documented (the_twoway env)" and asc: "ascending entries" and ok: "\<forall>p \<in> set entries. served_entry p"
    and holds: "holds_entries entries enc dict om us blocks"
    and cfg: "\<not> is_midashi_utf8 cfg" "google_timing cfg = NotFound" and conn: "valid_connections cfg"
    and ps: "\<forall>p \<in> set ps. p \<in> set entries \<and> length (fst p) + 2 \<le> protocol_maximum_length"
    and s: "reads s = map (Data \<circ> entry_request) ps" "buffered s = []" "write_outcomes (stream s) = []"
  shows "\<exists>s' st'. run_loop t env (server_setup cfg om server_new)
      (Listener_Event [Accepted s True, Accept_Would_Block] # map (\<lambda>_. Token_Event 0 False) ps)
      (loop_state_new cfg dict cache) = (Ok True, st')
    \<and> sockets st' ! 0 = Some s' \<and> sent (stream s') = sent (stream s) @ concat (map entry_answer ps)"
proof -
  from first_connection [OF conn s] obtain st1 where st1:
    "run_loop_event t env (server_setup cfg om server_new) (Listener_Event [Accepted s True, Accept_Would_Block])
       (loop_state_new cfg dict cache) = (Ok True, st1)" "served_socket dict 0 s st1" by blast
  from serve_entries [OF tw asc ok holds cfg ps st1(2) s(1), of t] st1(1) show ?thesis
    by (fastforce simp: served_socket_def)
qed

lemma created_dictionary_fits:
  assumes "holds_entries es enc dict om us blocks"
  shows "length dict < 2 ^ 33"
proof -
  have "unat (blocks_offset (dictionary_fixed_header om)) < 2 ^ 32"
    using unsigned_less [where ?'a = nat and w = "blocks_offset (dictionary_fixed_header om)"] by simp
  then show ?thesis using assms by (simp add: holds_entries_def Let_def)
qed

lemma config_file_read_other:
  "full_path cfg \<noteq> path \<Longrightarrow>
   config_file_read sur (fs(path := v)) (config_file_new cfg) = config_file_read sur fs (config_file_new cfg)"
  by (simp add: config_file_read_def) (simp add: config_file_new_def)

text \<open>C1: From SKK-JISYO files to the answers on a connection, through both programs: the creator writes a dictionary, the server that is started on it serves, and the first client that connects and sends one request after the other for entries of the files gets their candidates, one line for each request, in order. In all the states the server can reach its table of connections keeps the configured length. The path of the dictionary has to name the same file when the server has become a daemon.\<close>

theorem jisyo_files_served:
  fixes env :: "'j outside"
  assumes "twoway_documented (the_twoway env)" and "\<And>x. length (the_sha1 env x) = sha1sum_length"
    and "once_init_encoding_table (byte_order mc) table None = Ok (Some t)" and "line_tables t"
    and "make_command_line_start mm (help_prints mc) make_command_line_new = (Ok False, c)"
    and "input_cache_full_path c = []" and "output_jisyo_full_path c = []"
    and "get_merged_jisyo_entries_map t (the_twoway env) (map (jisyo_files mc) (jisyo_full_paths c))
       (config_encoding (make_config c)) = Ok entries"
    and "\<forall>p \<in> set entries. served_entry p \<and> length (fst p) + 2 \<le> protocol_maximum_length"
    and "sizes_fit (byte_order mc) (the_twoway env) entries table"
    and "disk_room mc (dictionary_full_path (make_config c)) = Some capacity" and "2 ^ 33 \<le> capacity"
    and "clap_documented (yaskkserv2_args sur) m"
    and "command_line_start m (help_prints mc) command_line_new = (Ok False, cfg0)"
    and "config_file_read sur (files mc) (config_file_new cfg0) = Ok f"
    and "full_path cfg0 \<noteq> dictionary_full_path (make_config c)"
    and "dictionary_full_path (file_config f) = dictionary_full_path (make_config c)"
    and "polls mc" and "\<And>p. binds mc (listen_address (file_config f)) p"
    and "is_no_daemonize (file_config f) \<or> daemonizes mc" and "hd (port (file_config f)) \<noteq> CHR ''-''"
    and "\<not> is_midashi_utf8 (file_config f)" and "google_timing (file_config f) = NotFound"
    and "set ps \<subseteq> set entries" and "buffered s = []" and "reads s = map (Data \<circ> entry_request) ps"
    and "write_outcomes (stream s) = []"
  shows "\<exists>dict srv st cache st' s'.
    run_yaskkserv2_make_dictionary mc env keys table (Some mm) = (Ok (), Some (dictionary_full_path (make_config c), dict))
    \<and> run_yaskkserv2 (mc\<lparr>files := (files mc)(dictionary_full_path (make_config c) \<mapsto> dict),
        daemon_files := (daemon_files mc)(dictionary_full_path (make_config c) \<mapsto> dict)\<rparr>) sur env (Some m)
        = Ok (Serving srv st (Some t))
    \<and> run_loop t env srv (Listener_Event [Accepted s True, Accept_Would_Block] # map (\<lambda>_. Token_Event 0 False) ps) st
        = (Ok True, st')
    \<and> sockets st' ! 0 = Some s' \<and> sent (stream s') = sent (stream s) @ concat (map entry_answer ps)
    \<and> st = loop_state_new (server_config srv) dict cache
    \<and> (\<forall>st. loop_reachable t srv (UNIV :: 'j outside set) dict cache st \<longrightarrow> length (sockets st) = nat (max_connections (file_config f)))"
proof -
  let ?path = "dictionary_full_path (make_config c)" and ?cfg = "file_config f"
  have asc: "ascending entries"
    using merged_entries_ordered [OF assms(1,4,8)]
    by (simp add: entries_ordered_def btree_sorted_def ascending_def sorted_wrt_map)
  have ok: "\<forall>p \<in> set entries. served_entry p" using assms(9) by blast
  have n: "0 < server_sha1_read_buffer_length" by (simp add: server_sha1_read_buffer_length_def)
  have table: "once_init_encoding_table (byte_order mc) table None = Ok (Some t)" by (rule assms(3))
  from created_dictionary_holds [where ?sha1.0 = "the_sha1 env" and enc = "config_encoding (make_config c)",
      OF assms(1,2) n ok assms(10) table]
  obtain dict om us blocks where d:
    "create_dictionary (byte_order mc) (the_twoway env) (the_sha1 env) (config_encoding (make_config c)) table (Ok entries)
       = Ok dict"
    "dictionary_setup (byte_order mc) (the_sha1 env) server_sha1_read_buffer_length (Some dict) None = Ok (om, Some t)"
    and holds: "holds_entries entries (config_encoding (make_config c)) dict om us blocks" by blast
  let ?srv = "server_setup ?cfg om server_new" and ?mc = "mc\<lparr>files := (files mc)(?path \<mapsto> dict), daemon_files := (daemon_files mc)(?path \<mapsto> dict)\<rparr>"
  have make: "run_yaskkserv2_make_dictionary mc env keys table (Some mm) = (Ok (), Some (?path, dict))"
    using created_dictionary_fits [OF holds] assms(12)
    by (intro run_yaskkserv2_make [OF assms(3,5-7) _ assms(11)]) (simp_all add: assms(8) d(1))
  have conf: "config_file_read sur (files ?mc) (config_file_new cfg0) = Ok f"
    using config_file_read_other [OF assms(16)] assms(15) by simp
  have "\<exists>cache. run_yaskkserv2 ?mc sur env (Some m) = Ok (Serving ?srv (loop_state_new ?cfg dict cache) (Some t))"
    using assms(14,17-22) d(2) by (intro run_yaskkserv2_serves [OF assms(13) _ conf]) simp_all
  then obtain cache where serve:
    "run_yaskkserv2 ?mc sur env (Some m) = Ok (Serving ?srv (loop_state_new ?cfg dict cache) (Some t))" by blast
  have conn: "valid_connections ?cfg"
    using started_config_valid [OF assms(13-15)] valid_config_connections by blast
  have cfg: "server_config ?srv = ?cfg" by (simp add: server_setup_def)
  have "\<forall>p \<in> set ps. p \<in> set entries \<and> length (fst p) + 2 \<le> protocol_maximum_length" using assms(9,24) by blast
  from first_client_served [OF assms(1) asc ok holds assms(22,23) conn this assms(26,25,27), of t cache] obtain s' st' where st':
    "run_loop t env ?srv (Listener_Event [Accepted s True, Accept_Would_Block] # map (\<lambda>_. Token_Event 0 False) ps)
       (loop_state_new ?cfg dict cache) = (Ok True, st')"
    "sockets st' ! 0 = Some s'" "sent (stream s') = sent (stream s) @ concat (map entry_answer ps)" by blast
  have reach: "length (sockets st) = nat (max_connections ?cfg)"
    if "loop_reachable t ?srv (UNIV :: 'j outside set) dict cache st" for st
    using reachable_inv [OF that] conn by (simp add: cfg loop_inv_def)
  show ?thesis
    using make serve st' reach
    by - (rule exI [of _ dict], rule exI [of _ ?srv], rule exI [of _ "loop_state_new ?cfg dict cache"],
        rule exI [of _ cache], rule exI [of _ st'], rule exI [of _ s'],
        simp add: cfg del: run_loop.simps)
qed


section \<open>Witnesses\<close>

text \<open>One SKK-JISYO file with the line \<open>a /b/\<close>, and a table without characters.\<close>

definition sample_machine :: machine where
  "sample_machine = \<lparr>byte_order = Little, files = (\<lambda>_. None), daemon_files = (\<lambda>_. None),
     jisyo_files = (\<lambda>_. Some (sample_jisyo [0x61, 0x20, 0x2f, 0x62, 0x2f, 0x0a])), disk_room = (\<lambda>_. Some (2 ^ 33)),
     polls = True, binds = (\<lambda>_ _. True), daemonizes = True, help_prints = True\<rparr>"

definition sample_make_matches :: cli_matches where
  "sample_make_matches = \<lparr>value_of = [''dictionary-filename'' \<mapsto> ''/d''], values_of = [''jisyo'' \<mapsto> [''j'']],
     is_present = (\<lambda>_. False)\<rparr>"

lemma sample_line_read:
  "get_merged_jisyo_entries_map t naive_twoway [Some (sample_jisyo [0x61, 0x20, 0x2f, 0x62, 0x2f, 0x0a])] Euc = Ok sample_entries"
proof -
  have "detect_encoding naive_twoway [0x61, 0x20, 0x2f, 0x62, 0x2f, 0x0a] = Ok (Euc, NoOptions)"
    by (simp add: detect_encoding_def detect_loop.simps in_range_def Let_def naive_twoway_def ascii_def i32_quot_def)
  then show ?thesis
    using sample_jisyo_read [of "[0x61, 0x20, 0x2f, 0x62, 0x2f, 0x0a]" t]
    by (simp add: sample_entries_def jisyo_eval)
qed

lemma sample_table:
  "once_init_encoding_table Little (table_bytes Little [] []) None = Ok (Some (tables_for [] []))"
  "length (table_bytes Little [] []) = 32"
proof -
  show "once_init_encoding_table Little (table_bytes Little [] []) None = Ok (Some (tables_for [] []))"
    using setup_table_bytes [of "[]" "[]" Little "[]"]
    by (simp add: once_init_encoding_table_def sized_entries_def)
  show "length (table_bytes Little [] []) = 32" by (simp add: table_bytes_def)
qed

lemma sample_line_tables: "line_tables (tables_for [] [])"
  by (simp add: line_tables_def tables_for_def fresh_tables_wf fresh_free_of)


lemma sample_table_sizes: "sizes_fit Little naive_twoway sample_entries (table_bytes Little [] [])"
  using sample_sizes
  by (simp add: sizes_fit_def sample_table(2) sample_index dictionary_size_def padding_for_def block_heads_to_bytes_def
      offset_length_to_bytes_def index_data_header_to_bytes_def block_header_to_bytes_def index_unit_def)

definition sample_dictionary_matches :: cli_matches where
  "sample_dictionary_matches = sample_matches [(''dictionary'', ''/d'')]"

lemma sample_dictionary_start:
  "command_line_start sample_dictionary_matches h command_line_new = (Ok False, config_new\<lparr>dictionary_full_path := ''/d''\<rparr>)"
  by (simp add: command_line_start_def command_line_setup_def sample_dictionary_matches_def sample_matches_def
      set_value_def set_integer_def command_line_new_def)

lemma sample_dictionary_documented:
  "clap_documented (yaskkserv2_args sample_surroundings) sample_dictionary_matches"
  by (simp add: clap_documented_def sample_dictionary_matches_def sample_matches_def yaskkserv2_args_def
      dictionary_validator_def sample_surroundings_def)

lemma sample_make_start:
  "make_command_line_start sample_make_matches h make_command_line_new = (Ok False,
     \<lparr>make_config = config_new\<lparr>config_encoding := Euc, dictionary_full_path := ''/d'', is_verbose := False\<rparr>,
      jisyo_full_paths = [''j''], output_jisyo_full_path = [], input_cache_full_path = []\<rparr>)"
  by (simp add: make_command_line_start_def sample_make_matches_def make_command_line_new_def Let_def set_value_def)

theorem jisyo_files_served_witness:
  "\<exists>dict srv st st' s'.
    run_yaskkserv2_make_dictionary sample_machine sample_outside [] (table_bytes Little [] []) (Some sample_make_matches)
      = (Ok (), Some (''/d'', dict))
    \<and> run_yaskkserv2 (sample_machine\<lparr>files := [''/d'' \<mapsto> dict], daemon_files := [''/d'' \<mapsto> dict]\<rparr>) sample_surroundings sample_outside
        (Some sample_dictionary_matches) = Ok (Serving srv st (Some (tables_for [] [])))
    \<and> run_loop (tables_for [] []) sample_outside srv
        [Listener_Event [Accepted (sample_socket [Data [0x31, 0x61, 0x20], Data [0x31, 0x61, 0x20]]) True, Accept_Would_Block],
         Token_Event 0 False, Token_Event 0 False] st = (Ok True, st')
    \<and> sockets st' ! 0 = Some s'
    \<and> sent (stream s') = [0x31, 0x2f, 0x62, 0x2f, 0x0a, 0x31, 0x2f, 0x62, 0x2f, 0x0a]"
proof -
  let ?c = "\<lparr>make_config = config_new\<lparr>config_encoding := Euc, dictionary_full_path := ''/d'', is_verbose := False\<rparr>,
      jisyo_full_paths = [''j''], output_jisyo_full_path = [], input_cache_full_path = []\<rparr>"
  let ?cfg = "config_new\<lparr>dictionary_full_path := ''/d''\<rparr>"
  let ?p = "([0x61], [0x2f, 0x62, 0x2f]) :: bytes \<times> bytes"
  have tw: "the_twoway sample_outside = naive_twoway" and sha: "the_sha1 sample_outside = sample_sha1"
    by (simp_all add: sample_outside_def)
  have read: "config_file_read sample_surroundings (files sample_machine) (config_file_new ?cfg) = Ok (config_file_new ?cfg)"
    by (simp add: config_file_read_def sample_machine_def)
  have entries: "\<forall>p \<in> set sample_entries. served_entry p \<and> length (fst p) + 2 \<le> protocol_maximum_length"
    using sample_served by (simp add: sample_entries_def protocol_maximum_length_def)
  have merged: "get_merged_jisyo_entries_map (tables_for [] []) (the_twoway sample_outside)
      (map (jisyo_files sample_machine) (jisyo_full_paths ?c)) (config_encoding (make_config ?c)) = Ok sample_entries"
    using sample_line_read by (simp add: tw sample_machine_def)
  have length: "length (the_sha1 sample_outside x) = sha1sum_length" for x by (simp add: sha length_sample_sha1)
  note served = jisyo_files_served [where env = sample_outside and mc = sample_machine and c = ?c and ?cfg0.0 = ?cfg
      and f = "config_file_new ?cfg" and ps = "[?p, ?p]" and keys = "[]" and mm = sample_make_matches
      and m = sample_dictionary_matches and t = "tables_for [] []" and table = "table_bytes Little [] []"
      and s = "sample_socket [Data [0x31, 0x61, 0x20], Data [0x31, 0x61, 0x20]]" and capacity = "2 ^ 33"
      and entries = sample_entries and sur = sample_surroundings]
  show ?thesis
    using served [OF _ length _ sample_line_tables sample_make_start _ _ merged entries _ _ _ sample_dictionary_documented
        sample_dictionary_start read] sample_table(1) sample_table_sizes naive_twoway_documented
    by (auto simp: tw sample_machine_def config_file_new_def config_new_def sample_entries_def sample_socket_def
        mio_socket_new_def entry_request_def entry_answer_def comp_def simp del: run_loop.simps)
qed

theorem minus_zero_port_panics_witness:
  "yaskkserv2_run sample_machine (server_new\<lparr>server_config := config_new\<lparr>port := ''-0''\<rparr>\<rparr>) (google_cache_object_new None) None
     = Panic"
proof -
  have "port_validator ''-0''"
    by (simp add: port_validator_def range_validator_def parse_i32_def i32_from_str_def from_str_radix_def
        digit_of_def in_range_def ascii_def)
  then show ?thesis
    using minus_zero_port_panics [of "server_new\<lparr>server_config := config_new\<lparr>port := ''-0''\<rparr>\<rparr>" "''0''" sample_machine
        sample_surroundings] valid_config_updates(13) [OF config_new_valid]
    by (simp add: sample_machine_def)
qed

end
