(* ===== verification/Spec2Isabelle.thy ===== *)
theory Spec2Isabelle
  imports Euc_Roundtrip Table_Source Unit_Search Program
begin

text \<open>
  A model of yaskkserv2, a server of SKK dictionaries for Japanese input, and of the program that makes its
  dictionaries. The paths are those of the repository, under \<open>src/\<close> of the crate.

  The program. \<open>yaskkserv2_make_dictionary\<close> reads SKK-JISYO files, lines of a midashi (what the user types)
  and its candidates, merges them into one ordered map, groups the entries by a key of up to four bytes,
  divides each group into units of about \<open>DICTIONARY_BLOCK_UNIT_LENGTH\<close> bytes and writes a dictionary file:
  a header with a checksum, a table for the conversion between EUC-JIS-2004 and UTF-8, an index of the units
  and the units themselves. It can also write a SKK-JISYO file, from a dictionary or from a cache of online
  candidates. \<open>yaskkserv2\<close> reads its arguments and a configuration file, loads the table and the index of a
  dictionary, and then answers requests over TCP in one loop over the events of \<open>mio\<close>: 1 for candidates, 4 for
  completions, 0, 2 and 3 for the end of the connection, the version and the host. A request 1 may also ask two
  online services and a cache of their answers.

  Shared data.
  \<^item> Prelude: bytes, the outcome type \<open>res\<close> (\<open>Ok\<close>, the errors of \<open>skk/error.rs\<close>, \<open>Panic\<close>, \<open>Undefined\<close> for a read
    of memory that safe code cannot do, \<open>Diverge\<close>), slices, splitting and joining, the byte order, and the
    package \<open>twoway\<close> as a parameter with its documentation.
  \<^item> Std_Text, Ordered_Map: what is used of strings and of \<open>BTreeMap\<close> of the standard library; the map is the
    locale \<open>ordered_map\<close>, interpreted on sorted association lists.
  \<^item> Skk_Types: \<open>skk.rs\<close>, with its constants, \<open>Config\<close> and the structures of the dictionary file; storing and
    loading them is the locale \<open>byte_codec\<close>, interpreted for each of the five structures.
  \<^item> Candidates, Free_Text: \<open>skk/candidates.rs\<close>; the merge of candidates equals a specification on lists, and
    none of the operations and conversions makes a control character or a line feed.

  The encoding.
  \<^item> Encoding_Table, Table_Source: \<open>skk/encoding_simple/\<close> \<open>encoding_table.rs\<close>, \<open>decoder.rs\<close>, \<open>encoder.rs\<close>: the tables,
    their setup from bytes, and the generator that makes them.
  \<^item> Euc_Codec, Euc_Roundtrip: \<open>euc.rs\<close> and \<open>Utility\<close> of \<open>encoding_simple.rs\<close>. The loops over an index are refined
    to functions of one character (locale \<open>char_loop\<close>, interpreted for decoding and for encoding). They are
    total, and a text of the repertoire survives both.

  The dictionary.
  \<^item> Jisyo_Reader, Jisyo_Lines, Jisyo_Map: \<open>skk/yaskkserv2_make_dictionary/jisyo_reader.rs\<close>. The lines do not depend
    on how the reads cut the file; the merged map is ordered and well formed; two kinds of lines that are
    treated wrongly.
  \<^item> Dictionary_Creator, Block_Units, Dictionary, Index_Roundtrip, Dictionary_File: \<open>dictionary_creator.rs\<close> and
    \<open>skk/dictionary.rs\<close>. The file that the creator leaves passes the setup, and the index is read back as written.
  \<^item> Dictionary_Reader, Dictionary_Lookup, Unit_Search: \<open>skk/yaskkserv2/dictionary_reader.rs\<close> and \<open>DictionaryFile\<close>.
    Reading a file is the locale \<open>file_reads\<close>, interpreted on the cache of one unit and on the plain file.
    The search of the index equals a linear search; creation, setup and lookup together are the lookup in the
    list of entries.
  \<^item> Jisyo_Creator, Jisyo_Roundtrip: \<open>jisyo_creator.rs\<close>. From a dictionary to a SKK-JISYO file and back.

  The server.
  \<^item> Google_Cache, Request, Read_Candidates: \<open>skk/yaskkserv2/\<close> \<open>google_cache.rs\<close>, \<open>request.rs\<close> and the online part of
    \<open>dictionary_reader.rs\<close>.
  \<^item> Server: \<open>server.rs\<close>. Every request is answered by the one write that a specification names.
  \<^item> Run_Loop: the event loop of \<open>skk/yaskkserv2.rs\<close>. The events and the arrival of data are a step relation
    (\<open>loop_step\<close>, \<open>loop_reachable\<close>), with the invariant of the table of connections. What is lost when requests
    arrive in parts or together, and a request that ends the server.

  The programs.
  \<^item> Command_Line, Config_File: the two \<open>command_line.rs\<close> and \<open>config_file.rs\<close>. Whatever arguments and file
    hold, a configuration that gets to the setup is valid.
  \<^item> Program: \<open>run_yaskkserv2\<close> and \<open>run_yaskkserv2_make_dictionary\<close> of \<open>skk.rs\<close>. The last theorem goes from
    SKK-JISYO files to the bytes on a socket.

  How the code is modelled. A function that can fail or panic returns \<open>res\<close>; a function that changes its
  arguments returns them. Integers whose wrap-around can matter are words of their width; lengths and indices
  of slices are \<open>nat\<close>, with the check of the slice written out as \<open>slice_res\<close>, \<open>tail_res\<close> and \<open>index_res\<close>. The model is
  a release build, in which overflow wraps. A loop is a recursion with a proof of its termination, so no fuel
  is used; the endless loop of the server is the step relation, and \<open>run_loop\<close> goes through the events that have
  been reported. Files are their bytes. The reads of a SKK-JISYO file and of a socket come as a list of
  outcomes, since the code sees how the operating system cuts them.

  Parameters, and what is assumed of them where a theorem needs it: \<open>twoway\<close> (the first and the last position of
  a pattern, \<open>twoway_documented\<close>), \<open>sha1\<close> (a digest of 20 bytes), \<open>bincode\<close> (deserializing what was serialized),
  \<open>clap\<close> (a value passes its validator or is the default, \<open>clap_documented\<close>), \<open>reqwest\<close>, \<open>json\<close>, \<open>url\<close> and \<open>regex\<close>
  (nothing), the clock, the disk, the order in which a hash map is visited, the order of bytes of the machine, and the
  data of \<open>encoding_table_get.rs\<close>. The theorems about a dictionary assume that its sizes fit the \<open>u32\<close> fields of
  the file (\<open>sizes_fit\<close>) and that an entry is shorter than a unit (\<open>served_entry\<close>). For a longer entry Block_Units shows
  when the division of its block fails.

  Not modelled: the data of \<open>encoding_table_get.rs\<close>, a generated array of bytes; the tests, the benchmarks and the
  servers they compare with (\<open>skk/test_unix\<close>, \<open>bin/test_wrapper.rs\<close>, and the code under \<open>cfg(test)\<close>), which are no part
  of the programs; messages to the log and to standard output; the feature \<open>assert_paranoia\<close>; locks, as one thread
  uses them; the cell of \<open>LookupTableCell\<close> and the casts of \<open>ToFromNeBytes\<close>, of which only the effect on values is
  kept; the part of a dictionary file that is left on a full disk.
\<close>

end
